(* ===== verification/Ordered_Map.thy ===== *)
theory Ordered_Map
  imports Prelude
begin

text \<open>
  The part of Rust's \<^verbatim>\<open>BTreeMap\<close> the sources use: an association list in ascending key order, with
  insertion, removal, lookup, the greatest entry at or below a key (\<^verbatim>\<open>range(..=k).next_back()\<close>) and
  iteration in key order.  \<open>bt_sorted\<close> is the representation invariant.
\<close>

type_synonym ('k, 'v) btree_map = "('k \<times> 'v) list"

fun bt_insert :: "'k::linorder \<Rightarrow> 'v \<Rightarrow> ('k, 'v) btree_map \<Rightarrow> ('k, 'v) btree_map" where
  "bt_insert k v [] = [(k, v)]"
| "bt_insert k v ((k', v') # m) =
     (if k < k' then (k, v) # (k', v') # m
      else if k = k' then (k, v) # m
      else (k', v') # bt_insert k v m)"

definition bt_remove :: "'k \<Rightarrow> ('k, 'v) btree_map \<Rightarrow> ('k, 'v) btree_map" where
  "bt_remove k m = filter (\<lambda>e. fst e \<noteq> k) m"

definition bt_get :: "'k \<Rightarrow> ('k, 'v) btree_map \<Rightarrow> 'v option" where
  "bt_get k m = map_of m k"

definition bt_floor :: "'k::linorder \<Rightarrow> ('k, 'v) btree_map \<Rightarrow> ('k \<times> 'v) option" where
  "bt_floor k m = find (\<lambda>e. fst e \<le> k) (rev m)"

definition bt_sorted :: "('k::linorder, 'v) btree_map \<Rightarrow> bool" where
  "bt_sorted m \<longleftrightarrow> sorted_wrt (<) (map fst m)"

lemma bt_sorted_Nil [simp]: "bt_sorted []"
  by (simp add: bt_sorted_def)

lemma bt_sorted_Cons: "bt_sorted (e # m) \<longleftrightarrow> (\<forall>e' \<in> set m. fst e < fst e') \<and> bt_sorted m"
  by (auto simp: bt_sorted_def)

lemma bt_sorted_distinct: "bt_sorted m \<Longrightarrow> distinct (map fst m)"
  by (induction m) (auto simp: bt_sorted_Cons)

lemma bt_keys_functional:
  "\<lbrakk>bt_sorted m; (k, v) \<in> set m; (k, v') \<in> set m\<rbrakk> \<Longrightarrow> v = v'"
  by (metis bt_sorted_distinct eq_key_imp_eq_value)

lemma set_bt_insert:
  "bt_sorted m \<Longrightarrow> set (bt_insert k v m) = insert (k, v) {e \<in> set m. fst e \<noteq> k}"
  by (induction k v m rule: bt_insert.induct) (auto simp: bt_sorted_Cons)

lemma bt_sorted_insert [simp]: "bt_sorted m \<Longrightarrow> bt_sorted (bt_insert k v m)"
proof (induction k v m rule: bt_insert.induct)
  case (2 k v k' v' m)
  then show ?case
    by (auto simp: bt_sorted_Cons set_bt_insert)
qed (simp add: bt_sorted_Cons)

lemma set_bt_remove [simp]: "set (bt_remove k m) = {e \<in> set m. fst e \<noteq> k}"
  by (auto simp: bt_remove_def)

lemma bt_sorted_remove [simp]: "bt_sorted m \<Longrightarrow> bt_sorted (bt_remove k m)"
  by (induction m) (auto simp: bt_sorted_Cons bt_remove_def)

lemma bt_get_Some_iff: "bt_sorted m \<Longrightarrow> bt_get k m = Some v \<longleftrightarrow> (k, v) \<in> set m"
  by (simp add: bt_get_def bt_sorted_distinct)

lemma bt_get_None_iff: "bt_get k m = None \<longleftrightarrow> (\<forall>v. (k, v) \<notin> set m)"
  by (auto simp: bt_get_def map_of_eq_None_iff image_iff)

lemma bt_floor_NoneD: "bt_floor k m = None \<Longrightarrow> (k', v) \<in> set m \<Longrightarrow> k < k'"
  by (force simp: bt_floor_def find_None_iff)

lemma find_append:
  "find P (xs @ ys) = (case find P xs of None \<Rightarrow> find P ys | Some x \<Rightarrow> Some x)"
  by (induction xs) auto

lemma bt_floor_SomeD:
  assumes "bt_sorted m" and "bt_floor k m = Some (p, v)"
  shows "(p, v) \<in> set m \<and> p \<le> k \<and> (\<forall>k' v'. (k', v') \<in> set m \<longrightarrow> k' \<le> k \<longrightarrow> k' \<le> p)"
  using assms
proof (induction m)
  case (Cons e m)
  show ?case
  proof (cases "bt_floor k m")
    case None
    have above: "k < k'" if "(k', w) \<in> set m" for k' w
      by (rule bt_floor_NoneD [OF None that])
    have "e = (p, v) \<and> p \<le> k"
      using Cons.prems(2) None by (auto simp: bt_floor_def find_append split: if_splits)
    with above show ?thesis
      by (auto dest: above simp: not_le [symmetric])
  next
    case (Some q)
    then have "bt_floor k (e # m) = Some q"
      by (simp add: bt_floor_def find_append)
    with Cons Some show ?thesis
      by (fastforce simp: bt_sorted_Cons)
  qed
qed (simp add: bt_floor_def)

lemma find_first_SomeD: "find P xs = Some x \<Longrightarrow> x \<in> set xs \<and> P x"
  by (auto simp: find_Some_iff)

end
