(* ===== verification/Guest_Types.thy ===== *)
theory Guest_Types
  imports Prelude
begin

text \<open>
  The crate \<open>exbawks-types\<close>: guest virtual and physical addresses, page numbers, checked address
  ranges and the iterator over the pages they cover (\<open>address.rs\<close>), and page permissions and
  access kinds (\<open>execution.rs\<close>). The newtypes over \<open>u32\<close> are type synonyms; a \<open>u64\<close> length is a
  natural with its bounds written out.
\<close>

type_synonym GuestVa = u32
type_synonym GuestPa = u32
type_synonym GuestPage = u32

abbreviation (input) "GUEST_PAGE_SHIFT \<equiv> (12 :: nat)"
abbreviation (input) "GUEST_PAGE_SIZE \<equiv> (4096 :: nat)"
abbreviation (input) "GUEST_PAGE_COUNT \<equiv> (1048576 :: nat)"


section \<open>Addresses and pages\<close>

definition va_page :: "GuestVa \<Rightarrow> GuestPage" where
  "va_page a = drop_bit GUEST_PAGE_SHIFT a"

definition page_offset :: "GuestVa \<Rightarrow> u32" where
  "page_offset a = a AND 0xFFF"

definition va_checked_add :: "GuestVa \<Rightarrow> u32 \<Rightarrow> GuestVa option" where
  "va_checked_add a n = checked_add a n"

definition page_index :: "GuestPage \<Rightarrow> nat" where
  "page_index p = unat p"

definition page_start :: "GuestPage \<Rightarrow> u32" where
  "page_start p = push_bit GUEST_PAGE_SHIFT p"

lemma mask12: "(0xFFF :: u32) = mask 12"
  by (simp add: mask_eq_exp_minus_1)

lemma unat_va_page: "unat (va_page a) = unat a div 4096"
  by (simp add: va_page_def unat_drop_bit)

lemma unat_page_offset: "unat (page_offset a) = unat a mod 4096"
  by (simp add: page_offset_def mask12 unat_and_mask)

lemma page_offset_less [simp]: "unat (page_offset a) < 4096"
  by (simp add: unat_page_offset)

lemma va_page_less [simp]: "unat (va_page a) < GUEST_PAGE_COUNT"
  using unat_lt_2p32 [of a] by (simp add: unat_va_page div_less_iff_less_mult)

lemma va_split: "unat a = unat (va_page a) * 4096 + unat (page_offset a)"
  by (simp add: unat_va_page unat_page_offset div_mult_mod_eq)

lemma page_start_va_page: "page_start (va_page a) OR page_offset a = a"
  by (rule bit_word_eqI)
    (auto simp: page_start_def va_page_def page_offset_def mask12 bit_simps)


section \<open>Ranges\<close>

datatype AddressError =
    EmptyRange
  | RangeOverflow GuestVa nat
  | UnalignedRange GuestVa nat

record GuestRange =
  gr_start :: GuestVa
  gr_len :: nat

definition range_new :: "GuestVa \<Rightarrow> nat \<Rightarrow> AddressError + GuestRange" where
  "range_new start len =
     (if len = 0 then Inl EmptyRange
      else bind_r (ok_or (usize_checked_add (unat start) len) (RangeOverflow start len)) (\<lambda>end.
        if end > (2 ^ 32 - 1) + 1 then Inl (RangeOverflow start len)
        else Inr \<lparr>gr_start = start, gr_len = len\<rparr>))"

definition end_exclusive :: "GuestRange \<Rightarrow> nat" where
  "end_exclusive r = unat (gr_start r) + gr_len r"

definition range_is_empty :: "GuestRange \<Rightarrow> bool" where
  "range_is_empty r \<longleftrightarrow> gr_len r = 0"

definition page_count :: "GuestRange \<Rightarrow> nat" where
  "page_count r =
     (let first = drop_bit GUEST_PAGE_SHIFT (unat (gr_start r));
          last = drop_bit GUEST_PAGE_SHIFT (end_exclusive r - 1)
      in last - first + 1)"

definition require_page_alignment :: "GuestRange \<Rightarrow> AddressError + unit" where
  "require_page_alignment r =
     (let mask = GUEST_PAGE_SIZE - 1 in
      if unat (gr_start r) AND mask \<noteq> 0 \<or> gr_len r AND mask \<noteq> 0
      then Inl (UnalignedRange (gr_start r) (gr_len r))
      else Inr ())"

definition page_aligned :: "GuestVa \<Rightarrow> nat \<Rightarrow> AddressError + GuestRange" where
  "page_aligned start len =
     bind_r (range_new start len) (\<lambda>r.
     bind_r (require_page_alignment r) (\<lambda>_.
     Inr r))"

definition range_contains :: "GuestRange \<Rightarrow> GuestVa \<Rightarrow> bool" where
  "range_contains r a \<longleftrightarrow> unat a \<ge> unat (gr_start r) \<and> unat a < end_exclusive r"

text \<open>The page iterator: a cursor and an exclusive end, both \<open>u32\<close>.\<close>

record GuestPageIter =
  it_next :: u32
  it_end :: u32

definition iter_next :: "GuestPageIter \<Rightarrow> GuestPage option \<times> GuestPageIter" where
  "iter_next it =
     (if it_next it \<ge> it_end it then (None, it)
      else (Some (it_next it), it\<lparr>it_next := it_next it + 1\<rparr>))"

definition size_hint :: "GuestPageIter \<Rightarrow> nat" where
  "size_hint it = unat (it_end it - it_next it)"

lemma iter_next_measure:
  "iter_next it = (Some p, it') \<Longrightarrow> unat (it_end it') - unat (it_next it') < unat (it_end it) - unat (it_next it)"
proof -
  assume "iter_next it = (Some p, it')"
  then have less: "it_next it < it_end it" and it': "it' = it\<lparr>it_next := it_next it + 1\<rparr>"
    by (auto simp: iter_next_def split: if_splits)
  from less have "unat (it_next it + 1) = unat (it_next it) + 1"
    by (simp add: unat_plus_one_less)
  with less it' show ?thesis
    by (simp add: word_less_nat_alt)
qed

text \<open>A \<open>for\<close> loop over the iterator visits the list it collects.\<close>

function iter_collect :: "GuestPageIter \<Rightarrow> GuestPage list" where
  "iter_collect it = (case iter_next it of (None, _) \<Rightarrow> [] | (Some p, it') \<Rightarrow> p # iter_collect it')"
  by pat_completeness auto
termination
  by (relation "measure (\<lambda>it. unat (it_end it) - unat (it_next it))")
    (simp_all, metis iter_next_measure)

declare iter_collect.simps [simp del]

definition range_pages :: "GuestRange \<Rightarrow> GuestPageIter" where
  "range_pages r =
     (let first = drop_bit GUEST_PAGE_SHIFT (gr_start r);
          last_exclusive = word_of_nat (drop_bit GUEST_PAGE_SHIFT (end_exclusive r - 1)) + 1
      in \<lparr>it_next = first, it_end = last_exclusive\<rparr>)"

definition pages :: "GuestRange \<Rightarrow> GuestPage list" where
  "pages r = iter_collect (range_pages r)"


section \<open>Permissions and accesses\<close>

type_synonym MemoryPermissions = u8

abbreviation (input) "READ \<equiv> (1 :: MemoryPermissions)"
abbreviation (input) "WRITE \<equiv> (2 :: MemoryPermissions)"
abbreviation (input) "EXECUTE \<equiv> (4 :: MemoryPermissions)"

definition perm_contains :: "MemoryPermissions \<Rightarrow> MemoryPermissions \<Rightarrow> bool" where
  "perm_contains p q \<longleftrightarrow> p AND q = q"

datatype AccessKind = Read | Write | Execute

fun required_permission :: "AccessKind \<Rightarrow> MemoryPermissions" where
  "required_permission Read = READ"
| "required_permission Write = WRITE"
| "required_permission Execute = EXECUTE"


section \<open>Lemmas on ranges\<close>

text \<open>The invariant of a range built by the constructors: non-empty and inside the 32-bit space.\<close>

definition range_ok :: "GuestRange \<Rightarrow> bool" where
  "range_ok r \<longleftrightarrow> 0 < gr_len r \<and> end_exclusive r \<le> 2 ^ 32"

lemma range_new_Inr_iff:
  "range_new a n = Inr r \<longleftrightarrow> 0 < n \<and> unat a + n \<le> 2 ^ 32 \<and> r = \<lparr>gr_start = a, gr_len = n\<rparr>"
  by (auto simp: range_new_def usize_checked_add_def)

lemma range_new_Inl_iff: "(\<exists>e. range_new a n = Inl e) \<longleftrightarrow> n = 0 \<or> 2 ^ 32 < unat a + n"
  by (auto simp: range_new_def usize_checked_add_def)

lemma range_new_ok: "range_new a n = Inr r \<Longrightarrow> range_ok r"
  by (auto simp: range_new_Inr_iff range_ok_def end_exclusive_def)

lemma nat_and_4095: "(n :: nat) AND 4095 = n mod 4096"
proof -
  have "(4095 :: nat) = mask 12"
    by (simp add: mask_eq_exp_minus_1)
  then have "n AND 4095 = take_bit 12 n"
    by (simp only: take_bit_eq_mask)
  then show ?thesis
    by (simp add: take_bit_eq_mod)
qed

lemma require_page_alignment_iff:
  "require_page_alignment r = Inr () \<longleftrightarrow> unat (gr_start r) mod 4096 = 0 \<and> gr_len r mod 4096 = 0"
  by (auto simp: require_page_alignment_def nat_and_4095)

lemma require_page_alignment_Inl_iff:
  "(\<exists>e. require_page_alignment r = Inl e) \<longleftrightarrow>
     \<not> (unat (gr_start r) mod 4096 = 0 \<and> gr_len r mod 4096 = 0)"
  by (auto simp: require_page_alignment_def nat_and_4095)

lemma page_aligned_Inr_iff:
  "page_aligned a n = Inr r \<longleftrightarrow>
     range_new a n = Inr r \<and> unat a mod 4096 = 0 \<and> n mod 4096 = 0"
  by (auto simp: page_aligned_def bind_r_Inr_iff require_page_alignment_iff range_new_Inr_iff)

lemma iter_collect_upt:
  "map unat (iter_collect it) = [unat (it_next it)..<unat (it_end it)]"
proof (induction it rule: iter_collect.induct)
  case (1 it)
  show ?case
  proof (cases "it_next it < it_end it")
    case False
    then show ?thesis
      by (simp add: iter_collect.simps [of it] iter_next_def word_le_nat_alt not_less)
  next
    case True
    then have nxt: "iter_next it = (Some (it_next it), it\<lparr>it_next := it_next it + 1\<rparr>)"
      by (auto simp: iter_next_def)
    have suc: "unat (it_next it + 1) = Suc (unat (it_next it))"
      using True by (rule unat_plus_one_less)
    from nxt suc 1 [OF nxt [symmetric] refl] True show ?thesis
      by (simp add: iter_collect.simps [of it] upt_conv_Cons word_less_nat_alt)
  qed
qed

lemma last_page_bound: "range_ok r \<Longrightarrow> (end_exclusive r - 1) div 4096 < GUEST_PAGE_COUNT"
  by (auto simp: range_ok_def div_less_iff_less_mult)

lemma pages_upt:
  assumes "range_ok r"
  shows "map unat (pages r) =
           [unat (gr_start r) div 4096..<(end_exclusive r - 1) div 4096 + 1]"
proof -
  let ?l = "(end_exclusive r - 1) div 4096"
  have bound: "?l < GUEST_PAGE_COUNT"
    using assms by (rule last_page_bound)
  have "unat (word_of_nat ?l + 1 :: u32) = ?l + 1"
    using bound by (simp add: unat_word_ariths unat_of_nat)
  then show ?thesis
    by (simp add: pages_def range_pages_def iter_collect_upt unat_drop_bit nat_drop_bit)
qed

lemma set_pages_iff:
  assumes "range_ok r"
  shows "p \<in> set (pages r) \<longleftrightarrow>
           unat (gr_start r) div 4096 \<le> unat p \<and> unat p \<le> (end_exclusive r - 1) div 4096"
proof -
  have "p \<in> set (pages r) \<longleftrightarrow> unat p \<in> set (map unat (pages r))"
    by (auto simp: unat_inj_iff)
  then show ?thesis
    by (auto simp: pages_upt [OF assms])
qed

lemma pages_in_table: "range_ok r \<Longrightarrow> p \<in> set (pages r) \<Longrightarrow> unat p < GUEST_PAGE_COUNT"
  using last_page_bound set_pages_iff by fastforce

lemma distinct_pages: "range_ok r \<Longrightarrow> distinct (pages r)"
  by (metis distinct_map distinct_upt pages_upt)

lemma length_pages: "range_ok r \<Longrightarrow> length (pages r) = page_count r"
proof -
  assume ok: "range_ok r"
  have "unat (gr_start r) div 4096 \<le> (end_exclusive r - 1) div 4096"
    using ok by (auto simp: range_ok_def end_exclusive_def intro!: div_le_mono)
  then have "length (map unat (pages r)) = page_count r"
    by (simp add: pages_upt [OF ok] page_count_def nat_drop_bit Let_def)
  then show ?thesis by simp
qed

text \<open>The pages of a range are exactly the pages of its addresses.\<close>

lemma va_page_in_pages:
  assumes "range_ok r" and "range_contains r a"
  shows "va_page a \<in> set (pages r)"
  using assms
  by (auto simp: set_pages_iff range_contains_def unat_va_page intro: div_le_mono)

end
