(* ===== verification/Page_Table.thy ===== *)
theory Page_Table
  imports Guest_Types
begin

text \<open>
  The crate \<open>exbawks-memory\<close>, \<open>error.rs\<close> and \<open>page_table.rs\<close>: the packed 64-bit page descriptor,
  and the sidecar page table with its per-physical-page generation counters. The table's arrays of
  \<open>2^20\<close> atomics are functions on indices; an operation here is what the source performs while it
  holds the mutation lock.
\<close>

section \<open>Errors\<close>

datatype PlatformError = Unsupported string | InvalidArgument string | Win32 string u32

datatype MemoryError =
    Address AddressError
  | OutOfPhysicalMemory u32
  | Unmapped GuestVa AccessKind
  | AccessDenied GuestVa AccessKind
  | MmioAccess GuestVa u16
  | PhysicalOutOfRange GuestPa
  | AlreadyMapped GuestVa
  | HostSizeOverflow
  | InvalidArenaBase nat
  | InvalidPhysicalSize nat
  | UnalignedPhysicalAddress GuestPa
  | ArenaViewOverlap GuestVa
  | Platform PlatformError


section \<open>Page descriptors\<close>

abbreviation (input) "KIND_SHIFT \<equiv> (0 :: nat)"
abbreviation (input) "KIND_MASK \<equiv> (0x7 :: u64)"
abbreviation (input) "PERMISSIONS_SHIFT \<equiv> (3 :: nat)"
abbreviation (input) "PERMISSIONS_MASK \<equiv> (0x7 :: u64)"
abbreviation (input) "PHYSICAL_PAGE_SHIFT \<equiv> (8 :: nat)"
abbreviation (input) "PHYSICAL_PAGE_MASK \<equiv> (0xFFFFF :: u64)"
abbreviation (input) "AUX_SHIFT \<equiv> (28 :: nat)"
abbreviation (input) "AUX_MASK \<equiv> (0xFFFF :: u64)"
abbreviation (input) "GENERATION_SHIFT \<equiv> (44 :: nat)"
abbreviation (input) "GENERATION_MASK \<equiv> (0xFFFF :: u64)"
abbreviation (input) "WATCH_SHIFT \<equiv> (60 :: nat)"
abbreviation (input) "WATCH_MASK \<equiv> (0x7 :: u64)"
abbreviation (input) "VALID_BIT \<equiv> (0x8000000000000000 :: u64)"

datatype PageKind = KindUnmapped | KindRam | KindMmio | KindReserved

fun kind_to_raw :: "PageKind \<Rightarrow> u64" where
  "kind_to_raw KindUnmapped = 0"
| "kind_to_raw KindRam = 1"
| "kind_to_raw KindMmio = 2"
| "kind_to_raw KindReserved = 3"

definition kind_from_raw :: "u8 \<Rightarrow> PageKind" where
  "kind_from_raw v =
     (if v = 1 then KindRam else if v = 2 then KindMmio else if v = 3 then KindReserved
      else KindUnmapped)"

record WatchFlags =
  watch_read :: bool
  watch_write :: bool
  watch_execute :: bool

definition WATCH_NONE :: WatchFlags where
  "WATCH_NONE = \<lparr>watch_read = False, watch_write = False, watch_execute = False\<rparr>"

definition watch_to_raw :: "WatchFlags \<Rightarrow> u8" where
  "watch_to_raw w =
     of_bool (watch_read w) OR push_bit 1 (of_bool (watch_write w)) OR
     push_bit 2 (of_bool (watch_execute w))"

definition watch_from_raw :: "u8 \<Rightarrow> WatchFlags" where
  "watch_from_raw v =
     \<lparr>watch_read = (v AND 1 \<noteq> 0), watch_write = (v AND 2 \<noteq> 0), watch_execute = (v AND 4 \<noteq> 0)\<rparr>"

type_synonym PageDescriptor = u64

definition pack ::
  "PageKind \<Rightarrow> MemoryPermissions \<Rightarrow> u32 \<Rightarrow> u16 \<Rightarrow> u16 \<Rightarrow> WatchFlags \<Rightarrow> PageDescriptor" where
  "pack kind perms physical_page aux gen watch =
     VALID_BIT OR
     push_bit KIND_SHIFT (kind_to_raw kind) OR
     push_bit PERMISSIONS_SHIFT (ucast perms AND PERMISSIONS_MASK) OR
     push_bit PHYSICAL_PAGE_SHIFT (ucast physical_page AND PHYSICAL_PAGE_MASK) OR
     push_bit AUX_SHIFT (ucast aux AND AUX_MASK) OR
     push_bit GENERATION_SHIFT (ucast gen AND GENERATION_MASK) OR
     push_bit WATCH_SHIFT (ucast (watch_to_raw watch) AND WATCH_MASK)"

definition desc_ram :: "GuestPage \<Rightarrow> MemoryPermissions \<Rightarrow> u16 \<Rightarrow> PageDescriptor" where
  "desc_ram physical_page perms gen = pack KindRam perms physical_page 0 gen WATCH_NONE"

definition desc_mmio :: "u16 \<Rightarrow> MemoryPermissions \<Rightarrow> u16 \<Rightarrow> PageDescriptor" where
  "desc_mmio handler_id perms gen = pack KindMmio perms 0 handler_id gen WATCH_NONE"

definition desc_reserved :: "u16 \<Rightarrow> PageDescriptor" where
  "desc_reserved gen = pack KindReserved 0 0 0 gen WATCH_NONE"

definition is_valid :: "PageDescriptor \<Rightarrow> bool" where
  "is_valid d \<longleftrightarrow> d AND VALID_BIT \<noteq> 0"

definition kind :: "PageDescriptor \<Rightarrow> PageKind" where
  "kind d = kind_from_raw (ucast (drop_bit KIND_SHIFT d AND KIND_MASK))"

definition permissions :: "PageDescriptor \<Rightarrow> MemoryPermissions" where
  "permissions d = ucast (drop_bit PERMISSIONS_SHIFT d AND PERMISSIONS_MASK)"

definition physical_page :: "PageDescriptor \<Rightarrow> GuestPage" where
  "physical_page d = ucast (drop_bit PHYSICAL_PAGE_SHIFT d AND PHYSICAL_PAGE_MASK)"

definition handler_id :: "PageDescriptor \<Rightarrow> u16" where
  "handler_id d = ucast (drop_bit AUX_SHIFT d AND AUX_MASK)"

definition generation :: "PageDescriptor \<Rightarrow> u16" where
  "generation d = ucast (drop_bit GENERATION_SHIFT d AND GENERATION_MASK)"

definition watch :: "PageDescriptor \<Rightarrow> WatchFlags" where
  "watch d = watch_from_raw (ucast (drop_bit WATCH_SHIFT d AND WATCH_MASK))"

definition with_permissions :: "PageDescriptor \<Rightarrow> MemoryPermissions \<Rightarrow> PageDescriptor" where
  "with_permissions d perms =
     d AND NOT (push_bit PERMISSIONS_SHIFT PERMISSIONS_MASK) OR
     push_bit PERMISSIONS_SHIFT (ucast perms AND PERMISSIONS_MASK)"

definition with_generation :: "PageDescriptor \<Rightarrow> u16 \<Rightarrow> PageDescriptor" where
  "with_generation d gen =
     d AND NOT (push_bit GENERATION_SHIFT GENERATION_MASK) OR push_bit GENERATION_SHIFT (ucast gen)"

definition with_watch :: "PageDescriptor \<Rightarrow> WatchFlags \<Rightarrow> PageDescriptor" where
  "with_watch d w =
     d AND NOT (push_bit WATCH_SHIFT WATCH_MASK) OR push_bit WATCH_SHIFT (ucast (watch_to_raw w))"


section \<open>The table\<close>

record PageTable =
  entries :: "nat \<Rightarrow> u64"
  physical_generations :: "nat \<Rightarrow> u16"

definition pt_new :: PageTable where
  "pt_new = \<lparr>entries = (\<lambda>_. 0), physical_generations = (\<lambda>_. 0)\<rparr>"

definition pt_get :: "PageTable \<Rightarrow> GuestPage \<Rightarrow> PageDescriptor" where
  "pt_get t p = (if page_index p < GUEST_PAGE_COUNT then entries t (page_index p) else 0)"

text \<open>
  The source's \<open>set\<close> panics on an index outside the table; \<open>pages_in_table\<close> shows that every page
  of a range is inside, and a page with a valid descriptor is inside by \<open>pt_get\<close>.
\<close>

definition pt_set :: "PageTable \<Rightarrow> GuestPage \<Rightarrow> PageDescriptor \<Rightarrow> PageTable" where
  "pt_set t p d = t\<lparr>entries := (entries t)(page_index p := d)\<rparr>"

definition physical_generation :: "PageTable \<Rightarrow> GuestPage \<Rightarrow> u16 option" where
  "physical_generation t p =
     (if page_index p < GUEST_PAGE_COUNT then Some (physical_generations t (page_index p)) else None)"

definition bump_physical_generation :: "PageTable \<Rightarrow> GuestPage \<Rightarrow> u16 option \<times> PageTable" where
  "bump_physical_generation t p =
     (if page_index p < GUEST_PAGE_COUNT
      then let g = physical_generations t (page_index p) + 1
           in (Some g, t\<lparr>physical_generations := (physical_generations t)(page_index p := g)\<rparr>)
      else (None, t))"

text \<open>The scan that refuses a range with a mapped page, shared by the three mapping operations.\<close>

definition first_mapped :: "PageTable \<Rightarrow> GuestRange \<Rightarrow> GuestPage option" where
  "first_mapped t r = find (\<lambda>p. is_valid (pt_get t p)) (pages r)"

fun map_ram_loop ::
  "GuestPage \<Rightarrow> MemoryPermissions \<Rightarrow> nat \<Rightarrow> GuestPage list \<Rightarrow> (PageTable, MemoryError, unit) st" where
  "map_ram_loop start perms off [] = ret ()"
| "map_ram_loop start perms off (p # ps) =
     bind_s (gets_r (\<lambda>_. ok_or (u32_try_from off) HostSizeOverflow)) (\<lambda>o32.
     bind_s (gets_r (\<lambda>_. ok_or (checked_add start o32) HostSizeOverflow)) (\<lambda>phys.
     bind_s (gets_r (\<lambda>t. ok_or (physical_generation t phys) (PhysicalOutOfRange (page_start phys))))
       (\<lambda>gen.
     bind_s (modify (\<lambda>t. pt_set t p (desc_ram phys perms gen))) (\<lambda>_.
     map_ram_loop start perms (off + 1) ps))))"

definition map_ram ::
  "GuestRange \<Rightarrow> GuestPage \<Rightarrow> MemoryPermissions \<Rightarrow> (PageTable, MemoryError, unit) st" where
  "map_ram r start perms =
     bind_s (gets_r (\<lambda>_. map_err Address (require_page_alignment r))) (\<lambda>_.
     bind_s (gets_r (\<lambda>_. ok_or (u32_try_from (page_count r)) HostSizeOverflow)) (\<lambda>n.
     bind_s (gets_r (\<lambda>_. ok_or (checked_add start n) (PhysicalOutOfRange (page_start start)))) (\<lambda>pend.
     if unat pend > GUEST_PAGE_COUNT then throw (PhysicalOutOfRange (page_start start))
     else bind_s (gets (\<lambda>t. first_mapped t r)) (\<lambda>m.
       case m of
         Some p \<Rightarrow> throw (AlreadyMapped (page_start p))
       | None \<Rightarrow> map_ram_loop start perms 0 (pages r)))))"

definition map_mmio ::
  "GuestRange \<Rightarrow> u16 \<Rightarrow> MemoryPermissions \<Rightarrow> (PageTable, MemoryError, unit) st" where
  "map_mmio r h perms =
     bind_s (gets_r (\<lambda>_. map_err Address (require_page_alignment r))) (\<lambda>_.
     bind_s (gets (\<lambda>t. first_mapped t r)) (\<lambda>m.
       case m of
         Some p \<Rightarrow> throw (AlreadyMapped (page_start p))
       | None \<Rightarrow> modify (\<lambda>t. fold (\<lambda>p t. pt_set t p (desc_mmio h perms 0)) (pages r) t)))"

definition reserve :: "GuestRange \<Rightarrow> (PageTable, MemoryError, unit) st" where
  "reserve r =
     bind_s (gets_r (\<lambda>_. map_err Address (require_page_alignment r))) (\<lambda>_.
     bind_s (gets (\<lambda>t. first_mapped t r)) (\<lambda>m.
       case m of
         Some p \<Rightarrow> throw (AlreadyMapped (page_start p))
       | None \<Rightarrow> modify (\<lambda>t. fold (\<lambda>p t. pt_set t p (desc_reserved 0)) (pages r) t)))"

definition set_watch :: "GuestPage \<Rightarrow> WatchFlags \<Rightarrow> (PageTable, MemoryError, unit) st" where
  "set_watch p w =
     bind_s (gets (\<lambda>t. pt_get t p)) (\<lambda>d.
     if \<not> is_valid d then throw (Unmapped (page_start p) Read)
     else modify (\<lambda>t. pt_set t p (with_watch d w)))"

definition protect :: "GuestRange \<Rightarrow> MemoryPermissions \<Rightarrow> (PageTable, MemoryError, unit) st" where
  "protect r perms =
     bind_s (gets_r (\<lambda>_. map_err Address (require_page_alignment r))) (\<lambda>_.
     bind_s (gets (\<lambda>t. find (\<lambda>p. \<not> is_valid (pt_get t p)) (pages r))) (\<lambda>m.
       case m of
         Some p \<Rightarrow> throw (Unmapped (page_start p) Read)
       | None \<Rightarrow>
           modify (\<lambda>t. fold (\<lambda>p t. pt_set t p (with_permissions (pt_get t p) perms)) (pages r) t)))"

definition unmap :: "GuestRange \<Rightarrow> (PageTable, MemoryError, unit) st" where
  "unmap r =
     bind_s (gets_r (\<lambda>_. map_err Address (require_page_alignment r))) (\<lambda>_.
     modify (\<lambda>t. fold (\<lambda>p t. pt_set t p 0) (pages r) t))"



section \<open>Lemmas on descriptors\<close>

text \<open>Each constant of the layout by its bits.\<close>

lemma bit_layout_consts:
  "bit (0x7 :: u64) n \<longleftrightarrow> n < 3"
  "bit (0xFFFF :: u64) n \<longleftrightarrow> n < 16"
  "bit (0xFFFFF :: u64) n \<longleftrightarrow> n < 20"
  "bit (0x8000000000000000 :: u64) n \<longleftrightarrow> n = 63"
proof -
  have "(0x7 :: u64) = mask 3" "(0xFFFF :: u64) = mask 16" "(0xFFFFF :: u64) = mask 20"
    by (simp_all add: mask_eq_exp_minus_1)
  then show "bit (0x7 :: u64) n \<longleftrightarrow> n < 3" "bit (0xFFFF :: u64) n \<longleftrightarrow> n < 16"
    "bit (0xFFFFF :: u64) n \<longleftrightarrow> n < 20"
    by (simp_all only: bit_mask_iff) auto
  have "(0x8000000000000000 :: u64) = push_bit 63 1"
    by simp
  then show "bit (0x8000000000000000 :: u64) n \<longleftrightarrow> n = 63"
    by (simp only: bit_push_bit_iff bit_1_iff) auto
qed

lemma kind_to_raw_bits: "bit (kind_to_raw k) n \<Longrightarrow> n < 3"
proof -
  assume "bit (kind_to_raw k) n"
  moreover have "kind_to_raw k = take_bit 3 (kind_to_raw k)"
    by (cases k) simp_all
  ultimately show ?thesis
    by (metis bit_take_bit_iff)
qed

lemma watch_to_raw_bits: "bit (watch_to_raw w) n \<Longrightarrow> n < 3"
proof -
  assume "bit (watch_to_raw w) n"
  moreover have "watch_to_raw w = take_bit 3 (watch_to_raw w)"
    by (cases w) (auto simp: watch_to_raw_def of_bool_def)
  ultimately show ?thesis
    by (metis bit_take_bit_iff)
qed


lemma is_valid_iff: "is_valid d \<longleftrightarrow> bit d 63"
proof -
  have "(0x8000000000000000 :: u64) = push_bit 63 1"
    by simp
  then have "is_valid d \<longleftrightarrow> d AND push_bit 63 1 \<noteq> 0"
    by (simp only: is_valid_def)
  also have "\<dots> \<longleftrightarrow> bit d 63"
    by (rule word_and_single_bit_iff) simp
  finally show ?thesis .
qed

text \<open>One field of the layout: \<open>k\<close> bits at shift \<open>s\<close>, written and read.\<close>

lemma bit_field_put:
  fixes x :: "'b::len word"
  assumes "\<And>i. bit m i \<longleftrightarrow> i < k" and "s + k \<le> 64"
  shows "bit (push_bit s (ucast x AND m) :: u64) n \<longleftrightarrow> s \<le> n \<and> n < s + k \<and> bit x (n - s)"
  using assms(2) by (auto simp: bit_push_bit_iff bit_and_iff bit_unsigned_iff assms(1))

lemma bit_field_get:
  assumes "\<And>i. bit m i \<longleftrightarrow> i < k" and "k \<le> LENGTH('b)"
  shows "bit (ucast (drop_bit s (d :: u64) AND m) :: 'b::len word) n \<longleftrightarrow> n < k \<and> bit d (s + n)"
  using assms(2) by (auto simp: bit_unsigned_iff bit_and_iff bit_drop_bit_eq assms(1))

lemma bit_field_clear:
  assumes "\<And>i. bit m i \<longleftrightarrow> i < k" and "s + k \<le> 64"
  shows "bit ((d :: u64) AND NOT (push_bit s m)) n \<longleftrightarrow> bit d n \<and> \<not> (s \<le> n \<and> n < s + k)"
  using assms(2) by (auto simp: bit_push_bit_iff bit_and_iff bit_not_iff assms(1) dest: bit_imp_le_length)


lemmas bit_layout_put =
  bit_field_put [OF bit_layout_consts(1), of 3] bit_field_put [OF bit_layout_consts(3), of 8]
  bit_field_put [OF bit_layout_consts(2), of 28] bit_field_put [OF bit_layout_consts(2), of 44]
  bit_field_put [OF bit_layout_consts(1), of 60]

lemma bit_pack:
  "bit (pack k p pp a g w) n \<longleftrightarrow>
     n = 63 \<or> bit (kind_to_raw k) n \<or> 3 \<le> n \<and> n < 6 \<and> bit p (n - 3) \<or>
     8 \<le> n \<and> n < 28 \<and> bit pp (n - 8) \<or> 28 \<le> n \<and> n < 44 \<and> bit a (n - 28) \<or>
     44 \<le> n \<and> n < 60 \<and> bit g (n - 44) \<or> 60 \<le> n \<and> n < 63 \<and> bit (watch_to_raw w) (n - 60)"
  unfolding pack_def bit_or_iff bit_layout_consts(4)
  by (subst bit_layout_put, simp)+ simp

lemma bit_desc_fields:
  "bit (permissions d) n \<longleftrightarrow> n < 3 \<and> bit d (3 + n)"
  "bit (physical_page d) n \<longleftrightarrow> n < 20 \<and> bit d (8 + n)"
  "bit (handler_id d) n \<longleftrightarrow> n < 16 \<and> bit d (28 + n)"
  "bit (generation d) n \<longleftrightarrow> n < 16 \<and> bit d (44 + n)"
  unfolding permissions_def physical_page_def handler_id_def generation_def
  by (subst bit_field_get [OF bit_layout_consts(1)] bit_field_get [OF bit_layout_consts(2)]
      bit_field_get [OF bit_layout_consts(3)]; simp)+


definition kind_raw :: "PageDescriptor \<Rightarrow> u8" where
  "kind_raw d = ucast (drop_bit KIND_SHIFT d AND KIND_MASK)"

definition watch_raw :: "PageDescriptor \<Rightarrow> u8" where
  "watch_raw d = ucast (drop_bit WATCH_SHIFT d AND WATCH_MASK)"

lemma kind_raw: "kind d = kind_from_raw (kind_raw d)"
  by (simp only: kind_def kind_raw_def)

lemma watch_raw: "watch d = watch_from_raw (watch_raw d)"
  by (simp only: watch_def watch_raw_def)

lemma bit_kind_raw: "bit (kind_raw d) n \<longleftrightarrow> n < 3 \<and> bit d n"
  unfolding kind_raw_def by (subst bit_field_get [OF bit_layout_consts(1)]) simp_all

lemma bit_watch_raw: "bit (watch_raw d) n \<longleftrightarrow> n < 3 \<and> bit d (60 + n)"
  unfolding watch_raw_def by (subst bit_field_get [OF bit_layout_consts(1)]) simp_all

lemmas bit_fields = bit_kind_raw bit_watch_raw bit_desc_fields

lemma pack_valid: "is_valid (pack k p pp a g w)"
  by (simp add: is_valid_iff bit_pack)

lemma kind_from_to_raw: "kind_from_raw (ucast (kind_to_raw k)) = k"
  by (cases k) (simp_all add: kind_from_raw_def)

lemma watch_from_to_raw: "watch_from_raw (watch_to_raw w) = w"
  by (cases w) (auto simp add: watch_from_raw_def watch_to_raw_def of_bool_def)

lemma pack_kind: "kind (pack k p pp a g w) = k"
proof -
  have "kind_raw (pack k p pp a g w) = ucast (kind_to_raw k)"
    by (rule bit_word_eqI) (auto simp: bit_fields bit_pack bit_unsigned_iff dest: kind_to_raw_bits)
  then show ?thesis
    by (simp add: kind_raw kind_from_to_raw)
qed

lemma pack_watch: "watch (pack k p pp a g w) = w"
proof -
  have "watch_raw (pack k p pp a g w) = watch_to_raw w"
    by (rule bit_word_eqI) (auto simp: bit_fields bit_pack dest: kind_to_raw_bits watch_to_raw_bits)
  then show ?thesis
    by (simp add: watch_raw watch_from_to_raw)
qed

lemma pack_permissions: "permissions (pack k p pp a g w) = take_bit 3 p"
  by (rule bit_word_eqI) (auto simp: bit_fields bit_pack bit_take_bit_iff dest: kind_to_raw_bits)

lemma pack_physical_page: "physical_page (pack k p pp a g w) = take_bit 20 pp"
  by (rule bit_word_eqI) (auto simp: bit_fields bit_pack bit_take_bit_iff dest: kind_to_raw_bits)

lemma pack_handler_id: "handler_id (pack k p pp a g w) = a"
  by (rule bit_word_eqI) (auto simp: bit_fields bit_pack dest: kind_to_raw_bits)

lemma pack_generation: "generation (pack k p pp a g w) = g"
  by (rule bit_word_eqI) (auto simp: bit_fields bit_pack dest: kind_to_raw_bits)

lemmas pack_fields = pack_valid pack_kind pack_permissions pack_physical_page pack_handler_id
  pack_generation pack_watch


lemma bit_with_permissions:
  "bit (with_permissions d p) n \<longleftrightarrow> (if 3 \<le> n \<and> n < 6 then bit p (n - 3) else bit d n)"
  unfolding with_permissions_def bit_or_iff
  by (subst bit_field_clear [OF bit_layout_consts(1)] bit_field_put [OF bit_layout_consts(1)], simp)+ auto

lemma bit_with_generation:
  "bit (with_generation d g) n \<longleftrightarrow> (if 44 \<le> n \<and> n < 60 then bit g (n - 44) else bit d n)"
  unfolding with_generation_def bit_or_iff bit_push_bit_iff [of _ "ucast g"] bit_unsigned_iff
  by (subst bit_field_clear [OF bit_layout_consts(2)], simp) (auto dest: bit_imp_le_length)

lemma bit_with_watch:
  "bit (with_watch d w) n \<longleftrightarrow> (if 60 \<le> n \<and> n < 63 then bit (watch_to_raw w) (n - 60) else bit d n)"
  unfolding with_watch_def bit_or_iff bit_push_bit_iff [of _ "ucast _"] bit_unsigned_iff
  by (subst bit_field_clear [OF bit_layout_consts(1)], simp)
    (auto dest: bit_imp_le_length watch_to_raw_bits)

lemmas bit_desc_with = bit_with_permissions bit_with_generation bit_with_watch

lemma with_permissions_fields:
  "is_valid (with_permissions d p) = is_valid d"
  "kind (with_permissions d p) = kind d"
  "permissions (with_permissions d p) = take_bit 3 p"
  "physical_page (with_permissions d p) = physical_page d"
  "handler_id (with_permissions d p) = handler_id d"
  "generation (with_permissions d p) = generation d"
  "watch (with_permissions d p) = watch d"
proof -
  have "kind_raw (with_permissions d p) = kind_raw d" "watch_raw (with_permissions d p) = watch_raw d"
    by (rule bit_word_eqI; auto simp: bit_fields bit_desc_with)+
  then show "kind (with_permissions d p) = kind d" "watch (with_permissions d p) = watch d"
    by (simp_all add: kind_raw watch_raw)
qed (simp add: is_valid_iff bit_desc_with, (rule bit_word_eqI, auto simp: bit_fields bit_desc_with bit_take_bit_iff)+)

lemma with_watch_fields:
  "is_valid (with_watch d w) = is_valid d"
  "kind (with_watch d w) = kind d"
  "permissions (with_watch d w) = permissions d"
  "physical_page (with_watch d w) = physical_page d"
  "handler_id (with_watch d w) = handler_id d"
  "generation (with_watch d w) = generation d"
  "watch (with_watch d w) = w"
proof -
  have "kind_raw (with_watch d w) = kind_raw d" "watch_raw (with_watch d w) = watch_to_raw w"
    by (rule bit_word_eqI; auto simp: bit_fields bit_desc_with dest: watch_to_raw_bits)+
  then show "kind (with_watch d w) = kind d" "watch (with_watch d w) = w"
    by (simp_all add: kind_raw watch_raw watch_from_to_raw)
qed (simp add: is_valid_iff bit_desc_with, (rule bit_word_eqI, auto simp: bit_fields bit_desc_with)+)

lemma with_generation_fields:
  "is_valid (with_generation d g) = is_valid d"
  "kind (with_generation d g) = kind d"
  "permissions (with_generation d g) = permissions d"
  "physical_page (with_generation d g) = physical_page d"
  "handler_id (with_generation d g) = handler_id d"
  "generation (with_generation d g) = g"
  "watch (with_generation d g) = watch d"
proof -
  have "kind_raw (with_generation d g) = kind_raw d" "watch_raw (with_generation d g) = watch_raw d"
    by (rule bit_word_eqI; auto simp: bit_fields bit_desc_with)+
  then show "kind (with_generation d g) = kind d" "watch (with_generation d g) = watch d"
    by (simp_all add: kind_raw watch_raw)
qed (simp add: is_valid_iff bit_desc_with, (rule bit_word_eqI, auto simp: bit_fields bit_desc_with)+)


section \<open>Lemmas on the table\<close>

lemma pt_get_set: "unat p < GUEST_PAGE_COUNT \<Longrightarrow> pt_get (pt_set t p d) q = (if q = p then d else pt_get t q)"
  by (auto simp: pt_get_def pt_set_def page_index_def unat_inj_iff)

lemma pt_get_valid_bound: "is_valid (pt_get t p) \<Longrightarrow> unat p < GUEST_PAGE_COUNT"
  by (auto simp: pt_get_def page_index_def is_valid_def split: if_splits)

lemma physical_generations_pt_set [simp]: "physical_generations (pt_set t p d) = physical_generations t"
  by (simp add: pt_set_def)

lemma physical_generation_pt_set [simp]: "physical_generation (pt_set t p d) q = physical_generation t q"
  by (simp add: physical_generation_def)

lemma pt_get_new [simp]: "pt_get pt_new p = 0"
  by (simp add: pt_get_def pt_new_def)

lemma fold_pt_set_gens [simp]:
  "physical_generations (fold (\<lambda>p t. pt_set t p (f t p)) ps t) = physical_generations t"
  by (induction ps arbitrary: t) simp_all

text \<open>
  A loop that stores a descriptor for each page, computed from the page's own previous one, acts on
  each listed page separately and on no other.
\<close>

lemma fold_pt_set_get:
  assumes "distinct ps" and "\<forall>p \<in> set ps. unat p < GUEST_PAGE_COUNT"
  shows "pt_get (fold (\<lambda>p t. pt_set t p (f p (pt_get t p))) ps t) q =
           (if q \<in> set ps then f q (pt_get t q) else pt_get t q)"
  using assms
proof (induction ps arbitrary: t)
  case Nil
  then show ?case by simp
next
  case (Cons p ps)
  let ?t = "pt_set t p (f p (pt_get t p))"
  have "pt_get (fold (\<lambda>p t. pt_set t p (f p (pt_get t p))) ps ?t) q =
          (if q \<in> set ps then f q (pt_get ?t q) else pt_get ?t q)"
    using Cons.prems by (intro Cons.IH) auto
  with Cons.prems show ?case
    by (auto simp: pt_get_set)
qed

lemma map_ram_loop_run:
  assumes "distinct ps" and "\<forall>p \<in> set ps. unat p < GUEST_PAGE_COUNT"
    and "unat start + off + length ps \<le> GUEST_PAGE_COUNT"
  shows "\<exists>t'. map_ram_loop start perms off ps t = (Inr (), t') \<and>
           physical_generations t' = physical_generations t \<and>
           (\<forall>i < length ps. pt_get t' (ps ! i) =
              desc_ram (start + word_of_nat (off + i)) perms
                (physical_generations t (unat start + off + i))) \<and>
           (\<forall>q. q \<notin> set ps \<longrightarrow> pt_get t' q = pt_get t q)"
  using assms
proof (induction ps arbitrary: off t)
  case Nil
  then show ?case by simp
next
  case (Cons p ps)
  let ?phys = "start + word_of_nat off"
  have off: "off < 4294967296" "unat (word_of_nat off :: u32) = off"
    using Cons.prems(3) by (simp_all add: unat_of_nat)
  have phys: "unat ?phys = unat start + off"
    using Cons.prems(3) off by (simp add: unat_plus_no_overflow)
  let ?t = "pt_set t p (desc_ram ?phys perms (physical_generations t (unat start + off)))"
  have step: "map_ram_loop start perms off (p # ps) t = map_ram_loop start perms (off + 1) ps ?t"
    using Cons.prems(3) off phys
    by (simp add: u32_try_from_def checked_add_def physical_generation_def page_index_def)
  have "unat start + (off + 1) + length ps \<le> GUEST_PAGE_COUNT" "distinct ps"
    "\<forall>p \<in> set ps. unat p < GUEST_PAGE_COUNT" "p \<notin> set ps" "unat p < GUEST_PAGE_COUNT"
    using Cons.prems by auto
  from Cons.IH [OF this(2,3,1), of ?t] obtain t' where t':
    "map_ram_loop start perms (off + 1) ps ?t = (Inr (), t')"
    "physical_generations t' = physical_generations t"
    "\<forall>i < length ps. pt_get t' (ps ! i) =
       desc_ram (start + word_of_nat (off + 1 + i)) perms
         (physical_generations t (unat start + (off + 1) + i))"
    "\<forall>q. q \<notin> set ps \<longrightarrow> pt_get t' q = pt_get ?t q"
    by auto
  have "pt_get t' ((p # ps) ! i) =
      desc_ram (start + word_of_nat (off + i)) perms (physical_generations t (unat start + off + i))"
    if "i < length (p # ps)" for i
    using that t'(3,4) \<open>p \<notin> set ps\<close> \<open>unat p < GUEST_PAGE_COUNT\<close>
    by (cases i) (auto simp: pt_get_set add.assoc)
  moreover have "pt_get t' q = pt_get t q" if "q \<notin> set (p # ps)" for q
    using that t'(4) \<open>unat p < GUEST_PAGE_COUNT\<close> by (auto simp: pt_get_set)
  ultimately show ?case
    using step t'(1,2) by auto
qed

lemma find_None_ball: "find P xs = None \<longleftrightarrow> (\<forall>x \<in> set xs. \<not> P x)"
  by (auto simp: find_None_iff)

lemma find_SomeD: "find P xs = Some x \<Longrightarrow> x \<in> set xs \<and> P x"
  by (induction xs) (auto split: if_splits)

text \<open>
  \<open>map_ram_ready\<close> is the condition under which a range can be mapped to contiguous physical pages.
\<close>

definition map_ram_ready :: "GuestRange \<Rightarrow> GuestPage \<Rightarrow> PageTable \<Rightarrow> bool" where
  "map_ram_ready r start t \<longleftrightarrow>
     require_page_alignment r = Inr () \<and>
     unat start + page_count r \<le> GUEST_PAGE_COUNT \<and>
     (\<forall>p \<in> set (pages r). \<not> is_valid (pt_get t p))"

lemma page_count_bound: "range_ok r \<Longrightarrow> page_count r \<le> GUEST_PAGE_COUNT"
  using last_page_bound [of r] by (simp add: page_count_def nat_drop_bit Let_def)

lemma map_ram_unfold:
  assumes "range_ok r"
  shows "map_ram r start perms t =
    (if map_ram_ready r start t then map_ram_loop start perms 0 (pages r) t
     else (case require_page_alignment r of
             Inl e \<Rightarrow> (Inl (Address e), t)
           | Inr _ \<Rightarrow>
               if GUEST_PAGE_COUNT < unat start + page_count r
               then (Inl (PhysicalOutOfRange (page_start start)), t)
               else (Inl (AlreadyMapped (page_start (the (first_mapped t r)))), t)))"
proof -
  let ?n = "page_count r"
  have n: "?n < 4294967296" "unat (word_of_nat ?n :: u32) = ?n"
    using page_count_bound [OF assms] by (simp_all add: unat_of_nat)
  show ?thesis
  proof (cases "require_page_alignment r")
    case (Inl e)
    then show ?thesis
      by (simp add: map_ram_def map_ram_ready_def)
  next
    case (Inr u)
    consider (big) "GUEST_PAGE_COUNT < unat start + ?n"
      | (fits) "unat start + ?n \<le> GUEST_PAGE_COUNT"
      by linarith
    then show ?thesis
    proof cases
      case big
      with Inr n show ?thesis
        by (auto simp: map_ram_def map_ram_ready_def u32_try_from_def checked_add_def
            unat_plus_no_overflow)
    next
      case fits
      with Inr n show ?thesis
        by (auto simp: map_ram_def map_ram_ready_def u32_try_from_def checked_add_def
            unat_plus_no_overflow first_mapped_def find_None_ball split: option.splits dest!: find_SomeD)
    qed
  qed
qed

lemma map_ram_run:
  assumes "range_ok r" and "map_ram_ready r start t"
  shows "\<exists>t'. map_ram r start perms t = (Inr (), t') \<and>
           physical_generations t' = physical_generations t \<and>
           (\<forall>i < page_count r. pt_get t' (pages r ! i) =
              desc_ram (start + word_of_nat i) perms (physical_generations t (unat start + i))) \<and>
           (\<forall>q. q \<notin> set (pages r) \<longrightarrow> pt_get t' q = pt_get t q)"
  using map_ram_loop_run [OF distinct_pages [OF assms(1)], of start 0 perms t]
    pages_in_table [OF assms(1)] assms
  by (simp add: map_ram_unfold length_pages map_ram_ready_def)

lemma map_ram_fails:
  assumes "range_ok r" and "\<not> map_ram_ready r start t"
  shows "\<exists>e. map_ram r start perms t = (Inl e, t)"
  using assms by (auto simp: map_ram_unfold split: sum.splits)

lemma desc_ram_fields:
  "is_valid (desc_ram p m g)" "kind (desc_ram p m g) = KindRam"
  "permissions (desc_ram p m g) = take_bit 3 m" "physical_page (desc_ram p m g) = take_bit 20 p"
  "generation (desc_ram p m g) = g"
  by (simp_all add: desc_ram_def pack_fields)

lemma desc_mmio_fields:
  "is_valid (desc_mmio h m g)" "kind (desc_mmio h m g) = KindMmio"
  "permissions (desc_mmio h m g) = take_bit 3 m" "handler_id (desc_mmio h m g) = h"
  by (simp_all add: desc_mmio_def pack_fields)

lemma desc_reserved_fields:
  "is_valid (desc_reserved g)" "kind (desc_reserved g) = KindReserved"
  "permissions (desc_reserved g) = 0"
  by (simp_all add: desc_reserved_def pack_fields)

lemma take_bit_20_page: "unat p < GUEST_PAGE_COUNT \<Longrightarrow> take_bit 20 p = p" for p :: u32
  by (simp add: word_unat_eq_iff unsigned_take_bit_eq take_bit_nat_eq_self)

text \<open>
  The contract every mapping operation of the table keeps: it either succeeds or leaves the table
  as it was, it changes no page outside the range it was given, and it never touches a generation
  counter.
\<close>

locale mapping_op =
  fixes op :: "'a \<Rightarrow> (PageTable, MemoryError, unit) st"
    and ok :: "'a \<Rightarrow> bool"
    and scope :: "'a \<Rightarrow> GuestPage set"
  assumes error_unchanged: "ok x \<Longrightarrow> op x t = (Inl e, t') \<Longrightarrow> t' = t"
    and frame: "ok x \<Longrightarrow> op x t = (Inr u, t') \<Longrightarrow> q \<notin> scope x \<Longrightarrow> pt_get t' q = pt_get t q"
    and gens: "ok x \<Longrightarrow> op x t = (Inr u, t') \<Longrightarrow> physical_generations t' = physical_generations t"
begin

lemma gens_always: "ok x \<Longrightarrow> op x t = (r, t') \<Longrightarrow> physical_generations t' = physical_generations t"
  by (cases r) (auto dest: error_unchanged gens)

lemma frame_always: "ok x \<Longrightarrow> op x t = (r, t') \<Longrightarrow> q \<notin> scope x \<Longrightarrow> pt_get t' q = pt_get t q"
  by (cases r) (auto dest: error_unchanged frame)

lemma generation_always: "ok x \<Longrightarrow> op x t = (r, t') \<Longrightarrow> physical_generation t' p = physical_generation t p"
  by (simp add: physical_generation_def gens_always)

end

text \<open>The scan-then-store operations other than \<open>map_ram\<close> have one shape.\<close>

definition checked_update ::
  "(PageTable \<Rightarrow> GuestPage option) \<Rightarrow> (GuestPage \<Rightarrow> MemoryError) \<Rightarrow>
   (GuestPage \<Rightarrow> PageDescriptor \<Rightarrow> PageDescriptor) \<Rightarrow> GuestRange \<Rightarrow> (PageTable, MemoryError, unit) st" where
  "checked_update scan err f r =
     bind_s (gets_r (\<lambda>_. map_err Address (require_page_alignment r))) (\<lambda>_.
     bind_s (gets scan) (\<lambda>m.
       case m of
         Some p \<Rightarrow> throw (err p)
       | None \<Rightarrow> modify (\<lambda>t. fold (\<lambda>p t. pt_set t p (f p (pt_get t p))) (pages r) t)))"

lemma table_ops_checked_update:
  "map_mmio r h perms =
     checked_update (\<lambda>t. first_mapped t r) (\<lambda>p. AlreadyMapped (page_start p)) (\<lambda>_ _. desc_mmio h perms 0) r"
  "reserve r =
     checked_update (\<lambda>t. first_mapped t r) (\<lambda>p. AlreadyMapped (page_start p)) (\<lambda>_ _. desc_reserved 0) r"
  "protect r perms =
     checked_update (\<lambda>t. find (\<lambda>p. \<not> is_valid (pt_get t p)) (pages r)) (\<lambda>p. Unmapped (page_start p) Read)
       (\<lambda>_ d. with_permissions d perms) r"
  "unmap r = checked_update (\<lambda>_. None) (\<lambda>_. HostSizeOverflow) (\<lambda>_ _. 0) r"
  by (auto simp: map_mmio_def reserve_def protect_def unmap_def checked_update_def fun_eq_iff
      split: sum.splits option.splits)

lemma checked_update_error: "checked_update scan err f r t = (Inl e, t') \<Longrightarrow> t' = t"
  by (auto simp: checked_update_def split: sum.splits option.splits)

lemma checked_update_get:
  assumes "range_ok r" and "checked_update scan err f r t = (Inr u, t')"
  shows "pt_get t' q = (if q \<in> set (pages r) then f q (pt_get t q) else pt_get t q)"
    and "physical_generations t' = physical_generations t"
  using assms pages_in_table [OF assms(1)]
  by (auto simp: checked_update_def fold_pt_set_get distinct_pages split: sum.splits option.splits)

lemma checked_update_frame:
  assumes "checked_update scan err f r t = (Inr u, t')" and "range_ok r" and "q \<notin> set (pages r)"
  shows "pt_get t' q = pt_get t q"
  using checked_update_get(1) [OF assms(2,1)] assms(3) by simp

lemmas checked_update_contract =
  checked_update_error checked_update_frame checked_update_get(2) [rotated]

lemma map_ram_error: 
  assumes "map_ram r s p t = (Inl e, t')" and "range_ok r"
  shows "t' = t"
  using map_ram_run [OF assms(2), of s t p] map_ram_fails [OF assms(2), of s t p] assms(1)
  by (cases "map_ram_ready r s t") auto

lemma map_ram_ok:
  assumes "map_ram r s p t = (Inr u, t')" and "range_ok r"
  shows "map_ram_ready r s t" "physical_generations t' = physical_generations t"
    "\<And>i. i < page_count r \<Longrightarrow> pt_get t' (pages r ! i) =
       desc_ram (s + word_of_nat i) p (physical_generations t (unat s + i))"
    "\<And>q. q \<notin> set (pages r) \<Longrightarrow> pt_get t' q = pt_get t q"
proof -
  show ready: "map_ram_ready r s t"
    using map_ram_fails [OF assms(2), of s t p] assms(1) by fastforce
  show "physical_generations t' = physical_generations t"
    "\<And>i. i < page_count r \<Longrightarrow> pt_get t' (pages r ! i) =
       desc_ram (s + word_of_nat i) p (physical_generations t (unat s + i))"
    "\<And>q. q \<notin> set (pages r) \<Longrightarrow> pt_get t' q = pt_get t q"
    using map_ram_run [OF assms(2) ready, of p] assms(1) by auto
qed

interpretation ram_op: mapping_op "\<lambda>(r, s, p). map_ram r s p" "\<lambda>(r, s, p). range_ok r"
  "\<lambda>(r, s, p). set (pages r)"
  by unfold_locales (auto dest: map_ram_error map_ram_ok(2,4))

interpretation mmio_op: mapping_op "\<lambda>(r, h, p). map_mmio r h p" "\<lambda>(r, h, p). range_ok r"
  "\<lambda>(r, h, p). set (pages r)"
  by unfold_locales
    (auto simp: table_ops_checked_update dest: checked_update_contract)

interpretation reserve_op: mapping_op reserve range_ok "\<lambda>r. set (pages r)"
  by unfold_locales
    (auto simp: table_ops_checked_update dest: checked_update_contract)

interpretation protect_op: mapping_op "\<lambda>(r, p). protect r p" "\<lambda>(r, p). range_ok r"
  "\<lambda>(r, p). set (pages r)"
  by unfold_locales
    (auto simp: table_ops_checked_update dest: checked_update_contract)

interpretation unmap_op: mapping_op unmap range_ok "\<lambda>r. set (pages r)"
  by unfold_locales
    (auto simp: table_ops_checked_update dest: checked_update_contract)

interpretation watch_op: mapping_op "\<lambda>(p, w). set_watch p w" "\<lambda>_. True" "\<lambda>(p, w). {p}"
  by unfold_locales
    (auto simp: set_watch_def pt_get_set pt_get_valid_bound split: if_splits)

section \<open>Properties\<close>

text \<open>C1. Every field stored in a page descriptor reads back as stored: a packed descriptor is valid and gives
  back its kind, permissions (their three defined bits), physical page (its low twenty bits), handler,
  generation and watch flags.  And for every descriptor, packed or not, each updating function sets its own
  field and leaves the other six as they were, so the fields read back after any combination of updates.\<close>

theorem descriptor_round_trip:
  "(let d = pack k p pp a g w in
      is_valid d \<and> kind d = k \<and> permissions d = p AND 7 \<and> physical_page d = pp AND 0xFFFFF \<and>
      handler_id d = a \<and> generation d = g \<and> watch d = w) \<and>
   (let d' = with_permissions d p in
      permissions d' = p AND 7 \<and> is_valid d' = is_valid d \<and> kind d' = kind d \<and>
      physical_page d' = physical_page d \<and> handler_id d' = handler_id d \<and> generation d' = generation d \<and>
      watch d' = watch d) \<and>
   (let d' = with_generation d g in
      generation d' = g \<and> is_valid d' = is_valid d \<and> kind d' = kind d \<and> permissions d' = permissions d \<and>
      physical_page d' = physical_page d \<and> handler_id d' = handler_id d \<and> watch d' = watch d) \<and>
   (let d' = with_watch d w in
      watch d' = w \<and> is_valid d' = is_valid d \<and> kind d' = kind d \<and> permissions d' = permissions d \<and>
      physical_page d' = physical_page d \<and> handler_id d' = handler_id d \<and> generation d' = generation d)"
proof -
  have "p AND 7 = take_bit 3 p" "pp AND 0xFFFFF = take_bit 20 pp"
    by (simp_all add: take_bit_eq_mask mask_eq_exp_minus_1)
  then show ?thesis
    by (simp add: Let_def with_watch_fields with_generation_fields with_permissions_fields pack_fields)
qed

text \<open>C2. Mapping a range to RAM succeeds exactly when the range is page aligned, the physical run fits
  the table and no page of the range is mapped. On success the \<open>i\<close>-th page of the range is a valid
  RAM page backed by the \<open>i\<close>-th physical page, with the requested permissions and a snapshot of the
  physical page's current generation, and every other page keeps its descriptor. On failure nothing
  changes.\<close>

theorem map_ram_correct:
  assumes "range_ok r" and "map_ram r start perms t = (res, t')"
  shows "(res = Inr () \<longleftrightarrow> map_ram_ready r start t) \<and>
         (\<forall>e. res = Inl e \<longrightarrow> t' = t) \<and>
         (res = Inr () \<longrightarrow>
            (\<forall>i < page_count r. let d = pt_get t' (pages r ! i) in
               is_valid d \<and> kind d = KindRam \<and> permissions d = take_bit 3 perms \<and>
               physical_page d = start + word_of_nat i \<and>
               Some (generation d) = physical_generation t (start + word_of_nat i)) \<and>
            (\<forall>q. q \<notin> set (pages r) \<longrightarrow> pt_get t' q = pt_get t q))"
proof (cases res)
  case (Inl e)
  then show ?thesis
    using map_ram_error [OF _ assms(1)] map_ram_run [OF assms(1), of start t perms] assms(2)
    by auto
next
  case (Inr u)
  note run = map_ram_ok [OF assms(2) [unfolded Inr] assms(1)]
  have "unat (start + word_of_nat i) = unat start + i \<and> unat start + i < GUEST_PAGE_COUNT"
    if "i < page_count r" for i
    using that run(1) by (simp add: map_ram_ready_def unat_word_ariths unat_of_nat)
  with Inr run show ?thesis
    by (simp add: Let_def desc_ram_fields take_bit_20_page physical_generation_def page_index_def)
qed

theorem map_ram_correct_witness:
  "let r = \<lparr>gr_start = 0x2000, gr_len = 0x2000\<rparr>; (res, t') = map_ram r 7 READ pt_new in
     res = Inr () \<and> (\<forall>i < page_count r. physical_page (pt_get t' (pages r ! i)) = 7 + word_of_nat i)"
proof -
  let ?r = "\<lparr>gr_start = 0x2000, gr_len = 0x2000\<rparr>"
  obtain res t' where run: "map_ram ?r 7 READ pt_new = (res, t')"
    by fastforce
  have ok: "range_ok ?r"
    by (simp add: range_ok_def end_exclusive_def)
  have "map_ram_ready ?r 7 pt_new"
    by (simp add: map_ram_ready_def require_page_alignment_iff page_count_def end_exclusive_def
        nat_drop_bit is_valid_iff)
  with map_ram_correct [OF ok run] run show ?thesis
    by (simp add: Let_def)
qed

text \<open>C3. Every mapping operation of the page table is all-or-nothing: when it reports an error, the
  table is exactly what it was before the call.\<close>

theorem table_ops_all_or_nothing:
  assumes "range_ok r"
  shows "(map_ram r start perms t = (Inl e, t') \<longrightarrow> t' = t) \<and>
         (map_mmio r h perms t = (Inl e, t') \<longrightarrow> t' = t) \<and>
         (reserve r t = (Inl e, t') \<longrightarrow> t' = t) \<and>
         (protect r perms t = (Inl e, t') \<longrightarrow> t' = t) \<and>
         (unmap r t = (Inl e, t') \<longrightarrow> t' = t) \<and>
         (set_watch p w t = (Inl e, t') \<longrightarrow> t' = t)"
  using assms ram_op.error_unchanged [of "(r, start, perms)"] mmio_op.error_unchanged [of "(r, h, perms)"]
    reserve_op.error_unchanged [of r] protect_op.error_unchanged [of "(r, perms)"]
    unmap_op.error_unchanged [of r] watch_op.error_unchanged [of "(p, w)"]
  by auto

theorem table_ops_all_or_nothing_witness:
  "let r = \<lparr>gr_start = 0x1000, gr_len = 0x1001\<rparr> in protect r READ pt_new = (Inl (Address (UnalignedRange 0x1000 0x1001)), pt_new)"
proof -
  let ?r = "\<lparr>gr_start = 0x1000, gr_len = 0x1001\<rparr>"
  have ok: "range_ok ?r"
    by (simp add: range_ok_def end_exclusive_def)
  obtain t' where "protect ?r READ pt_new = (Inl (Address (UnalignedRange 0x1000 0x1001)), t')"
    by (simp add: protect_def require_page_alignment_def nat_and_4095)
  with table_ops_all_or_nothing [OF ok] show ?thesis
    by (auto simp: Let_def)
qed

end
