(* ===== verification/Phys_Allocator.thy ===== *)
theory Phys_Allocator
  imports Ordered_Map Page_Table
begin

text \<open>
  The physical page allocator of \<^verbatim>\<open>exbawks-memory/src/allocator.rs\<close>: a bump cursor with a pool of
  freed runs in front of it.  The state is abstracted to the set of available pages; the pool is a
  set of maximal, pairwise separated runs below the cursor.
\<close>

section \<open>The allocator\<close>

record PhysicalAllocator =
  next_page :: u32
  pa_page_count :: u32
  free_runs :: "(u32, u32) btree_map"

definition pa_new :: "u32 \<Rightarrow> PhysicalAllocator" where
  "pa_new n = \<lparr>next_page = 0, pa_page_count = n, free_runs = []\<rparr>"

definition allocate :: "u32 \<Rightarrow> (PhysicalAllocator, MemoryError, GuestPage) st" where
  "allocate requested A =
     (case find (\<lambda>entry. snd entry \<ge> requested) (free_runs A) of
        Some (start, len) \<Rightarrow>
          let runs = bt_remove start (free_runs A) in
          (Inr start,
           A\<lparr>free_runs := if len > requested then bt_insert (start + requested) (len - requested) runs
                          else runs\<rparr>)
      | None \<Rightarrow>
          (case checked_add (next_page A) requested of
             None \<Rightarrow> (Inl (OutOfPhysicalMemory requested), A)
           | Some end \<Rightarrow>
               if end > pa_page_count A then (Inl (OutOfPhysicalMemory requested), A)
               else (Inr (next_page A), A\<lparr>next_page := end\<rparr>)))"

text \<open>The two tails of \<open>free\<close>: swallow a run that begins at \<open>end\<close>, giving the new end and runs.\<close>

definition swallow_following :: "u32 \<Rightarrow> (u32, u32) btree_map \<Rightarrow> u32 \<times> (u32, u32) btree_map" where
  "swallow_following end runs =
     (case bt_get end runs of
        Some following \<Rightarrow> (saturating_add end following, bt_remove end runs)
      | None \<Rightarrow> (end, runs))"

definition insert_gap :: "u32 \<Rightarrow> u32 \<Rightarrow> (u32, u32) btree_map \<Rightarrow> (u32, u32) btree_map" where
  "insert_gap begin end runs =
     (let (end', runs') = swallow_following end runs in
      if end' > begin then bt_insert begin (end' - begin) runs' else runs')"

definition free_into :: "u32 \<Rightarrow> u32 \<Rightarrow> (u32, u32) btree_map \<Rightarrow> (u32, u32) btree_map" where
  "free_into begin end runs =
     (case bt_floor begin runs of
        Some (previous, len) \<Rightarrow>
          let previous_end = saturating_add previous len in
          if previous_end \<ge> end then runs
          else
            let begin' = (if previous_end > begin then previous_end else begin) in
            if previous_end = begin' \<and> bt_get previous runs \<noteq> None
            then (let (end', runs') = swallow_following end runs in
                  bt_insert previous (end' - previous) runs')
            else insert_gap begin' end runs
      | None \<Rightarrow> insert_gap begin end runs)"

definition pa_free :: "GuestPage \<Rightarrow> u32 \<Rightarrow> PhysicalAllocator \<Rightarrow> PhysicalAllocator" where
  "pa_free start count A =
     (if count = 0 \<or> start \<ge> next_page A then A
      else A\<lparr>free_runs :=
               free_into start (min (saturating_add start count) (next_page A)) (free_runs A)\<rparr>)"

definition rollback_last :: "GuestPage \<Rightarrow> u32 \<Rightarrow> PhysicalAllocator \<Rightarrow> PhysicalAllocator" where
  "rollback_last start count A =
     (if next_page A = saturating_add start count then A\<lparr>next_page := start\<rparr>
      else pa_free start count A)"

section \<open>Runs of pages\<close>

definition run :: "u32 \<Rightarrow> u32 \<Rightarrow> nat set" where
  "run s l = {unat s ..< unat s + unat l}"

definition pool :: "(u32 \<times> u32) set \<Rightarrow> nat set" where
  "pool R = (\<Union>(s, l) \<in> R. run s l)"

definition runs_ok :: "nat \<Rightarrow> (u32 \<times> u32) set \<Rightarrow> bool" where
  "runs_ok bound R \<longleftrightarrow>
     (\<forall>(s, l) \<in> R. 0 < unat l \<and> unat s + unat l \<le> bound) \<and>
     (\<forall>(s, l) \<in> R. \<forall>(s', l') \<in> R. unat s < unat s' \<longrightarrow> unat s + unat l < unat s')"

definition alloc_inv :: "PhysicalAllocator \<Rightarrow> bool" where
  "alloc_inv A \<longleftrightarrow> bt_sorted (free_runs A) \<and> runs_ok (unat (next_page A)) (set (free_runs A)) \<and>
     next_page A \<le> pa_page_count A"

definition available :: "PhysicalAllocator \<Rightarrow> nat set" where
  "available A = pool (set (free_runs A)) \<union> {unat (next_page A) ..< unat (pa_page_count A)}"

lemma runs_okD:
  assumes "runs_ok b R" "(s, l) \<in> R"
  shows "0 < unat l" "unat s + unat l \<le> b"
    "(s', l') \<in> R \<Longrightarrow> unat s < unat s' \<Longrightarrow> unat s + unat l < unat s'"
  using assms by (auto simp: runs_ok_def)

lemma runs_okI:
  assumes "\<And>s l. (s, l) \<in> R \<Longrightarrow> 0 < unat l \<and> unat s + unat l \<le> b"
    and "\<And>s l s' l'. \<lbrakk>(s, l) \<in> R; (s', l') \<in> R; unat s < unat s'\<rbrakk> \<Longrightarrow> unat s + unat l < unat s'"
  shows "runs_ok b R"
  using assms unfolding runs_ok_def by blast

lemma pool_Un [simp]: "pool (R \<union> S) = pool R \<union> pool S"
  by (auto simp: pool_def)

lemma pool_insert [simp]: "pool (insert (s, l) R) = run s l \<union> pool R"
  by (auto simp: pool_def)

lemma pool_empty [simp]: "pool {} = {}"
  by (simp add: pool_def)

lemma run_zero [simp]: "run s 0 = {}"
  by (simp add: run_def)

lemma run_between: "e \<ge> b \<Longrightarrow> run b (e - b) = {unat b ..< unat e}"
  by (simp add: run_def unat_minus_no_borrow word_le_nat_alt)

lemma unat_saturating_add:
  "unat (saturating_add x y) = min (unat x + unat y) (2 ^ LENGTH('a) - 1)" for x y :: "'a::len word"
  by (simp add: saturating_add_def unat_plus_no_overflow
      unsigned_minus_1_eq_mask mask_eq_exp_minus_1)

lemma pool_bound: "runs_ok b R \<Longrightarrow> x \<in> pool R \<Longrightarrow> x < b"
  by (fastforce simp: pool_def run_def runs_ok_def)

text \<open>Replacing a set of runs by one run that keeps clear of all the others.\<close>

lemma runs_ok_replace:
  assumes "runs_ok b R" "R' \<subseteq> R" "unat s < unat e" "unat e \<le> b"
    and clear: "\<And>s' l'. (s', l') \<in> R' \<Longrightarrow> unat s' + unat l' < unat s \<or> unat e < unat s'"
  shows "runs_ok b (insert (s, e - s) R')"
proof -
  have len: "unat (e - s) = unat e - unat s"
    using assms(3) by (simp add: unat_minus_no_borrow word_le_nat_alt)
  show ?thesis
  proof (rule runs_okI)
    fix s1 l1
    assume "(s1, l1) \<in> insert (s, e - s) R'"
    then show "0 < unat l1 \<and> unat s1 + unat l1 \<le> b"
      using assms(3,4) len runs_okD(1,2) [OF assms(1) subsetD [OF assms(2)]] by auto
  next
    fix s1 l1 s2 l2
    assume "(s1, l1) \<in> insert (s, e - s) R'" "(s2, l2) \<in> insert (s, e - s) R'"
      and lt: "unat s1 < unat s2"
    then consider "(s1, l1) = (s, e - s)" "(s2, l2) \<in> R'" | "(s1, l1) \<in> R'" "(s2, l2) = (s, e - s)"
      | "(s1, l1) \<in> R'" "(s2, l2) \<in> R'"
      by auto
    then show "unat s1 + unat l1 < unat s2"
    proof cases
      case 1
      then show ?thesis
        using clear [of s2 l2] lt len assms(3) by auto
    next
      case 2
      then show ?thesis
        using clear [of s1 l1] lt assms(3) by auto
    next
      case 3
      then show ?thesis
        using runs_okD(3) [OF assms(1)] assms(2) lt by blast
    qed
  qed
qed

section \<open>Allocation\<close>

lemma available_new [simp]: "available (pa_new n) = {..< unat n}"
  by (auto simp: available_def pa_new_def)

lemma alloc_inv_new [simp]: "alloc_inv (pa_new n)"
  by (simp add: alloc_inv_def pa_new_def runs_ok_def)

text \<open>Taking the front of a run leaves a pool without those pages.\<close>

lemma take_front:
  assumes "bt_sorted m" "runs_ok b (set m)" "(s, l) \<in> set m" "n \<le> l" "b < 4294967296"
  defines "m' \<equiv> (if l > n then bt_insert (s + n) (l - n) (bt_remove s m) else bt_remove s m)"
  shows "bt_sorted m' \<and> runs_ok b (set m') \<and> pool (set m') = pool (set m) - run s n \<and>
         run s n \<subseteq> pool (set m)"
proof -
  note R = runs_okD [OF assms(2)]
  let ?rest = "{e \<in> set m. fst e \<noteq> s}"
  have others: "set m = insert (s, l) ?rest"
    using assms(1,3) bt_keys_functional by fastforce
  have apart: "unat s' + unat l' < unat s \<or> unat s + unat l < unat s'"
    if "(s', l') \<in> ?rest" for s' l'
    using that R(3) [of s' l' s l] R(3) [of s l s' l'] assms(3)
    by (auto simp: unat_inj_iff [symmetric] linorder_neq_iff)
  have disj: "pool ?rest \<inter> run s l = {}"
    using apart by (fastforce simp: pool_def run_def)
  have fits: "unat s + unat l \<le> b" "0 < unat l"
    using R(1,2) assms(3) by auto
  have nl: "unat n \<le> unat l"
    using assms(4) by (simp add: word_le_nat_alt)
  have sub: "run s n \<subseteq> run s l"
    using nl by (auto simp: run_def)
  show ?thesis
  proof (cases "l > n")
    case True
    have nov: "unat s + unat n < 4294967296" "unat s + unat l < 4294967296"
      using fits(1) nl assms(5) by linarith+
    have front: "unat (s + n) = unat s + unat n" "unat (l - n) = unat l - unat n"
      using nov nl by (simp_all add: unat_plus_no_overflow unat_minus_no_borrow assms(4))
    have key: "(s + n, v) \<in> ?rest \<Longrightarrow> False" for v
      using apart [of "s + n" v] nl front by auto
    have set': "set m' = insert (s + n, l - n) ?rest"
      using True assms(1) key by (auto simp: m'_def set_bt_insert)
    have split: "run s l = run s n \<union> run (s + n) (l - n)" "run s n \<inter> run (s + n) (l - n) = {}"
      using front nl by (auto simp: run_def)
    have "runs_ok b (insert (s + n, (s + l) - (s + n)) ?rest)"
    proof (rule runs_ok_replace [OF assms(2)])
      show "unat (s + n) < unat (s + l)" "unat (s + l) \<le> b"
        using True nov front fits by (simp_all add: unat_plus_no_overflow word_less_nat_alt)
    next
      fix s' l'
      assume "(s', l') \<in> ?rest"
      then show "unat s' + unat l' < unat (s + n) \<or> unat (s + l) < unat s'"
        using apart [of s' l'] front nov nl by (auto simp: unat_plus_no_overflow)
    qed auto
    moreover have "pool (set m) = run s l \<union> pool ?rest"
      by (subst others) simp
    ultimately show ?thesis
      using set' split disj sub assms(1) True by (auto simp: m'_def)
  next
    case False
    with assms(4) have "n = l" by simp
    have "runs_ok b ?rest"
      using assms(2) by (auto simp: runs_ok_def)
    moreover have "pool (set m) = run s l \<union> pool ?rest"
      by (subst others) simp
    ultimately show ?thesis
      using False \<open>n = l\<close> disj assms(1) by (auto simp: m'_def)
  qed
qed

lemma allocate_ok:
  assumes "alloc_inv A" "allocate n A = (Inr p, A')"
  shows "alloc_inv A' \<and> available A' = available A - run p n \<and> run p n \<subseteq> available A \<and>
         pa_page_count A' = pa_page_count A"
proof (cases "find (\<lambda>entry. snd entry \<ge> n) (free_runs A)")
  case None
  have inv: "bt_sorted (free_runs A)" "runs_ok (unat (next_page A)) (set (free_runs A))"
    using assms(1) by (auto simp: alloc_inv_def)
  from None assms(2) have *: "unat (next_page A) + unat n < 2 ^ 32" "p = next_page A"
      "A' = A\<lparr>next_page := next_page A + n\<rparr>" "next_page A + n \<le> pa_page_count A"
    by (auto simp: allocate_def checked_add_def split: if_splits)
  then have sum: "unat (next_page A + n) = unat (next_page A) + unat n"
    by (simp add: unat_plus_no_overflow)
  have "runs_ok (unat (next_page A + n)) (set (free_runs A))"
    using inv(2) sum by (auto simp: runs_ok_def intro: trans_le_add1)
  moreover have "pool (set (free_runs A)) \<inter> run p n = {}"
    using pool_bound [OF inv(2)] *(2) by (fastforce simp: run_def)
  moreover have "unat (next_page A) + unat n \<le> unat (pa_page_count A)"
    using *(4) sum by (simp add: word_le_nat_alt)
  ultimately show ?thesis
    using inv * sum by (auto simp: alloc_inv_def available_def run_def)
next
  case (Some e)
  then obtain s l where e: "e = (s, l)" "(s, l) \<in> set (free_runs A)" "n \<le> l"
    using find_first_SomeD [of _ "free_runs A"] by (cases e) fastforce
  have inv: "bt_sorted (free_runs A)" "runs_ok (unat (next_page A)) (set (free_runs A))"
    using assms(1) by (auto simp: alloc_inv_def)
  note tf = take_front [OF inv e(2,3) unat_lt_2p32]
  have A': "p = s" "A' = A\<lparr>free_runs := if l > n then bt_insert (s + n) (l - n) (bt_remove s (free_runs A))
                    else bt_remove s (free_runs A)\<rparr>"
    using Some e(1) assms(2) by (auto simp: allocate_def Let_def)
  have "run s n \<inter> {unat (next_page A) ..< unat (pa_page_count A)} = {}"
    using tf pool_bound [OF inv(2)] by fastforce
  with tf A' assms(1) show ?thesis
    by (auto simp: alloc_inv_def available_def)
qed

lemma allocate_fails:
  "allocate n A = (Inl e, A') \<longleftrightarrow>
     A' = A \<and> e = OutOfPhysicalMemory n \<and> (\<forall>(s, l) \<in> set (free_runs A). l < n) \<and>
     unat (pa_page_count A) < unat (next_page A) + unat n"
proof (cases "find (\<lambda>entry. snd entry \<ge> n) (free_runs A)")
  case None
  then have small: "\<forall>(s, l) \<in> set (free_runs A). l < n"
    by (auto simp: find_None_iff not_le)
  have lim: "unat (pa_page_count A) < unat (next_page A) + unat n"
    if "checked_add (next_page A) n = None"
  proof -
    have "\<not> unat (next_page A) + unat n < 4294967296"
      using that by (simp add: checked_add_def split: if_splits)
    then show ?thesis
      using unat_lt_2p32 [of "pa_page_count A"] by linarith
  qed
  show ?thesis
  proof (cases "checked_add (next_page A) n")
    case (Some limit)
    then have "(pa_page_count A < limit) = (unat (pa_page_count A) < unat (next_page A) + unat n)"
      by (simp add: checked_add_Some_iff word_less_nat_alt unat_plus_no_overflow)
    with None Some small show ?thesis
      by (auto simp: allocate_def)
  qed (use None small lim in \<open>auto simp: allocate_def\<close>)
next
  case (Some e')
  then have "e' \<in> set (free_runs A) \<and> snd e' \<ge> n"
    by (auto dest: find_first_SomeD)
  with Some show ?thesis
    by (cases e') (fastforce simp: allocate_def Let_def)
qed

section \<open>Freeing\<close>

lemma swallow_following_spec:
  assumes "bt_sorted m" "runs_ok b (set m)" "b < 4294967296" "unat e \<le> b"
    and "swallow_following e m = (e', m')"
  shows "bt_sorted m' \<and> set m' = {x \<in> set m. fst x \<noteq> e} \<and> unat e \<le> unat e' \<and> unat e' \<le> b \<and>
         pool (set m) = pool (set m') \<union> {unat e ..< unat e'} \<and>
         (\<forall>(s, l) \<in> set m'. unat e < unat s \<longrightarrow> unat e' < unat s)"
proof (cases "bt_get e m")
  case None
  then have "e' = e" "m' = m" "\<forall>v. (e, v) \<notin> set m"
    using assms(5) by (simp_all add: swallow_following_def bt_get_None_iff [symmetric])
  then show ?thesis
    using assms(1,4) by auto
next
  case (Some f)
  then have f: "(e, f) \<in> set m"
    using assms(1) by (simp add: bt_get_Some_iff)
  note R = runs_okD [OF assms(2) f]
  have "e' = saturating_add e f" and m': "m' = bt_remove e m"
    using Some assms(5) by (simp_all add: swallow_following_def)
  then have e': "unat e' = unat e + unat f"
    using R(2) assms(3) by (simp add: unat_saturating_add)
  have others: "set m = insert (e, f) {x \<in> set m. fst x \<noteq> e}"
    using assms(1) f bt_keys_functional by fastforce
  have "pool (set m) = run e f \<union> pool {x \<in> set m. fst x \<noteq> e}"
    by (subst others) simp
  moreover have "\<forall>(s, l) \<in> set m'. unat e < unat s \<longrightarrow> unat e' < unat s"
    using R(3) unfolding e' m' set_bt_remove by blast
  moreover have "unat e \<le> unat e'" "unat e' \<le> b" "bt_sorted m'" "set m' = {x \<in> set m. fst x \<noteq> e}"
    using e' m' R(2) assms(1) by simp_all
  moreover have "run e f = {unat e ..< unat e'}"
    using e' by (simp add: run_def)
  ultimately show ?thesis
    by (simp only: Un_commute simp_thms)
qed

text \<open>A run that is freed may overlap the run in front of it, but no run may start inside it.\<close>

definition clear_inside :: "nat \<Rightarrow> nat \<Rightarrow> (u32 \<times> u32) set \<Rightarrow> bool" where
  "clear_inside b e R \<longleftrightarrow> (\<forall>(s, l) \<in> R. \<not> (b < unat s \<and> unat s < e))"

lemma insert_run:
  assumes "bt_sorted m" "runs_ok bound (set m)" "bound < 4294967296" "unat e \<le> bound" "p < e"
    and "swallow_following e m = (e', m')"
    and before: "\<And>s l. (s, l) \<in> set m \<Longrightarrow> s \<noteq> p \<Longrightarrow> unat s < unat e \<Longrightarrow> unat s + unat l < unat p"
    and inside: "\<And>l. (p, l) \<in> set m \<Longrightarrow> unat p + unat l < unat e"
  shows "bt_sorted (bt_insert p (e' - p) m') \<and> runs_ok bound (set (bt_insert p (e' - p) m')) \<and>
         pool (set (bt_insert p (e' - p) m')) = pool (set m) \<union> {unat p ..< unat e}"
proof -
  note sw = swallow_following_spec [OF assms(1-4,6)]
  let ?rest = "{x \<in> set m'. fst x \<noteq> p}"
  have pe: "unat p < unat e" "unat p < unat e'"
    using assms(5) sw by (auto simp: word_less_nat_alt)
  then have len: "run p (e' - p) = {unat p ..< unat e'}"
    by (intro run_between) (simp add: word_le_nat_alt)
  have set': "set (bt_insert p (e' - p) m') = insert (p, e' - p) ?rest"
    using sw by (simp add: set_bt_insert)
  have "runs_ok bound (insert (p, e' - p) ?rest)"
  proof (rule runs_ok_replace [OF assms(2)])
    fix s l
    assume *: "(s, l) \<in> ?rest"
    then have "unat s \<noteq> unat e"
      using sw by (auto simp: unat_inj_iff)
    then consider "unat s < unat e" | "unat e < unat s"
      by linarith
    then show "unat s + unat l < unat p \<or> unat e' < unat s"
    proof cases
      case 1
      then show ?thesis
        using * sw before [of s l] by auto
    next
      case 2
      then show ?thesis
        using * sw by fastforce
    qed
  qed (use sw pe in auto)
  moreover have "pool (set m') \<union> {unat p ..< unat e'} = pool ?rest \<union> {unat p ..< unat e'}"
  proof -
    have "run p l \<subseteq> {unat p ..< unat e'}" if "(p, l) \<in> set m'" for l
      using that inside [of l] sw by (auto simp: run_def)
    then show ?thesis
      by (fastforce simp: pool_def)
  qed
  moreover have "{unat p ..< unat e'} = {unat p ..< unat e} \<union> {unat e ..< unat e'}"
    using pe sw by auto
  ultimately show ?thesis
    using sw len set' by auto
qed

lemma insert_gap_spec:
  assumes "bt_sorted m" "runs_ok bound (set m)" "bound < 4294967296" "unat e \<le> bound" "b < e"
    and "\<And>s l. (s, l) \<in> set m \<Longrightarrow> unat s < unat e \<Longrightarrow> unat s + unat l < unat b"
  shows "bt_sorted (insert_gap b e m) \<and> runs_ok bound (set (insert_gap b e m)) \<and>
         pool (set (insert_gap b e m)) = pool (set m) \<union> {unat b ..< unat e}"
proof -
  obtain e' m' where sw: "swallow_following e m = (e', m')"
    by fastforce
  have "unat e \<le> unat e'"
    using swallow_following_spec [OF assms(1-4) sw] by simp
  then have "insert_gap b e m = bt_insert b (e' - b) m'"
    using assms(5) by (simp add: insert_gap_def sw word_less_nat_alt)
  moreover have "unat b + unat l < unat e" if "(b, l) \<in> set m" for l
    using assms(5,6) that by (fastforce simp: word_less_nat_alt)
  ultimately show ?thesis
    using insert_run [OF assms(1-5) sw] assms(6) by auto
qed

lemma free_into_spec:
  assumes "bt_sorted m" "runs_ok bound (set m)" "bound < 4294967296" "unat e \<le> bound" "b < e"
    and "clear_inside (unat b) (unat e) (set m)"
  shows "bt_sorted (free_into b e m) \<and> runs_ok bound (set (free_into b e m)) \<and>
         pool (set (free_into b e m)) = pool (set m) \<union> {unat b ..< unat e}"
proof (cases "bt_floor b m")
  case None
  have above: "unat e \<le> unat s" if "(s, l) \<in> set m" for s l
    using bt_floor_NoneD [OF None that] assms(6) that
    by (fastforce simp: clear_inside_def word_less_nat_alt)
  then have "insert_gap b e m = free_into b e m"
    using None by (simp add: free_into_def)
  with insert_gap_spec [OF assms(1-5)] above show ?thesis
    by (metis leD)
next
  case (Some pl)
  obtain p l where pl: "pl = (p, l)"
    by fastforce
  note fl = bt_floor_SomeD [OF assms(1) Some [unfolded pl]]
  note R = runs_okD [OF assms(2)]
  let ?pe = "saturating_add p l"
  have p_end: "unat ?pe = unat p + unat l"
    using R(2) [of p l] fl assms(3) by (simp add: unat_saturating_add)
  have before: "unat s + unat k < unat p" if "(s, k) \<in> set m" "s \<noteq> p" "unat s < unat e" for s k
  proof -
    have "s \<le> b"
      using assms(6) that by (fastforce simp: clear_inside_def word_le_nat_alt)
    then have "unat s < unat p"
      using fl that by (fastforce simp: word_le_nat_alt unat_inj_iff [symmetric])
    then show ?thesis
      using R(3) that(1) fl by blast
  qed
  show ?thesis
  proof (cases "?pe \<ge> e")
    case True
    then have "free_into b e m = m"
      by (simp add: free_into_def Some pl)
    moreover have "{unat b ..< unat e} \<subseteq> run p l"
      using True fl p_end by (auto simp: run_def word_le_nat_alt)
    moreover have "run p l \<subseteq> pool (set m)"
      using fl by (force simp: pool_def)
    ultimately show ?thesis
      using assms(1,2) by auto
  next
    case False
    show ?thesis
    proof (cases "?pe \<ge> b")
      case True
      obtain e' m' where sw: "swallow_following e m = (e', m')"
        by fastforce
      have "bt_get p m \<noteq> None"
        using fl by (auto simp: bt_get_None_iff)
      then have "free_into b e m = bt_insert p (e' - p) m'"
        using False True sw by (auto simp: free_into_def Some pl Let_def)
      moreover have "{unat p ..< unat e} = run p l \<union> {unat b ..< unat e}"
        using True False fl p_end by (auto simp: run_def word_le_nat_alt)
      moreover have "run p l \<subseteq> pool (set m)"
        using fl by (force simp: pool_def)
      moreover have "unat p + unat k < unat e" if "(p, k) \<in> set m" for k
        using bt_keys_functional [OF assms(1) that] fl False p_end by (auto simp: word_le_nat_alt)
      moreover have "p < e"
        using fl assms(5) by auto
      ultimately show ?thesis
        using insert_run [OF assms(1-4) _ sw before] by auto
    next
      case gap: False
      then have "free_into b e m = insert_gap b e m"
        using False by (auto simp: free_into_def Some pl Let_def)
      moreover have "unat s + unat k < unat b" if "(s, k) \<in> set m" "unat s < unat e" for s k
      proof (cases "s = p")
        case True
        then show ?thesis
          using bt_keys_functional [OF assms(1), of p k l] that fl gap p_end
          by (auto simp: word_le_nat_alt)
      next
        case False
        then show ?thesis
          using before [OF that(1) False that(2)] fl by (auto simp: word_le_nat_alt)
      qed
      ultimately show ?thesis
        using insert_gap_spec [OF assms(1-5)] by auto
    qed
  qed
qed

definition freed_end :: "GuestPage \<Rightarrow> u32 \<Rightarrow> PhysicalAllocator \<Rightarrow> nat" where
  "freed_end start count A = min (unat start + unat count) (unat (next_page A))"

lemma pa_free_spec:
  assumes "alloc_inv A" "clear_inside (unat start) (freed_end start count A) (set (free_runs A))"
  shows "alloc_inv (pa_free start count A) \<and>
         available (pa_free start count A) = available A \<union> {unat start ..< freed_end start count A} \<and>
         pa_page_count (pa_free start count A) = pa_page_count A"
proof (cases "count = 0 \<or> start \<ge> next_page A")
  case True
  then have "{unat start ..< freed_end start count A} = {}"
    by (auto simp: freed_end_def word_le_nat_alt)
  with True assms(1) show ?thesis
    by (auto simp: pa_free_def)
next
  case False
  let ?e = "min (saturating_add start count) (next_page A)"
  have "unat (next_page A) \<le> 4294967295"
    using unat_lt_2p32 [of "next_page A"] by linarith
  then have e: "unat ?e = freed_end start count A"
    by (auto simp: freed_end_def min_def word_le_nat_alt unat_saturating_add)
  moreover have "0 < unat count"
    using False by (simp add: unat_gt_0)
  ultimately have "start < ?e" "unat ?e \<le> unat (next_page A)"
    using False by (auto simp: word_less_nat_alt word_le_nat_alt freed_end_def)
  with free_into_spec [OF _ _ unat_lt_2p32, of "free_runs A" "next_page A" ?e start] e assms False
  show ?thesis
    by (auto simp: alloc_inv_def available_def pa_free_def)
qed

lemma clear_inside_disjoint:
  assumes "runs_ok bound R" "pool R \<inter> {b ..< e} = {}"
  shows "clear_inside b e R"
proof -
  have "unat s \<notin> {b ..< e}" if "(s, l) \<in> R" for s l
  proof -
    have "unat s \<in> run s l"
      using runs_okD(1) [OF assms(1) that] by (simp add: run_def)
    with that assms(2) show ?thesis
      by (auto simp: pool_def)
  qed
  then show ?thesis
    by (fastforce simp: clear_inside_def)
qed

lemma pa_free_owned:
  assumes "alloc_inv A" "run p n \<inter> available A = {}" "run p n \<subseteq> {..< unat (pa_page_count A)}"
  shows "alloc_inv (pa_free p n A) \<and> available (pa_free p n A) = available A \<union> run p n \<and>
         pa_page_count (pa_free p n A) = pa_page_count A"
proof -
  have below: "run p n \<subseteq> {..< unat (next_page A)}"
    using assms(2,3) by (fastforce simp: available_def)
  then have range: "{unat p ..< freed_end p n A} = run p n"
    by (auto simp: run_def freed_end_def)
  have "clear_inside (unat p) (freed_end p n A) (set (free_runs A))"
    using assms(1,2) range by (intro clear_inside_disjoint) (auto simp: alloc_inv_def available_def)
  with pa_free_spec [OF assms(1)] range show ?thesis
    by simp
qed

lemma rollback_owned:
  assumes "alloc_inv A" "run p n \<inter> available A = {}" "run p n \<subseteq> {..< unat (pa_page_count A)}"
  shows "alloc_inv (rollback_last p n A) \<and> available (rollback_last p n A) = available A \<union> run p n \<and>
         pa_page_count (rollback_last p n A) = pa_page_count A"
proof (cases "next_page A = saturating_add p n")
  case True
  have "unat p + unat n \<le> 4294967295"
  proof (cases "unat n = 0")
    case False
    then have "unat p + unat n - 1 \<in> run p n"
      by (simp add: run_def)
    then have "unat p + unat n - 1 < unat (pa_page_count A)"
      using assms(3) by auto
    then show ?thesis
      using unat_lt_2p32 [of "pa_page_count A"] by linarith
  qed (use unat_lt_2p32 [of p] in linarith)
  then have cursor: "unat (next_page A) = unat p + unat n"
    using True by (simp add: unat_saturating_add)
  have "unat s + unat l \<le> unat p" if "(s, l) \<in> set (free_runs A)" for s l
  proof (rule ccontr)
    assume "\<not> ?thesis"
    moreover have "0 < unat l" "unat s + unat l \<le> unat (next_page A)"
      using assms(1) that runs_okD by (auto simp: alloc_inv_def)
    ultimately have "unat s + unat l - 1 \<in> run p n" "unat s + unat l - 1 \<in> run s l"
      using cursor by (auto simp: run_def)
    with assms(2) that show False
      by (auto simp: available_def pool_def)
  qed
  then have "runs_ok (unat p) (set (free_runs A))"
    using assms(1) by (auto simp: alloc_inv_def runs_ok_def)
  moreover have "available (rollback_last p n A) = available A \<union> run p n"
    using True cursor assms(1)
    by (auto simp: available_def rollback_last_def run_def alloc_inv_def word_le_nat_alt)
  ultimately show ?thesis
    using True cursor assms(1)
    by (auto simp: rollback_last_def alloc_inv_def word_le_nat_alt)
next
  case False
  with pa_free_owned [OF assms] show ?thesis
    by (simp add: rollback_last_def)
qed

section \<open>The contract of an allocator\<close>

text \<open>What the address space relies on: an allocation hands out available pages and nothing else
  becomes unavailable, a failure changes nothing, returning pages that were handed out makes exactly
  those available again.\<close>

locale page_allocator =
  fixes inv :: "'a \<Rightarrow> bool"
    and avail :: "'a \<Rightarrow> nat set"
    and limit :: "'a \<Rightarrow> nat"
    and alloc :: "u32 \<Rightarrow> ('a, 'e, GuestPage) st"
    and release :: "GuestPage \<Rightarrow> u32 \<Rightarrow> 'a \<Rightarrow> 'a"
  assumes avail_bound: "inv A \<Longrightarrow> avail A \<subseteq> {..< limit A}"
    and alloc_ok: "inv A \<Longrightarrow> alloc n A = (Inr p, A') \<Longrightarrow>
          inv A' \<and> avail A' = avail A - run p n \<and> run p n \<subseteq> avail A \<and> limit A' = limit A"
    and alloc_error: "alloc n A = (Inl e, A') \<Longrightarrow> A' = A"
    and release_ok: "inv A \<Longrightarrow> run p n \<inter> avail A = {} \<Longrightarrow> run p n \<subseteq> {..< limit A} \<Longrightarrow>
          inv (release p n A) \<and> avail (release p n A) = avail A \<union> run p n \<and>
          limit (release p n A) = limit A"
begin

lemma undo:
  assumes "inv A" "alloc n A = (Inr p, A')"
  shows "inv (release p n A') \<and> avail (release p n A') = avail A"
proof -
  note a = alloc_ok [OF assms]
  have "run p n \<subseteq> {..< limit A'}"
    using a avail_bound [OF assms(1)] by auto
  with a release_ok [of A' p n] show ?thesis
    by auto
qed

lemma disjoint_allocations:
  assumes "inv A" "alloc n A = (Inr p, A')" "alloc m A' = (Inr q, A'')"
  shows "run p n \<inter> run q m = {}"
  using alloc_ok [OF assms(1,2)] alloc_ok [of A' m q A''] assms(3) by blast

text \<open>Ownership: the runs handed out and not returned, with the pages still available, partition
  the memory.\<close>

definition partition :: "'a \<Rightarrow> (GuestPage \<times> u32) list \<Rightarrow> bool" where
  "partition A own \<longleftrightarrow> inv A \<and> sorted_wrt (\<lambda>(p, n) (q, m). run p n \<inter> run q m = {}) own \<and>
     pool (set own) \<inter> avail A = {} \<and> pool (set own) \<union> avail A = {..< limit A}"

lemma partition_alloc:
  assumes "partition A own" "alloc n A = (Inr p, A')"
  shows "partition A' ((p, n) # own)"
proof -
  have a: "inv A'" "avail A' = avail A - run p n" "run p n \<subseteq> avail A" "limit A' = limit A"
    using alloc_ok [of A n p A'] assms by (auto simp: partition_def)
  have own: "sorted_wrt (\<lambda>(p, n) (q, m). run p n \<inter> run q m = {}) own"
      "pool (set own) \<inter> avail A = {}" "pool (set own) \<union> avail A = {..< limit A}"
    using assms(1) by (auto simp: partition_def)
  have "run p n \<inter> run q m = {}" if "(q, m) \<in> set own" for q m
    using own(2) a(3) that by (fastforce simp: pool_def)
  with own(1) have "sorted_wrt (\<lambda>(p, n) (q, m). run p n \<inter> run q m = {}) ((p, n) # own)"
    by auto
  moreover have "pool (set ((p, n) # own)) \<inter> avail A' = {}"
    using own(2) a by auto
  moreover have "pool (set ((p, n) # own)) \<union> avail A' = {..< limit A'}"
    using own(3) a by auto
  ultimately show ?thesis
    using a(1) by (simp add: partition_def)
qed

lemma partition_release:
  assumes "partition A (ys @ (p, n) # zs)"
  shows "partition (release p n A) (ys @ zs)"
proof -
  let ?own = "ys @ (p, n) # zs"
  have own: "inv A" "sorted_wrt (\<lambda>(p, n) (q, m). run p n \<inter> run q m = {}) ?own"
      "pool (set ?own) \<inter> avail A = {}" "pool (set ?own) \<union> avail A = {..< limit A}"
    using assms by (auto simp: partition_def)
  have "run p n \<inter> avail A = {}" "run p n \<subseteq> {..< limit A}"
    using own(3,4) by auto
  note r = release_ok [OF own(1) this]
  have "pool (set (ys @ zs)) \<inter> run p n = {}"
    using own(2) by (fastforce simp: sorted_wrt_append pool_def)
  then have "pool (set (ys @ zs)) \<inter> avail (release p n A) = {}"
      "pool (set (ys @ zs)) \<union> avail (release p n A) = {..< limit (release p n A)}"
    using r own(3,4) by auto
  with r own(2) show ?thesis
    by (auto simp: partition_def sorted_wrt_append)
qed

end

interpretation pool_alloc: page_allocator alloc_inv available "\<lambda>A. unat (pa_page_count A)" allocate pa_free
proof
  show "available A \<subseteq> {..< unat (pa_page_count A)}" if "alloc_inv A" for A
    using that pool_bound [of "unat (next_page A)"]
    by (fastforce simp: alloc_inv_def available_def word_le_nat_alt)
qed (use allocate_ok allocate_fails pa_free_owned in auto)

interpretation tail_alloc: page_allocator alloc_inv available "\<lambda>A. unat (pa_page_count A)" allocate
    rollback_last
  by unfold_locales (use pool_alloc.avail_bound allocate_ok allocate_fails rollback_owned in auto)

section \<open>Histories\<close>

text \<open>Every history of allocations, frees and rollbacks in which a caller returns runs it holds.\<close>

inductive alloc_reach :: "u32 \<Rightarrow> PhysicalAllocator \<Rightarrow> (GuestPage \<times> u32) list \<Rightarrow> bool" for c where
  start: "alloc_reach c (pa_new c) []"
| grant: "alloc_reach c A own \<Longrightarrow> allocate n A = (Inr p, A') \<Longrightarrow> alloc_reach c A' ((p, n) # own)"
| refuse: "alloc_reach c A own \<Longrightarrow> allocate n A = (Inl e, A') \<Longrightarrow> alloc_reach c A' own"
| free: "alloc_reach c A (ys @ (p, n) # zs) \<Longrightarrow> alloc_reach c (pa_free p n A) (ys @ zs)"
| rollback: "alloc_reach c A (ys @ (p, n) # zs) \<Longrightarrow> alloc_reach c (rollback_last p n A) (ys @ zs)"

lemma pa_new_limit [simp]: "pa_page_count (pa_new c) = c"
  by (simp add: pa_new_def)

lemma allocate_limit: "allocate n A = (r, A') \<Longrightarrow> pa_page_count A' = pa_page_count A"
  by (auto simp: allocate_def Let_def split: option.splits if_splits)

lemma free_limit [simp]:
  "pa_page_count (pa_free p n A) = pa_page_count A" "pa_page_count (rollback_last p n A) = pa_page_count A"
  by (simp_all add: pa_free_def rollback_last_def)

lemma alloc_reach_partition:
  "alloc_reach c A own \<Longrightarrow> pool_alloc.partition A own \<and> pa_page_count A = c"
proof (induction rule: alloc_reach.induct)
  case start
  show ?case
    unfolding pool_alloc.partition_def by (intro conjI) simp_all
next
  case (grant A own n p A')
  then show ?case
    using pool_alloc.partition_alloc [OF conjunct1 [OF grant.IH]] allocate_limit by metis
next
  case (refuse A own n e A')
  then show ?case
    using allocate_fails [of n A e A'] by blast
next
  case (free A ys p n zs)
  then show ?case
    using pool_alloc.partition_release [of A ys p n zs] free_limit(1) by blast
next
  case (rollback A ys p n zs)
  then show ?case
    using tail_alloc.partition_release [of A ys p n zs] free_limit(2) by blast
qed

section \<open>Properties\<close>

text \<open>C4. No page is ever handed out twice and none is lost: after any history of allocations, frees and
  rollbacks of runs a caller holds, the held runs are pairwise disjoint, disjoint from the available
  pages, and together with them make up all of physical memory.\<close>

theorem allocator_partition:
  assumes "alloc_reach c A own"
  shows "alloc_inv A \<and> sorted_wrt (\<lambda>(p, n) (q, m). run p n \<inter> run q m = {}) own \<and>
         pool (set own) \<inter> available A = {} \<and> pool (set own) \<union> available A = {..< unat c}"
  using alloc_reach_partition [OF assms] by (auto simp: pool_alloc.partition_def)

theorem allocator_partition_witness:
  "\<exists>A. alloc_reach 16 A [(0, 2)] \<and> available A = {2 ..< 16}"
proof -
  have 1: "alloc_reach 16 \<lparr>next_page = 8, pa_page_count = 16, free_runs = []\<rparr> [(0, 8)]"
    using alloc_reach.grant [OF alloc_reach.start, where n = 8]
    by (simp add: allocate_def pa_new_def checked_add_def)
  have 2: "alloc_reach 16 \<lparr>next_page = 8, pa_page_count = 16, free_runs = [(0, 8)]\<rparr> []"
    using alloc_reach.free [where ys = "[]", simplified, OF 1]
    by (simp add: pa_free_def saturating_add_def free_into_def bt_floor_def insert_gap_def
        swallow_following_def bt_get_def)
  have 3: "alloc_reach 16 \<lparr>next_page = 8, pa_page_count = 16, free_runs = [(2, 6)]\<rparr> [(0, 2)]"
    using alloc_reach.grant [OF 2, where n = 2] by (simp add: allocate_def bt_remove_def)
  have "available A = {..< unat (16 :: u32)} - pool (set [(0, 2)])" if "alloc_reach 16 A [(0, 2)]" for A
    using allocator_partition [OF that] by (elim conjE) blast
  from this [OF 3]
  have "available \<lparr>next_page = 8, pa_page_count = 16, free_runs = [(2, 6)]\<rparr> = {2 ..< 16}"
    by (simp only:) (rule set_eqI, simp add: run_def, linarith)
  with 3 show ?thesis
    by blast
qed

text \<open>C5. Allocation is complete and exact: it fails, changing nothing, exactly when no freed run and no
  tail of untouched memory is long enough; otherwise it hands out available pages, and precisely those
  stop being available.\<close>

theorem allocate_correct:
  assumes "alloc_inv A" and "allocate n A = (res, A')"
  shows "(res = Inl (OutOfPhysicalMemory n) \<and> A' = A \<longleftrightarrow>
            (\<forall>(s, l) \<in> set (free_runs A). l < n) \<and>
            unat (pa_page_count A) < unat (next_page A) + unat n) \<and>
         (\<forall>e. res = Inl e \<longrightarrow> e = OutOfPhysicalMemory n \<and> A' = A) \<and>
         (\<forall>p. res = Inr p \<longrightarrow> alloc_inv A' \<and> run p n \<subseteq> available A \<and> available A' = available A - run p n)"
  using allocate_ok [OF assms(1), of n _ A'] allocate_fails [of n A _ A] assms(2)
  by (cases res) (auto simp: allocate_fails)

theorem allocate_correct_witness:
  "let A = \<lparr>next_page = 8, pa_page_count = 16, free_runs = [(0, 2), (4, 3)]\<rparr> in
   (\<exists>A'. allocate 3 A = (Inr 4, A') \<and> available A' = available A - {4 ..< 7}) \<and>
   allocate 9 A = (Inl (OutOfPhysicalMemory 9), A)"
proof -
  let ?A = "\<lparr>next_page = 8, pa_page_count = 16, free_runs = [(0, 2), (4, 3)]\<rparr> :: PhysicalAllocator"
  have inv: "alloc_inv ?A"
    by (auto simp: alloc_inv_def runs_ok_def bt_sorted_def)
  obtain A' where "allocate 3 ?A = (Inr 4, A')"
    by (simp add: allocate_def bt_remove_def)
  moreover have "run 4 3 = {4 ..< 7}"
    by (simp add: run_def)
  moreover have "fst (allocate 9 ?A) = Inl (OutOfPhysicalMemory 9)"
    by (simp add: allocate_def checked_add_def)
  ultimately show ?thesis
    using allocate_correct [OF inv, of 3 "Inr 4" A'] allocate_correct [OF inv, of 9 _ "snd (allocate 9 ?A)"]
    by (cases "allocate 9 ?A") (auto simp: Let_def)
qed

text \<open>C6. Freeing a run makes available exactly the part of it below the cursor, keeps the pool coalesced,
  and is idempotent: pages already free in the run in front of it stay free and are counted once.  The
  hypothesis excludes only a free that spans the start of a run that is already free.\<close>

theorem free_returns_pages:
  assumes "alloc_inv A" "clear_inside (unat start) (freed_end start count A) (set (free_runs A))"
  shows "alloc_inv (pa_free start count A) \<and>
         available (pa_free start count A) = available A \<union> {unat start ..< freed_end start count A}"
  using pa_free_spec [OF assms] by simp

theorem free_returns_pages_witness:
  "let A = \<lparr>next_page = 8, pa_page_count = 16, free_runs = [(0, 4)]\<rparr> in
   alloc_inv (pa_free 2 4 A) \<and> available (pa_free 2 4 A) = {..< 6} \<union> {8 ..< 16}"
proof -
  let ?A = "\<lparr>next_page = 8, pa_page_count = 16, free_runs = [(0, 4)]\<rparr> :: PhysicalAllocator"
  have "alloc_inv ?A" "clear_inside (unat 2) (freed_end 2 4 ?A) (set (free_runs ?A))"
    by (auto simp: alloc_inv_def runs_ok_def bt_sorted_def clear_inside_def)
  note free_returns_pages [OF this]
  moreover have "available ?A = {..< 4} \<union> {8 ..< 16}" "freed_end 2 4 ?A = 6"
    by (auto simp: available_def run_def freed_end_def)
  moreover have "{..< 4} \<union> {8 ..< 16} \<union> {2 ..< 6} = {..< 6} \<union> {8 ..< (16 :: nat)}"
    by auto
  ultimately show ?thesis
    by (simp add: Let_def)
qed

text \<open>A free that spans a run already in the pool is not trimmed, contrary to the comment on the
  function: the pool then holds two overlapping runs, and two successive allocations hand out the same
  pages.\<close>

lemma spanning_free_hands_out_twice:
  "let A1 = snd (allocate 8 (pa_new 16));
       A2 = pa_free 0 8 (pa_free 4 2 A1);
       (r1, A3) = allocate 8 A2;
       (r2, A4) = allocate 2 A3
   in \<not> alloc_inv A2 \<and> r1 = Inr 0 \<and> r2 = Inr 4 \<and> run 4 2 \<subseteq> run 0 8"
  by (simp add: pa_new_def allocate_def checked_add_def pa_free_def saturating_add_def free_into_def
      bt_floor_def insert_gap_def swallow_following_def bt_get_def bt_remove_def alloc_inv_def
      runs_ok_def run_def)

end
