(* ===== verification/Guest_Memory.thy ===== *)
theory Guest_Memory
  imports Page_Table
begin

text \<open>
  The interface \<^verbatim>\<open>GuestMemory\<close> of \<^verbatim>\<open>exbawks-memory/src/software.rs\<close>, through which the processor
  and the kernel services reach guest memory, as a record of operations over a state \<open>'m\<close>; and the
  laws its clients rely on, as a locale.  Reads may change the state, since a device behind the
  interface may react to them.
\<close>

record 'm guest_memory =
  gm_read :: "GuestVa \<Rightarrow> nat \<Rightarrow> ('m, MemoryError, u8 list) st"
  gm_fetch :: "GuestVa \<Rightarrow> nat \<Rightarrow> ('m, MemoryError, u8 list) st"
  gm_write :: "GuestVa \<Rightarrow> u8 list \<Rightarrow> ('m, MemoryError, unit) st"
  gm_page_table :: "'m \<Rightarrow> PageTable"

definition gm_read_u32 :: "'m guest_memory \<Rightarrow> GuestVa \<Rightarrow> ('m, MemoryError, u32) st" where
  "gm_read_u32 gm address = bind_s (gm_read gm address 4) (\<lambda>bytes. ret (from_le_bytes bytes))"

definition gm_write_u32 :: "'m guest_memory \<Rightarrow> GuestVa \<Rightarrow> u32 \<Rightarrow> ('m, MemoryError, unit) st" where
  "gm_write_u32 gm address value = gm_write gm address (to_le_bytes value)"

text \<open>The laws of plain memory: \<open>solid m a n\<close> says that the \<open>n\<close> bytes at \<open>a\<close> are readable and backed by
  \<open>n\<close> different cells.\<close>

locale plain_memory =
  fixes gm :: "'m guest_memory"
    and solid :: "'m \<Rightarrow> GuestVa \<Rightarrow> nat \<Rightarrow> bool"
  assumes read_state: "gm_read gm a n m = (r, m') \<Longrightarrow> m' = m"
    and fetch_state: "gm_fetch gm a n m = (r, m') \<Longrightarrow> m' = m"
    and read_length: "gm_read gm a n m = (Inr bs, m') \<Longrightarrow> length bs = n"
    and fetch_length: "gm_fetch gm a n m = (Inr bs, m') \<Longrightarrow> length bs = n"
    and write_error: "gm_write gm a bs m = (Inl e, m') \<Longrightarrow> m' = m"
    and write_read: "gm_write gm a bs m = (Inr u, m') \<Longrightarrow> solid m a (length bs) \<Longrightarrow>
          gm_read gm a (length bs) m' = (Inr bs, m')"
    and write_solid: "gm_write gm a bs m = (w, m') \<Longrightarrow> solid m' b n \<longleftrightarrow> solid m b n"
begin

lemma write_read_u32:
  assumes "gm_write_u32 gm a v m = (Inr u, m')" "solid m a 4"
  shows "gm_read_u32 gm a m' = (Inr v, m')"
proof -
  have "length (to_le_bytes v) = 4"
    by (simp add: to_le_bytes_def)
  with assms write_read [of a "to_le_bytes v" m u m'] show ?thesis
    by (simp add: gm_write_u32_def gm_read_u32_def bind_s_def ret_def from_to_le_bytes)
qed

lemma read_u32_state: "gm_read_u32 gm a m = (r, m') \<Longrightarrow> m' = m"
  by (auto simp: gm_read_u32_def bind_s_def ret_def split: prod.splits sum.splits dest: read_state)

end

end
