(* ===== verification/Software_Space.thy ===== *)
theory Software_Space
  imports Phys_Allocator Guest_Memory
begin

text \<open>
  The software address space of \<^verbatim>\<open>exbawks-memory/src/software.rs\<close> with the page walk of
  \<^verbatim>\<open>access.rs\<close>: physical RAM as a length and a byte function, the page table, the physical allocator
  and the mapping epoch.  The locks around them are not modelled: every operation runs alone.
\<close>

section \<open>The page walk\<close>

definition checked_descriptor :: "PageTable \<Rightarrow> GuestVa \<Rightarrow> AccessKind \<Rightarrow> MemoryError + PageDescriptor" where
  "checked_descriptor t address access =
     (let d = pt_get t (va_page address) in
      if \<not> is_valid d \<or> kind d = KindUnmapped then Inl (Unmapped address access)
      else if \<not> perm_contains (permissions d) (required_permission access)
      then Inl (AccessDenied address access)
      else (case kind d of
              KindRam \<Rightarrow> Inr d
            | KindMmio \<Rightarrow> Inl (MmioAccess address (handler_id d))
            | _ \<Rightarrow> Inl (Unmapped address access)))"

function walk_pages ::
  "PageTable \<Rightarrow> AccessKind \<Rightarrow> (GuestVa \<Rightarrow> PageDescriptor \<Rightarrow> nat \<Rightarrow> nat \<Rightarrow> ('s, MemoryError, unit) st) \<Rightarrow>
   nat \<Rightarrow> u32 \<Rightarrow> nat \<Rightarrow> ('s, MemoryError, unit) st" where
  "walk_pages t access visit len guest buffer_offset s =
     (if buffer_offset < len then
        (case checked_descriptor t guest access of
           Inl e \<Rightarrow> (Inl e, s)
         | Inr d \<Rightarrow>
             let chunk = min (4096 - unat (page_offset guest)) (len - buffer_offset) in
             (case visit guest d buffer_offset chunk s of
                (Inl e, s') \<Rightarrow> (Inl e, s')
              | (Inr _, s') \<Rightarrow>
                  let buffer_offset' = buffer_offset + chunk in
                  if buffer_offset' < len
                  then (case Option.bind (u32_try_from chunk) (checked_add guest) of
                          None \<Rightarrow> (Inl HostSizeOverflow, s')
                        | Some guest' \<Rightarrow> walk_pages t access visit len guest' buffer_offset' s')
                  else (Inr (), s')))
      else (Inr (), s))"
  by pat_completeness auto
termination
  by (relation "measure (\<lambda>(t, access, visit, len, guest, off, s). len - off)")
    (auto simp: diff_less_mono2)

declare walk_pages.simps [simp del]

definition physical_offset :: "GuestPage \<Rightarrow> u32 \<Rightarrow> MemoryError + nat" where
  "physical_offset page offset =
     ok_or (Option.bind (usize_checked_mul (unat page) 4096) (\<lambda>base. usize_checked_add base (unat offset)))
       HostSizeOverflow"

definition align_up :: "nat \<Rightarrow> nat \<Rightarrow> MemoryError + nat" where
  "align_up val alignment =
     ok_or (map_option (\<lambda>sum. sum AND (2 ^ 64 - 1 - (alignment - 1))) (usize_checked_add val (alignment - 1)))
       HostSizeOverflow"

definition bump_page :: "GuestPage \<Rightarrow> PageTable \<Rightarrow> PageTable" where
  "bump_page page t =
     (let d = pt_get t page in
      if is_valid d \<and> kind d = KindRam then snd (bump_physical_generation t (physical_page d)) else t)"

definition bump_written_generations :: "GuestVa \<Rightarrow> nat \<Rightarrow> PageTable \<Rightarrow> PageTable" where
  "bump_written_generations address len t =
     (case range_new address len of
        Inl _ \<Rightarrow> t
      | Inr rng \<Rightarrow> fold bump_page (pages rng) t)"

section \<open>The address space\<close>

record SoftwareAddressSpace =
  physical_len :: nat
  ram :: "nat \<Rightarrow> u8"
  table :: PageTable
  allocator :: PhysicalAllocator
  mapping_epoch :: u64

definition sas_new :: "(nat \<Rightarrow> bool) \<Rightarrow> nat \<Rightarrow> MemoryError + SoftwareAddressSpace" where
  "sas_new host_alloc physical_bytes =
     (if physical_bytes = 0 \<or> physical_bytes mod 4096 \<noteq> 0
      then Inl (Address (UnalignedRange 0 physical_bytes))
      else if physical_bytes > 0x100000000 then Inl (InvalidPhysicalSize physical_bytes)
      else bind_r (ok_or (u32_try_from (physical_bytes div 4096)) HostSizeOverflow) (\<lambda>count.
           if \<not> host_alloc physical_bytes then Inl (InvalidPhysicalSize physical_bytes)
           else Inr \<lparr>physical_len = physical_bytes, ram = (\<lambda>_. 0), table = pt_new,
                     allocator = pa_new count, mapping_epoch = 0\<rparr>))"

definition chunk_bounds :: "PageDescriptor \<Rightarrow> GuestVa \<Rightarrow> nat \<Rightarrow> MemoryError + nat \<times> nat" where
  "chunk_bounds d current chunk =
     bind_r (physical_offset (physical_page d) (page_offset current)) (\<lambda>offset.
     bind_r (ok_or (usize_checked_add offset chunk) HostSizeOverflow) (\<lambda>limit. Inr (offset, limit)))"

definition validate_visit ::
  "nat \<Rightarrow> GuestVa \<Rightarrow> PageDescriptor \<Rightarrow> nat \<Rightarrow> nat \<Rightarrow> (unit, MemoryError, unit) st" where
  "validate_visit plen current d _ chunk =
     gets_r (\<lambda>_. bind_r (chunk_bounds d current chunk) (\<lambda>(_, limit).
                 if limit > plen then Inl (PhysicalOutOfRange (page_start (physical_page d)))
                 else Inr ()))"

definition validate_access :: "PageTable \<Rightarrow> nat \<Rightarrow> AccessKind \<Rightarrow> GuestVa \<Rightarrow> nat \<Rightarrow> MemoryError + unit" where
  "validate_access t plen access address len =
     fst (walk_pages t access (validate_visit plen) len address 0 ())"

text \<open>A slice of RAM as \<^verbatim>\<open>physical.get(a..b)\<close> takes it.\<close>

definition ram_slice :: "nat \<Rightarrow> (nat \<Rightarrow> u8) \<Rightarrow> nat \<Rightarrow> nat \<Rightarrow> u8 list option" where
  "ram_slice plen r a b = (if a \<le> b \<and> b \<le> plen then Some (map r [a ..< b]) else None)"

definition slice_error :: "nat \<Rightarrow> MemoryError" where
  "slice_error offset =
     PhysicalOutOfRange (case u32_try_from offset of Some pa \<Rightarrow> pa | None \<Rightarrow> - 1)"

definition copy_from_visit ::
  "nat \<Rightarrow> (nat \<Rightarrow> u8) \<Rightarrow> GuestVa \<Rightarrow> PageDescriptor \<Rightarrow> nat \<Rightarrow> nat \<Rightarrow> (u8 list, MemoryError, unit) st" where
  "copy_from_visit plen r current d buffer_offset chunk output =
     (case bind_r (chunk_bounds d current chunk) (\<lambda>(offset, limit).
           ok_or (ram_slice plen r offset limit) (slice_error offset)) of
        Inl e \<Rightarrow> (Inl e, output)
      | Inr source \<Rightarrow> (Inr (), take buffer_offset output @ source @ drop (buffer_offset + chunk) output))"

definition copy_from_guest ::
  "PageTable \<Rightarrow> nat \<Rightarrow> (nat \<Rightarrow> u8) \<Rightarrow> AccessKind \<Rightarrow> GuestVa \<Rightarrow> (u8 list, MemoryError, unit) st" where
  "copy_from_guest t plen r access address output =
     walk_pages t access (copy_from_visit plen r) (length output) address 0 output"

definition copy_to_visit ::
  "nat \<Rightarrow> u8 list \<Rightarrow> GuestVa \<Rightarrow> PageDescriptor \<Rightarrow> nat \<Rightarrow> nat \<Rightarrow> (nat \<Rightarrow> u8, MemoryError, unit) st" where
  "copy_to_visit plen input current d buffer_offset chunk r =
     (case bind_r (chunk_bounds d current chunk) (\<lambda>(offset, limit).
           ok_or (map_option (\<lambda>_. offset) (ram_slice plen r offset limit)) (slice_error offset)) of
        Inl e \<Rightarrow> (Inl e, r)
      | Inr offset \<Rightarrow>
          (Inr (), \<lambda>a. if offset \<le> a \<and> a < offset + chunk
                       then input ! (buffer_offset + (a - offset)) else r a))"

definition copy_to_guest ::
  "PageTable \<Rightarrow> nat \<Rightarrow> AccessKind \<Rightarrow> GuestVa \<Rightarrow> u8 list \<Rightarrow> (nat \<Rightarrow> u8, MemoryError, unit) st" where
  "copy_to_guest t plen access address input =
     walk_pages t access (copy_to_visit plen input) (length input) address 0"

definition sas_access_read ::
  "AccessKind \<Rightarrow> GuestVa \<Rightarrow> nat \<Rightarrow> (SoftwareAddressSpace, MemoryError, u8 list) st" where
  "sas_access_read access address len =
     (if len = 0 then ret []
      else gets_r (\<lambda>s.
        bind_r (map_err Address (range_new address len)) (\<lambda>_.
        bind_r (validate_access (table s) (physical_len s) access address len) (\<lambda>_.
        case copy_from_guest (table s) (physical_len s) (ram s) access address (replicate len 0) of
          (Inl e, _) \<Rightarrow> Inl e
        | (Inr _, output) \<Rightarrow> Inr output))))"

definition sas_access_write :: "GuestVa \<Rightarrow> u8 list \<Rightarrow> (SoftwareAddressSpace, MemoryError, unit) st" where
  "sas_access_write address input =
     (if input = [] then ret ()
      else bind_s (gets_r (\<lambda>_. map_err Address (range_new address (length input)))) (\<lambda>_.
           bind_s (gets_r (\<lambda>s. validate_access (table s) (physical_len s) Write address (length input))) (\<lambda>_.
           bind_s (\<lambda>s. case copy_to_guest (table s) (physical_len s) Write address input (ram s) of
                          (r, ram') \<Rightarrow> (r, s\<lparr>ram := ram'\<rparr>)) (\<lambda>_.
           modify (\<lambda>s. s\<lparr>table := bump_written_generations address (length input) (table s)\<rparr>)))))"

definition sas_memory :: "SoftwareAddressSpace guest_memory" where
  "sas_memory = \<lparr>gm_read = sas_access_read Read, gm_fetch = sas_access_read Execute,
                 gm_write = sas_access_write, gm_page_table = table\<rparr>"

definition on_table :: "(PageTable, MemoryError, unit) st \<Rightarrow> (SoftwareAddressSpace, MemoryError, unit) st" where
  "on_table f s = (case f (table s) of (r, t) \<Rightarrow> (r, s\<lparr>table := t\<rparr>))"

definition bump_mapping_epoch :: "SoftwareAddressSpace \<Rightarrow> SoftwareAddressSpace" where
  "bump_mapping_epoch s = s\<lparr>mapping_epoch := mapping_epoch s + 1\<rparr>"

definition div_ceil_pages :: "u32 \<Rightarrow> u32" where
  "div_ceil_pages bytes = word_of_nat ((unat bytes + 4095) div 4096)"

definition allocate_physical :: "u32 \<Rightarrow> (SoftwareAddressSpace, MemoryError, GuestPa) st" where
  "allocate_physical bytes s =
     (case allocate (div_ceil_pages (max bytes 1)) (allocator s) of
        (Inl e, A) \<Rightarrow> (Inl e, s\<lparr>allocator := A\<rparr>)
      | (Inr page, A) \<Rightarrow> (Inr (page_start page), s\<lparr>allocator := A\<rparr>))"

definition bump_physical_generations :: "u32 \<Rightarrow> nat \<Rightarrow> SoftwareAddressSpace \<Rightarrow> SoftwareAddressSpace" where
  "bump_physical_generations physical len s =
     s\<lparr>table := bump_written_generations (0x80000000 OR physical) len (table s)\<rparr>"

definition scrub :: "nat \<Rightarrow> nat \<Rightarrow> SoftwareAddressSpace \<Rightarrow> SoftwareAddressSpace" where
  "scrub begin limit s =
     (let limit' = min limit (physical_len s) in
      if begin \<le> limit' then s\<lparr>ram := \<lambda>a. if begin \<le> a \<and> a < limit' then 0 else ram s a\<rparr> else s)"

definition free_physical :: "GuestPa \<Rightarrow> u32 \<Rightarrow> SoftwareAddressSpace \<Rightarrow> SoftwareAddressSpace" where
  "free_physical start bytes s =
     (let count = div_ceil_pages (max bytes 1);
          first = start div 4096;
          s1 = scrub (unat first * 4096) (unat first * 4096 + unat count * 4096) s;
          s2 = bump_physical_generations (first * 4096) (unat (count * 4096)) s1
      in s2\<lparr>allocator := pa_free first count (allocator s2)\<rparr>)"

definition map_anonymous ::
  "GuestRange \<Rightarrow> MemoryPermissions \<Rightarrow> (SoftwareAddressSpace, MemoryError, GuestPa) st" where
  "map_anonymous rng perms =
     bind_s (gets_r (\<lambda>_. map_err Address (require_page_alignment rng))) (\<lambda>_.
     bind_s (gets_r (\<lambda>_. ok_or (u32_try_from (page_count rng)) HostSizeOverflow)) (\<lambda>count s.
       case allocate count (allocator s) of
         (Inl e, A) \<Rightarrow> (Inl e, s\<lparr>allocator := A\<rparr>)
       | (Inr page, A) \<Rightarrow>
           (case map_ram rng page perms (table s) of
              (Inl e, t) \<Rightarrow> (Inl e, s\<lparr>table := t, allocator := rollback_last page count A\<rparr>)
            | (Inr _, t) \<Rightarrow>
                (Inr (page_start page), bump_mapping_epoch (s\<lparr>table := t, allocator := A\<rparr>)))))"

definition map_alias ::
  "GuestRange \<Rightarrow> GuestPa \<Rightarrow> MemoryPermissions \<Rightarrow> (SoftwareAddressSpace, MemoryError, unit) st" where
  "map_alias rng physical_start perms =
     bind_s (gets_r (\<lambda>_. map_err Address (require_page_alignment rng))) (\<lambda>_.
     bind_s (gets_r (\<lambda>_. if page_offset physical_start \<noteq> 0
                       then Inl (UnalignedPhysicalAddress physical_start) else Inr ())) (\<lambda>_.
     bind_s (gets_r (\<lambda>s. bind_r (ok_or (usize_checked_add (unat physical_start) (gr_len rng))
                                    (PhysicalOutOfRange physical_start)) (\<lambda>physical_end.
                       if physical_end > physical_len s then Inl (PhysicalOutOfRange physical_start)
                       else Inr ()))) (\<lambda>_.
     bind_s (on_table (map_ram rng (va_page physical_start) perms)) (\<lambda>_.
     modify bump_mapping_epoch))))"

definition map_physical_window :: "(SoftwareAddressSpace, MemoryError, unit) st" where
  "map_physical_window =
     bind_s (gets_r (\<lambda>s. map_err Address (page_aligned 0x80000000 (physical_len s)))) (\<lambda>rng.
     map_alias rng 0 (READ OR WRITE))"

definition sas_protect :: "GuestRange \<Rightarrow> MemoryPermissions \<Rightarrow> (SoftwareAddressSpace, MemoryError, unit) st" where
  "sas_protect rng perms =
     bind_s (on_table (protect rng perms)) (\<lambda>_. modify bump_mapping_epoch)"

definition load_region ::
  "GuestVa \<Rightarrow> u32 \<Rightarrow> u8 list \<Rightarrow> MemoryPermissions \<Rightarrow> (SoftwareAddressSpace, MemoryError, GuestPa) st" where
  "load_region address virtual_size initial perms =
     (if length initial > unat virtual_size then throw HostSizeOverflow
      else bind_s (gets_r (\<lambda>_. align_up (unat virtual_size) 4096)) (\<lambda>rounded_size.
           bind_s (gets_r (\<lambda>_. map_err Address (page_aligned address rounded_size))) (\<lambda>rng.
           bind_s (map_anonymous rng (perms OR WRITE)) (\<lambda>physical.
           bind_s (sas_access_write address initial) (\<lambda>_.
           bind_s (sas_protect rng perms) (\<lambda>_. ret physical))))))"

text \<open>Reserving pages one at a time terminates: every step shortens the pool or moves the cursor.\<close>

definition pool_size :: "(u32, u32) btree_map \<Rightarrow> nat" where
  "pool_size m = (\<Sum>e\<leftarrow>m. unat (snd e))"

lemma pool_size_insert: "pool_size (bt_insert k v m) \<le> pool_size m + unat v"
  by (induction k v m rule: bt_insert.induct) (auto simp: pool_size_def)

lemma pool_size_remove_le: "pool_size (bt_remove k m) \<le> pool_size m"
  by (induction m) (auto simp: pool_size_def bt_remove_def)

lemma pool_size_remove: "(k, v) \<in> set m \<Longrightarrow> pool_size (bt_remove k m) + unat v \<le> pool_size m"
proof (induction m)
  case (Cons e m)
  then show ?case
    using pool_size_remove_le [of k m] by (cases "e = (k, v)") (auto simp: pool_size_def bt_remove_def)
qed simp

lemma allocate_one_progress:
  assumes "allocate 1 A = (Inr p, A')"
  shows "pool_size (free_runs A') + (2 ^ 32 - unat (next_page A')) <
         pool_size (free_runs A) + (2 ^ 32 - unat (next_page A))"
proof (cases "find (\<lambda>entry. snd entry \<ge> 1) (free_runs A)")
  case None
  with assms have *: "unat (next_page A) + 1 < 4294967296" "A' = A\<lparr>next_page := next_page A + 1\<rparr>"
    by (auto simp: allocate_def checked_add_def split: if_splits)
  then have "unat (next_page A + 1) = unat (next_page A) + 1"
    by (simp add: unat_plus_no_overflow)
  with * show ?thesis
    by simp
next
  case (Some e)
  obtain s l where e: "e = (s, l)"
    by fastforce
  have mem: "(s, l) \<in> set (free_runs A)" "1 \<le> l"
    using find_first_SomeD [OF Some] e by auto
  then have l: "unat l = Suc (unat (l - 1))" "0 < unat l"
    by (simp_all add: unat_minus_no_borrow word_le_nat_alt)
  have A': "free_runs A' = (if l > 1 then bt_insert (s + 1) (l - 1) (bt_remove s (free_runs A))
      else bt_remove s (free_runs A))" "next_page A' = next_page A"
    using assms Some e by (auto simp: allocate_def Let_def)
  have "pool_size (free_runs A') < pool_size (free_runs A)"
    using pool_size_remove [OF mem(1)] pool_size_insert [of "s + 1" "l - 1" "bt_remove s (free_runs A)"] l A'(1)
    by (auto split: if_splits)
  with A'(2) show ?thesis
    by simp
qed

function reserve_loop :: "u32 \<Rightarrow> PhysicalAllocator \<Rightarrow> PhysicalAllocator" where
  "reserve_loop target A =
     (if next_page A < target
      then (case allocate 1 A of
              (Inl _, A') \<Rightarrow> A'
            | (Inr _, A') \<Rightarrow> reserve_loop target A')
      else A)"
  by pat_completeness auto
termination
proof (relation "measure (\<lambda>(_, A). pool_size (free_runs A) + (2 ^ 32 - unat (next_page A)))", goal_cases)
  case (2 target A x A' p)
  then show ?case
    using allocate_one_progress [of A p A'] by simp
qed simp

declare reserve_loop.simps [simp del]

definition reserve_physical_through :: "GuestPa \<Rightarrow> SoftwareAddressSpace \<Rightarrow> SoftwareAddressSpace" where
  "reserve_physical_through limit s =
     (let target = min (div_ceil_pages limit) (pa_page_count (allocator s))
      in s\<lparr>allocator := reserve_loop target (allocator s)\<rparr>)"

section \<open>Translation, byte by byte\<close>

definition granted :: "PageTable \<Rightarrow> AccessKind \<Rightarrow> GuestVa \<Rightarrow> bool" where
  "granted t access a =
     (let d = pt_get t (va_page a) in
      is_valid d \<and> kind d = KindRam \<and> perm_contains (permissions d) (required_permission access))"

definition paddr :: "PageTable \<Rightarrow> GuestVa \<Rightarrow> nat" where
  "paddr t a = unat (physical_page (pt_get t (va_page a))) * 4096 + unat (page_offset a)"

definition accessible :: "PageTable \<Rightarrow> nat \<Rightarrow> AccessKind \<Rightarrow> GuestVa \<Rightarrow> nat \<Rightarrow> bool" where
  "accessible t plen access a n \<longleftrightarrow>
     (\<forall>i < n. granted t access (a + word_of_nat i) \<and> paddr t (a + word_of_nat i) < plen)"

lemma checked_descriptor_Inr_iff:
  "checked_descriptor t a access = Inr d \<longleftrightarrow> granted t access a \<and> d = pt_get t (va_page a)"
  by (auto simp: checked_descriptor_def granted_def Let_def split: PageKind.splits)

lemma checked_descriptor_Inl: "\<not> granted t access a \<Longrightarrow> \<exists>e. checked_descriptor t a access = Inl e"
  by (auto simp: checked_descriptor_def granted_def Let_def split: PageKind.splits)

lemma nat_in_page:
  assumes "(m :: nat) mod 4096 + i < 4096"
  shows "(m + i) div 4096 = m div 4096" "(m + i) mod 4096 = m mod 4096 + i"
proof -
  show d: "(m + i) div 4096 = m div 4096"
  proof (rule div_nat_eqI)
    show "4096 * (m div 4096) \<le> m + i" "m + i < 4096 * Suc (m div 4096)"
      using assms div_mult_mod_eq [of m 4096] unfolding mult_Suc_right by linarith+
  qed
  show "(m + i) mod 4096 = m mod 4096 + i"
    using d div_mult_mod_eq [of "m + i" 4096] div_mult_mod_eq [of m 4096] by linarith
qed

lemma unat_in_page:
  assumes "i < 4096 - unat (page_offset g)"
  shows "unat (g + word_of_nat i) = unat g + i"
proof -
  have "unat g + i < 4294967296"
    using assms va_split [of g] va_page_less [of g] by linarith
  moreover have "i < 4294967296"
    using assms by linarith
  ultimately show ?thesis
    by (simp add: unat_word_ariths unat_of_nat)
qed

lemma same_page:
  assumes "i < 4096 - unat (page_offset g)"
  shows "va_page (g + word_of_nat i) = va_page g"
    "unat (page_offset (g + word_of_nat i)) = unat (page_offset g) + i"
proof -
  note sum = unat_in_page [OF assms]
  have "unat g mod 4096 + i < 4096"
    using assms by (simp add: unat_page_offset)
  note div = nat_in_page [OF this]
  show "va_page (g + word_of_nat i) = va_page g"
    using div sum by (simp add: unat_inj_iff [symmetric] unat_va_page)
  show "unat (page_offset (g + word_of_nat i)) = unat (page_offset g) + i"
    using div sum by (simp add: unat_page_offset)
qed

lemma paddr_in_page:
  "i < 4096 - unat (page_offset g) \<Longrightarrow> paddr t (g + word_of_nat i) = paddr t g + i"
  by (simp add: paddr_def same_page)

lemma granted_in_page:
  "i < 4096 - unat (page_offset g) \<Longrightarrow> granted t access (g + word_of_nat i) = granted t access g"
  by (simp add: granted_def same_page)

lemma physical_offset_total: "physical_offset p off = Inr (unat p * 4096 + unat off)"
proof -
  have "unat p * 4096 + unat off < 18446744073709551616"
    using unat_lt_2p32 [of p] unat_lt_2p32 [of off] by linarith
  then show ?thesis
    by (simp add: physical_offset_def usize_checked_mul_def usize_checked_add_def)
qed

text \<open>One induction for every walk: a visitor that treats its chunk as a run of bytes makes the walk
  treat the whole access that way.\<close>

lemma fold_upt_shift: "fold (\<lambda>i. f (k + i)) [0 ..< n] s = fold f [k ..< k + n] s"
proof -
  have "[k ..< k + n] = map (\<lambda>i. k + i) [0 ..< n]"
    by (simp add: map_add_upt add.commute)
  then show ?thesis
    by (simp add: fold_map comp_def)
qed

lemma fold_upt_split:
  assumes "c \<le> n"
  shows "fold f [0 ..< n] s = fold (\<lambda>i. f (c + i)) [0 ..< n - c] (fold f [0 ..< c] s)"
proof -
  have "[0 ..< n] = [0 ..< c] @ [c ..< c + (n - c)]"
    using assms upt_add_eq_append [of 0 c "n - c"] by simp
  then show ?thesis
    by (simp only: fold_append comp_def fold_upt_shift)
qed

definition byte_visitor ::
  "('s \<Rightarrow> bool) \<Rightarrow> PageTable \<Rightarrow> AccessKind \<Rightarrow> (nat \<Rightarrow> bool) \<Rightarrow> (nat \<Rightarrow> nat \<Rightarrow> 's \<Rightarrow> 's) \<Rightarrow> nat \<Rightarrow>
   (GuestVa \<Rightarrow> PageDescriptor \<Rightarrow> nat \<Rightarrow> nat \<Rightarrow> ('s, MemoryError, unit) st) \<Rightarrow> bool" where
  "byte_visitor I t access ok step len visit \<longleftrightarrow>
     (\<forall>a j s. I s \<longrightarrow> I (step a j s)) \<and>
     (\<forall>g off n s. I s \<longrightarrow> 0 < n \<longrightarrow> n \<le> 4096 - unat (page_offset g) \<longrightarrow> off + n \<le> len \<longrightarrow> granted t access g \<longrightarrow>
        (if \<forall>i < n. ok (paddr t g + i)
         then visit g (pt_get t (va_page g)) off n s =
                (Inr (), fold (\<lambda>i. step (paddr t g + i) (off + i)) [0 ..< n] s)
         else \<exists>e s'. visit g (pt_get t (va_page g)) off n s = (Inl e, s')))"

lemma byte_visitor_fold:
  assumes "byte_visitor I t access ok step len visit" "I s"
  shows "I (fold (\<lambda>i. step (f i) (g i)) xs s)"
proof -
  have "I (step a j s')" if "I s'" for a j s'
    using assms(1) that unfolding byte_visitor_def by blast
  with assms(2) show ?thesis
    by (induction xs arbitrary: s) auto
qed

lemma fold_skip [simp]: "fold (\<lambda>_ s. s) xs s = s"
  by (induction xs) auto

lemma walk_pages_next:
  assumes "off < len" "granted t access guest" "unat guest + (len - off) \<le> 4294967296"
    and c: "c = min (4096 - unat (page_offset guest)) (len - off)"
    and visit: "visit guest (pt_get t (va_page guest)) off c s = (Inr u, s')"
  shows "walk_pages t access visit len guest off s =
         walk_pages t access visit len (guest + word_of_nat c) (off + c) s'"
proof -
  have desc: "checked_descriptor t guest access = Inr (pt_get t (va_page guest))"
    using assms(2) by (simp add: checked_descriptor_Inr_iff)
  show ?thesis
  proof (cases "off + c < len")
    case True
    then have "c < 4294967296" "unat guest + c < 4294967296"
      using assms(3) c by auto
    then have "Option.bind (u32_try_from c) (checked_add guest) = Some (guest + word_of_nat c)"
      by (simp add: u32_try_from_def checked_add_def unat_of_nat)
    then show ?thesis
      using assms(1) desc visit True
      by (subst walk_pages.simps) (simp add: Let_def c [symmetric])
  next
    case False
    then show ?thesis
      using assms(1) desc visit
      by (subst (1 2) walk_pages.simps) (simp add: Let_def c [symmetric])
  qed
qed

lemma walk_pages_error:
  assumes "off < len" "granted t access guest"
    and "visit guest (pt_get t (va_page guest)) off
           (min (4096 - unat (page_offset guest)) (len - off)) s = (Inl e, s')"
  shows "walk_pages t access visit len guest off s = (Inl e, s')"
  using assms by (subst walk_pages.simps) (simp add: Let_def checked_descriptor_Inr_iff [THEN iffD2])

lemma all_less_split: "c \<le> n \<Longrightarrow> (\<forall>i < n. P i) \<longleftrightarrow> (\<forall>i < c. P i) \<and> (\<forall>i < n - c. P (c + i))"
  for n :: nat
  by (metis add_diff_inverse_nat le_add_diff_inverse less_diff_conv2 nat_add_left_cancel_less
      not_less order_less_le_trans)

lemma walk_pages_bytes:
  assumes "byte_visitor I t access ok step len visit" "I s" "unat guest + (len - off) \<le> 4294967296"
  shows "if \<forall>i < len - off. granted t access (guest + word_of_nat i) \<and> ok (paddr t (guest + word_of_nat i))
         then walk_pages t access visit len guest off s =
                (Inr (), fold (\<lambda>i. step (paddr t (guest + word_of_nat i)) (off + i)) [0 ..< len - off] s)
         else \<exists>e s'. walk_pages t access visit len guest off s = (Inl e, s')"
  using assms(2,3)
proof (induction "len - off" arbitrary: guest off s rule: less_induct)
  case (less off guest s)
  let ?n = "len - off"
  let ?c = "min (4096 - unat (page_offset guest)) ?n"
  let ?ok = "\<lambda>i. granted t access (guest + word_of_nat i) \<and> ok (paddr t (guest + word_of_nat i))"
  let ?step = "\<lambda>i. step (paddr t (guest + word_of_nat i)) (off + i)"
  consider "?n = 0" | "0 < ?n" "\<not> granted t access guest" | "0 < ?n" "granted t access guest"
    by blast
  then show ?case
  proof cases
    case 1
    then show ?thesis
      by (simp add: walk_pages.simps)
  next
    case 2
    then obtain e where "checked_descriptor t guest access = Inl e"
      using checked_descriptor_Inl by blast
    moreover have "\<not> (\<forall>i < ?n. ?ok i)"
      using 2 by (auto intro!: exI [of _ 0])
    ultimately show ?thesis
      using 2 by (simp add: walk_pages.simps)
  next
    case 3
    define c where "c = ?c"
    have c: "0 < c" "c \<le> 4096 - unat (page_offset guest)" "off + c \<le> len" "c \<le> ?n"
      using 3(1) page_offset_less [of guest] by (auto simp: c_def)
    have in_page: "paddr t (guest + word_of_nat i) = paddr t guest + i" "?ok i \<longleftrightarrow> ok (paddr t guest + i)"
      if "i < c" for i
      using that c(2) 3(2) by (simp_all add: paddr_in_page granted_in_page)
    note visit = assms(1) [unfolded byte_visitor_def, THEN conjunct2, rule_format, OF less.prems(1) c(1-3) 3(2)]
    show ?thesis
    proof (cases "\<forall>i < c. ok (paddr t guest + i)")
      case False
      with visit obtain e s' where "visit guest (pt_get t (va_page guest)) off c s = (Inl e, s')"
        by (simp only: if_False) blast
      then have "walk_pages t access visit len guest off s = (Inl e, s')"
        using 3 by (intro walk_pages_error) (simp_all add: c_def)
      moreover have "\<not> (\<forall>i < ?n. ?ok i)"
        using False in_page(2) c(4) by (meson order_less_le_trans)
      ultimately show ?thesis
        by simp
    next
      case True
      let ?s = "fold (\<lambda>i. step (paddr t guest + i) (off + i)) [0 ..< c] s"
      have run: "visit guest (pt_get t (va_page guest)) off c s = (Inr (), ?s)"
        using visit True by simp
      have "?s = fold ?step [0 ..< c] s"
        by (rule fold_cong) (use in_page in auto)
      then have folded: "fold ?step [0 ..< ?n] s =
          fold (\<lambda>i. step (paddr t (guest + word_of_nat c + word_of_nat i)) (off + c + i)) [0 ..< len - (off + c)] ?s"
        using fold_upt_split [OF c(4), of ?step s] by (simp add: add.assoc)
      have ok: "(\<forall>i < ?n. ?ok i) \<longleftrightarrow> (\<forall>i < len - (off + c). granted t access (guest + word_of_nat c + word_of_nat i)
          \<and> ok (paddr t (guest + word_of_nat c + word_of_nat i)))"
        using True in_page by (simp add: all_less_split [OF c(4)] add.assoc)
      have "walk_pages t access visit len guest off s =
          walk_pages t access visit len (guest + word_of_nat c) (off + c) ?s"
        using 3 less.prems(2) run by (intro walk_pages_next) (simp_all add: c_def)
      moreover have "unat (guest + word_of_nat c) + (len - (off + c)) \<le> 4294967296"
        using less.prems(2) c(3,4) by (cases "off + c = len") (auto simp: unat_word_ariths unat_of_nat)
      moreover have "len - (off + c) < len - off"
        using c(1) 3(1) by linarith
      moreover have "I ?s"
        by (rule byte_visitor_fold [OF assms(1) less.prems(1)])
      ultimately show ?thesis
        unfolding ok folded by (simp add: less.hyps)
    qed
  qed
qed

section \<open>Accesses\<close>

lemma chunk_bounds_total:
  assumes "n \<le> 4096"
  shows "chunk_bounds (pt_get t (va_page g)) g n = Inr (paddr t g, paddr t g + n)"
proof -
  have "paddr t g + n < 18446744073709551616"
    using assms unat_lt_2p32 [of "physical_page (pt_get t (va_page g))"] page_offset_less [of g]
    unfolding paddr_def by linarith
  then show ?thesis
    by (simp add: chunk_bounds_def physical_offset_total paddr_def usize_checked_add_def)
qed

lemma all_below_iff: "0 < n \<Longrightarrow> (\<forall>i < n. p + i < q) \<longleftrightarrow> p + n \<le> q" for n p q :: nat
  by (metis Suc_leI add_Suc_right add_less_cancel_left gr0_conv_Suc lessI order_less_le_trans)

lemma validate_visitor: "byte_visitor (\<lambda>_. True) t access (\<lambda>p. p < plen) (\<lambda>_ _ s. s) n (validate_visit plen)"
  unfolding byte_visitor_def by (auto simp: all_below_iff validate_visit_def chunk_bounds_total gets_r_def)

lemma validate_access_iff:
  assumes "unat a + n \<le> 4294967296"
  shows "validate_access t plen access a n = Inr () \<longleftrightarrow> accessible t plen access a n"
  using walk_pages_bytes [OF validate_visitor [of t access plen n], where guest = a and off = 0 and s = "()"] assms
  by (auto simp: validate_access_def accessible_def split: if_splits)

lemma fold_update_slice:
  "off + n \<le> length out \<Longrightarrow>
   fold (\<lambda>i out. out[off + i := r (p + i)]) [0 ..< n] out = take off out @ map r [p ..< p + n] @ drop (off + n) out"
proof (induction n)
  case (Suc n)
  then show ?case
    by (simp add: list_update_append Cons_nth_drop_Suc [symmetric])
qed simp

lemma copy_from_visitor:
  "byte_visitor (\<lambda>out. length out = n) t access (\<lambda>p. p < plen) (\<lambda>p j out. out[j := r p]) n (copy_from_visit plen r)"
  unfolding byte_visitor_def
  by (auto simp: all_below_iff copy_from_visit_def chunk_bounds_total ram_slice_def fold_update_slice ok_or_def)

lemma fold_store_slice:
  "fold (\<lambda>i r. r(p + i := f (off + i))) [0 ..< n] r =
   (\<lambda>a. if p \<le> a \<and> a < p + n then f (off + (a - p)) else r a)"
  by (induction n) (auto simp: fun_eq_iff less_Suc_eq)

lemma copy_to_visitor:
  "byte_visitor (\<lambda>_. True) t access (\<lambda>p. p < plen) (\<lambda>p j r. r(p := input ! j)) n (copy_to_visit plen input)"
  unfolding byte_visitor_def
  by (auto simp: all_below_iff copy_to_visit_def chunk_bounds_total ram_slice_def ok_or_def fold_store_slice)

text \<open>The reference: a read is a list of byte loads and a write a sequence of byte stores.\<close>

definition load_bytes :: "PageTable \<Rightarrow> GuestVa \<Rightarrow> nat \<Rightarrow> (nat \<Rightarrow> u8) \<Rightarrow> u8 list" where
  "load_bytes t a n r = map (\<lambda>i. r (paddr t (a + word_of_nat i))) [0 ..< n]"

definition store_bytes :: "PageTable \<Rightarrow> GuestVa \<Rightarrow> u8 list \<Rightarrow> (nat \<Rightarrow> u8) \<Rightarrow> nat \<Rightarrow> u8" where
  "store_bytes t a bs = fold (\<lambda>i r. r(paddr t (a + word_of_nat i) := bs ! i)) [0 ..< length bs]"

lemma fold_update_all:
  "length out = n \<Longrightarrow> fold (\<lambda>i out. out[i := f i]) [0 ..< n] out = map f [0 ..< n]"
  using fold_update_slice [of 0 n out f 0] by simp

lemma copy_from_guest_ok:
  assumes "unat a + length out \<le> 4294967296" "accessible t plen access a (length out)"
  shows "copy_from_guest t plen r access a out = (Inr (), load_bytes t a (length out) r)"
  using walk_pages_bytes [OF copy_from_visitor [of "length out" t access plen r], where guest = a and off = 0
      and s = out] assms
  by (simp add: copy_from_guest_def accessible_def load_bytes_def fold_update_all)

lemma copy_to_guest_ok:
  assumes "unat a + length bs \<le> 4294967296" "accessible t plen access a (length bs)"
  shows "copy_to_guest t plen access a bs r = (Inr (), store_bytes t a bs r)"
  using walk_pages_bytes [OF copy_to_visitor [of t access plen bs "length bs"], where guest = a and off = 0
      and s = r] assms
  by (simp add: copy_to_guest_def accessible_def store_bytes_def)

definition in_space :: "GuestVa \<Rightarrow> nat \<Rightarrow> bool" where
  "in_space a n \<longleftrightarrow> unat a + n \<le> 4294967296"

lemma range_new_in_space: "0 < n \<Longrightarrow> (\<exists>r. range_new a n = Inr r) \<longleftrightarrow> in_space a n"
  by (auto simp: range_new_Inr_iff in_space_def)

lemma sas_access_read_ok:
  assumes "in_space a n" "accessible (table s) (physical_len s) access a n"
  shows "sas_access_read access a n s = (Inr (load_bytes (table s) a n (ram s)), s)"
  using assms copy_from_guest_ok [of a "replicate n 0" "table s" "physical_len s" access "ram s"]
    range_new_in_space [of n a]
  by (auto simp: sas_access_read_def load_bytes_def ret_def gets_r_def in_space_def
      validate_access_iff [THEN iffD2] map_err_def)

lemma sas_access_read_fails:
  assumes "\<not> (in_space a n \<and> accessible (table s) (physical_len s) access a n)"
  shows "\<exists>e. sas_access_read access a n s = (Inl e, s)"
proof (cases "in_space a n")
  case True
  then have "validate_access (table s) (physical_len s) access a n \<noteq> Inr ()" "0 < n"
    using assms validate_access_iff [of a n] by (auto simp: in_space_def accessible_def)
  then show ?thesis
    by (cases "validate_access (table s) (physical_len s) access a n")
      (auto simp: sas_access_read_def gets_r_def bind_r_def split: sum.splits)
next
  case False
  then have "0 < n"
    using unat_lt_2p32 [of a] by (cases n) (auto simp: in_space_def simp del: unat_lt_2p32)
  with False range_new_in_space [of n a] show ?thesis
    by (auto simp: sas_access_read_def gets_r_def bind_r_def map_err_def split: sum.splits)
qed

lemma sas_access_write_ok:
  assumes "in_space a (length bs)" "accessible (table s) (physical_len s) Write a (length bs)"
  shows "sas_access_write a bs s =
         (Inr (), s\<lparr>ram := store_bytes (table s) a bs (ram s),
                   table := bump_written_generations a (length bs) (table s)\<rparr>)"
proof (cases "bs = []")
  case True
  then show ?thesis
    by (simp add: sas_access_write_def store_bytes_def ret_def bump_written_generations_def range_new_def)
next
  case False
  then obtain r where "range_new a (length bs) = Inr r"
    using assms(1) range_new_in_space [of "length bs" a] by auto
  then show ?thesis
    using False assms copy_to_guest_ok [of a bs "table s" "physical_len s" Write "ram s"]
    by (simp add: sas_access_write_def gets_r_def bind_s_def modify_def in_space_def
        validate_access_iff [THEN iffD2] map_err_def)
qed

lemma sas_access_write_fails:
  assumes "\<not> (in_space a (length bs) \<and> accessible (table s) (physical_len s) Write a (length bs))"
  shows "\<exists>e. sas_access_write a bs s = (Inl e, s)"
proof (cases "in_space a (length bs)")
  case True
  then have "validate_access (table s) (physical_len s) Write a (length bs) \<noteq> Inr ()" "bs \<noteq> []"
    using assms validate_access_iff [of a "length bs"] by (auto simp: in_space_def accessible_def)
  then show ?thesis
    by (cases "validate_access (table s) (physical_len s) Write a (length bs)")
      (auto simp: sas_access_write_def gets_r_def bind_s_def split: sum.splits)
next
  case False
  then have "bs \<noteq> []"
    using unat_lt_2p32 [of a] by (cases bs) (auto simp: in_space_def simp del: unat_lt_2p32)
  with False range_new_in_space [of "length bs" a] show ?thesis
    by (auto simp: sas_access_write_def gets_r_def bind_s_def map_err_def split: sum.splits)
qed

section \<open>Generations\<close>

definition ram_backed :: "PageTable \<Rightarrow> GuestPage \<Rightarrow> GuestPage \<Rightarrow> bool" where
  "ram_backed t q p \<longleftrightarrow> (let d = pt_get t p in is_valid d \<and> kind d = KindRam \<and> physical_page d = q)"

lemma bump_generation_simps [simp]:
  "entries (snd (bump_physical_generation t q)) = entries t"
  "pt_get (snd (bump_physical_generation t q)) p = pt_get t p"
  by (simp_all add: bump_physical_generation_def Let_def pt_get_def)

lemma physical_page_in_table: "unat (physical_page d) < GUEST_PAGE_COUNT"
proof -
  have "drop_bit 8 d AND PHYSICAL_PAGE_MASK = take_bit 20 (drop_bit 8 d)"
    by (simp add: take_bit_eq_mask mask_eq_exp_minus_1)
  then have "physical_page d = ucast (take_bit 20 (drop_bit 8 d))"
    by (simp add: physical_page_def)
  then have "unat (physical_page d) = take_bit 20 (unat (drop_bit 8 d))"
    by (simp add: unsigned_ucast_eq unsigned_take_bit_eq)
  then show ?thesis
    using take_bit_nat_less_exp [of 20 "unat (drop_bit 8 d)"] by simp
qed

lemma bump_page_effect:
  "pt_get (bump_page p t) = pt_get t"
  "physical_generations (bump_page p t) (unat q) =
     physical_generations t (unat q) + (if ram_backed t q p then 1 else 0)"
  using physical_page_in_table [of "pt_get t p"]
  by (auto simp: bump_page_def Let_def ram_backed_def bump_physical_generation_def page_index_def
      pt_get_def fun_eq_iff unat_inj_iff)

lemma bump_pages_effect:
  "pt_get (fold bump_page ps t) = pt_get t \<and>
   physical_generations (fold bump_page ps t) (unat q) =
     physical_generations t (unat q) + word_of_nat (length (filter (ram_backed t q) ps))"
proof (induction ps arbitrary: t)
  case (Cons p ps)
  have "ram_backed (bump_page p t) q = ram_backed t q"
    by (simp add: ram_backed_def bump_page_effect fun_eq_iff)
  with Cons [of "bump_page p t"] show ?case
    by (simp add: bump_page_effect)
qed simp

lemma pt_get_bump_written [simp]: "pt_get (bump_written_generations a n t) = pt_get t"
  by (simp add: bump_written_generations_def bump_pages_effect split: sum.splits)

lemma translation_bump_written [simp]:
  "paddr (bump_written_generations a n t) = paddr t"
  "granted (bump_written_generations a n t) = granted t"
  "accessible (bump_written_generations a n t) = accessible t"
  by (simp_all add: paddr_def granted_def accessible_def fun_eq_iff)

section \<open>Reading back\<close>

lemma fold_store_at:
  fixes f :: "nat \<Rightarrow> 'a"
  shows "p \<notin> f ` {..< n} \<Longrightarrow> fold (\<lambda>i r. r(f i := g i)) [0 ..< n] r p = r p"
    and "\<lbrakk>inj_on f {..< n}; i < n\<rbrakk> \<Longrightarrow> fold (\<lambda>i r. r(f i := g i)) [0 ..< n] r (f i) = g i"
proof -
  show "p \<notin> f ` {..< n} \<Longrightarrow> fold (\<lambda>i r. r(f i := g i)) [0 ..< n] r p = r p"
    by (induction n) (auto simp: lessThan_Suc)
  show "\<lbrakk>inj_on f {..< n}; i < n\<rbrakk> \<Longrightarrow> fold (\<lambda>i r. r(f i := g i)) [0 ..< n] r (f i) = g i"
  proof (induction n)
    case (Suc n)
    then have "f i \<noteq> f n" if "i \<noteq> n"
      using that by (auto simp: inj_on_def)
    with Suc show ?case
      by (cases "i = n") (auto simp: inj_on_def)
  qed simp
qed

definition unaliased :: "PageTable \<Rightarrow> GuestVa \<Rightarrow> nat \<Rightarrow> bool" where
  "unaliased t a n \<longleftrightarrow> inj_on (\<lambda>i. paddr t (a + word_of_nat i)) {..< n}"

lemma store_bytes_at:
  "unaliased t a (length bs) \<Longrightarrow> i < length bs \<Longrightarrow> store_bytes t a bs r (paddr t (a + word_of_nat i)) = bs ! i"
  unfolding store_bytes_def unaliased_def by (rule fold_store_at(2))

lemma store_bytes_other:
  "p \<notin> (\<lambda>i. paddr t (a + word_of_nat i)) ` {..< length bs} \<Longrightarrow> store_bytes t a bs r p = r p"
  unfolding store_bytes_def by (rule fold_store_at(1))

lemma load_store_bytes:
  "unaliased t a (length bs) \<Longrightarrow> load_bytes t a (length bs) (store_bytes t a bs r) = bs"
  by (auto simp: load_bytes_def store_bytes_at intro: nth_equalityI)

definition sas_solid :: "SoftwareAddressSpace \<Rightarrow> GuestVa \<Rightarrow> nat \<Rightarrow> bool" where
  "sas_solid s a n \<longleftrightarrow> in_space a n \<and> accessible (table s) (physical_len s) Read a n \<and> unaliased (table s) a n"

lemma sas_read_cases:
  obtains "in_space a n" "accessible (table s) (physical_len s) access a n"
      "sas_access_read access a n s = (Inr (load_bytes (table s) a n (ram s)), s)"
  | e where "\<not> (in_space a n \<and> accessible (table s) (physical_len s) access a n)"
      "sas_access_read access a n s = (Inl e, s)"
  using sas_access_read_ok sas_access_read_fails by metis

lemma sas_write_cases:
  obtains "in_space a (length bs)" "accessible (table s) (physical_len s) Write a (length bs)"
      "sas_access_write a bs s = (Inr (), s\<lparr>ram := store_bytes (table s) a bs (ram s),
                   table := bump_written_generations a (length bs) (table s)\<rparr>)"
  | e where "\<not> (in_space a (length bs) \<and> accessible (table s) (physical_len s) Write a (length bs))"
      "sas_access_write a bs s = (Inl e, s)"
  using sas_access_write_ok sas_access_write_fails by metis

lemma unaliased_bump [simp]:
  "unaliased (bump_written_generations a n t) = unaliased t"
  "load_bytes (bump_written_generations a n t) = load_bytes t"
  by (simp_all add: unaliased_def load_bytes_def fun_eq_iff)

interpretation sas: plain_memory sas_memory sas_solid
proof
  show "m' = m" if "gm_read sas_memory a n m = (r, m')" for a n m r m'
    using that by (cases rule: sas_read_cases [of a n m Read]) (auto simp: sas_memory_def)
  show "m' = m" if "gm_fetch sas_memory a n m = (r, m')" for a n m r m'
    using that by (cases rule: sas_read_cases [of a n m Execute]) (auto simp: sas_memory_def)
  show "length bs = n" if "gm_read sas_memory a n m = (Inr bs, m')" for a n m bs m'
    using that by (cases rule: sas_read_cases [of a n m Read]) (auto simp: sas_memory_def load_bytes_def)
  show "length bs = n" if "gm_fetch sas_memory a n m = (Inr bs, m')" for a n m bs m'
    using that by (cases rule: sas_read_cases [of a n m Execute]) (auto simp: sas_memory_def load_bytes_def)
  show "m' = m" if "gm_write sas_memory a bs m = (Inl e, m')" for a bs m e m'
    using that by (cases rule: sas_write_cases [of a bs m]) (auto simp: sas_memory_def)
  show "gm_read sas_memory a (length bs) m' = (Inr bs, m')"
    if "gm_write sas_memory a bs m = (Inr u, m')" "sas_solid m a (length bs)" for a bs m u m'
    using that sas_access_read_ok [of a "length bs" m' Read]
    by (cases rule: sas_write_cases [of a bs m])
      (auto simp: sas_memory_def sas_solid_def load_store_bytes)
  show "sas_solid m' b n = sas_solid m b n" if "gm_write sas_memory a bs m = (w, m')" for a bs m w m' b n
    using that by (cases rule: sas_write_cases [of a bs m]) (auto simp: sas_memory_def sas_solid_def)
qed

section \<open>Properties of accesses\<close>

text \<open>C7. A guest read succeeds exactly when every byte lies inside the 32-bit space, on a valid RAM page
  that grants the access, and inside physical memory; it then returns the bytes at the translated
  physical addresses, across page boundaries, and never changes the space.\<close>

theorem read_correct:
  "\<exists>e. sas_access_read access a n s =
     (if in_space a n \<and> accessible (table s) (physical_len s) access a n
      then (Inr (load_bytes (table s) a n (ram s)), s) else (Inl e, s))"
  by (cases rule: sas_read_cases [of a n s access]) auto

text \<open>C8. A guest write succeeds exactly when every byte is writable RAM.  It then equals the sequence of its
  byte stores, bumps the generations of the pages it covered and changes nothing else; a write that
  fails on any byte changes nothing at all.\<close>

theorem write_correct:
  "\<exists>e. sas_access_write a bs s =
     (if in_space a (length bs) \<and> accessible (table s) (physical_len s) Write a (length bs)
      then (Inr (), s\<lparr>ram := store_bytes (table s) a bs (ram s),
                     table := bump_written_generations a (length bs) (table s)\<rparr>)
      else (Inl e, s))"
  by (cases rule: sas_write_cases [of a bs s]) auto

lemma store_bytes_last:
  assumes "i < length bs"
    and "\<forall>j. i < j \<and> j < length bs \<longrightarrow> paddr t (a + word_of_nat j) \<noteq> paddr t (a + word_of_nat i)"
  shows "store_bytes t a bs r (paddr t (a + word_of_nat i)) = bs ! i"
proof -
  let ?f = "\<lambda>j. paddr t (a + word_of_nat j)"
  have "fold (\<lambda>j r. r(?f j := bs ! j)) [0 ..< n] r (?f i) = bs ! i" if "i < n" "n \<le> length bs" for n
    using that
  proof (induction n)
    case (Suc n)
    moreover have "?f i \<noteq> ?f n" if "i \<noteq> n"
      using that Suc.prems assms(2) [rule_format, of n] by simp
    ultimately show ?case by (cases "i = n") auto
  qed simp
  then show ?thesis using assms(1) by (simp add: store_bytes_def)
qed

text \<open>C9. Virtual aliases are coherent: after a successful write, every virtual address that maps to a
  physical address written reads back, through any mapping that grants the access, the byte stored there last:
  where several virtual pages of the written range share one physical page, a later byte of the write replaces
  an earlier one, and otherwise it is simply the written byte.\<close>

theorem write_visible_through_aliases:
  assumes "sas_access_write a bs s = (Inr (), s')" "i < length bs"
    and "\<forall>j. i < j \<and> j < length bs \<longrightarrow> paddr (table s) (a + word_of_nat j) \<noteq> paddr (table s) (a + word_of_nat i)"
    and "granted (table s) access b" "paddr (table s) b = paddr (table s) (a + word_of_nat i)"
  shows "sas_access_read access b 1 s' = (Inr [bs ! i], s')"
proof -
  have acc: "accessible (table s) (physical_len s) Write a (length bs)"
    and s': "s' = s\<lparr>ram := store_bytes (table s) a bs (ram s),
                table := bump_written_generations a (length bs) (table s)\<rparr>"
    using assms(1) by (cases rule: sas_write_cases [of a bs s]; simp)+
  have "in_space b 1"
    using unat_lt_2p32 [of b] unfolding in_space_def by linarith
  moreover have "accessible (table s') (physical_len s') access b 1"
    using acc assms(2,4,5) s' by (simp add: accessible_def)
  ultimately show ?thesis
    using store_bytes_last [OF assms(2,3)] assms(5)
    by (simp add: sas_access_read_ok) (simp add: s' load_bytes_def)
qed

lemma physical_generation_bumped:
  assumes "range_new a n = Inr r" "unat q < GUEST_PAGE_COUNT"
  shows "physical_generation (bump_written_generations a n t) q =
         map_option (\<lambda>g. g + word_of_nat (length (filter (ram_backed t q) (pages r)))) (physical_generation t q)"
  using assms bump_pages_effect [of "pages r" t q]
  by (simp add: bump_written_generations_def physical_generation_def page_index_def)

lemma page_count_le:
  assumes "range_new a n = Inr r"
  shows "length (pages r) \<le> n div 4096 + 2"
proof -
  have "page_count r = (unat a + n - 1) div 4096 - unat a div 4096 + 1"
    using assms by (auto simp: range_new_Inr_iff page_count_def end_exclusive_def nat_drop_bit)
  moreover have "unat a + n - 1 < (unat a div 4096 + n div 4096 + 2) * 4096"
    using div_mult_mod_eq [of "unat a" 4096] div_mult_mod_eq [of n 4096]
      mod_less_divisor [OF zero_less_numeral, of "unat a"] mod_less_divisor [OF zero_less_numeral, of n]
    by (simp add: distrib_right)
  then have "(unat a + n - 1) div 4096 < unat a div 4096 + n div 4096 + 2"
    by (simp add: less_mult_imp_div_less)
  moreover have "range_ok r"
    using assms by (rule range_new_ok)
  ultimately show ?thesis
    unfolding length_pages [OF \<open>range_ok r\<close>] by linarith
qed

text \<open>C10. A successful write is observed by every cache of translated code: the generation of each
  physical page it stored to differs from the one before, so a block recorded against that page no longer
  matches (for a single write of up to 128 MiB).\<close>

theorem write_changes_generations:
  assumes "sas_access_write a bs s = (Inr (), s')" "i < length bs" "length bs \<le> 0x8000000"
    and "q = physical_page (pt_get (table s) (va_page (a + word_of_nat i)))"
  shows "\<exists>g g'. physical_generation (table s) q = Some g \<and> physical_generation (table s') q = Some g' \<and> g \<noteq> g'"
proof -
  have space: "in_space a (length bs)" and acc: "accessible (table s) (physical_len s) Write a (length bs)"
    and s': "table s' = bump_written_generations a (length bs) (table s)"
    using assms(1) by (cases rule: sas_write_cases [of a bs s]; auto)+
  obtain r where r: "range_new a (length bs) = Inr r"
    using range_new_in_space [of "length bs" a] assms(2) space by (cases bs) auto
  have "unat (a + word_of_nat i) = unat a + i"
    using space assms(2) by (simp add: in_space_def unat_word_ariths unat_of_nat)
  then have "va_page (a + word_of_nat i) \<in> set (pages r)"
    using r assms(2) range_new_ok [OF r]
    by (intro va_page_in_pages) (auto simp: range_contains_def range_new_Inr_iff end_exclusive_def)
  moreover have "ram_backed (table s) q (va_page (a + word_of_nat i))"
    using acc assms(2,4) by (simp add: accessible_def granted_def ram_backed_def Let_def)
  ultimately have pos: "0 < length (filter (ram_backed (table s) q) (pages r))" (is "0 < ?k")
    by (auto simp: filter_empty_conv)
  have "?k \<le> length (bs) div 4096 + 2"
    using page_count_le [OF r] length_filter_le [of "ram_backed (table s) q" "pages r"] by linarith
  also have "\<dots> < 65536"
    using assms(3) by (simp add: less_mult_imp_div_less)
  finally have "word_of_nat ?k \<noteq> (0 :: u16)"
    using pos by (simp add: word_of_nat_eq_0_iff dvd_imp_le nat_dvd_not_less)
  moreover have "unat q < GUEST_PAGE_COUNT"
    using physical_page_in_table assms(4) by simp
  ultimately show ?thesis
    using physical_generation_bumped [OF r] by (simp add: s' physical_generation_def page_index_def)
qed

text \<open>A space with two views of physical page 2: writable at page \<open>0x10\<close>, read-only at page \<open>0x20\<close>.\<close>

definition two_views :: SoftwareAddressSpace where
  "two_views =
     \<lparr>physical_len = 0x10000, ram = (\<lambda>_. 0),
      table = \<lparr>entries = (\<lambda>i. if i = 0x10 then desc_ram 2 (READ OR WRITE) 0
                             else if i = 0x20 then desc_ram 2 READ 0 else 0),
               physical_generations = (\<lambda>_. 0)\<rparr>,
      allocator = pa_new 16, mapping_epoch = 0\<rparr>"

lemma two_views_table [simp]:
  "pt_get (table two_views) 0x10 = desc_ram 2 (READ OR WRITE) 0"
  "pt_get (table two_views) 0x20 = desc_ram 2 READ 0"
  "physical_len two_views = 0x10000"
  by (simp_all add: two_views_def pt_get_def page_index_def)

lemma two_views_write:
  "\<exists>s'. sas_access_write 0x10FF0 [7, 9] two_views = (Inr (), s')"
  "granted (table two_views) Read 0x20FF1"
  "paddr (table two_views) 0x20FF1 = paddr (table two_views) (0x10FF0 + 1)"
proof -
  have page: "va_page 0x10FF0 = 0x10" "va_page 0x10FF1 = 0x10" "va_page 0x20FF1 = 0x20"
      "page_offset 0x10FF0 = 0xFF0" "page_offset 0x10FF1 = 0xFF1" "page_offset 0x20FF1 = 0xFF1"
    by (simp_all add: va_page_def page_offset_def)
  have "accessible (table two_views) (physical_len two_views) Write 0x10FF0 (length [7, 9 :: u8])"
    by (auto simp: accessible_def less_Suc_eq granted_def paddr_def page desc_ram_fields perm_contains_def Let_def)
  then show "\<exists>s'. sas_access_write 0x10FF0 [7, 9] two_views = (Inr (), s')"
    using sas_access_write_ok [of "0x10FF0" "[7, 9]" two_views] by (simp add: in_space_def)
  show "granted (table two_views) Read 0x20FF1"
    by (simp add: granted_def page desc_ram_fields perm_contains_def)
  show "paddr (table two_views) 0x20FF1 = paddr (table two_views) (0x10FF0 + 1)"
    by (simp add: paddr_def page desc_ram_fields)
qed

theorem write_visible_through_aliases_witness:
  "\<exists>s'. sas_access_write 0x10FF0 [7, 9] two_views = (Inr (), s') \<and>
        sas_access_read Read 0x20FF1 1 s' = (Inr [9], s')"
proof -
  obtain s' where s': "sas_access_write 0x10FF0 [7, 9] two_views = (Inr (), s')"
    using two_views_write(1) by blast
  have "sas_access_read Read 0x20FF1 1 s' = (Inr [[7, 9] ! 1], s')"
    by (rule write_visible_through_aliases [OF s']) (use two_views_write in auto)
  with s' show ?thesis
    by auto
qed

theorem write_changes_generations_witness:
  "\<exists>s' g g'. sas_access_write 0x10FF0 [7, 9] two_views = (Inr (), s') \<and>
     physical_generation (table two_views) 2 = Some g \<and> physical_generation (table s') 2 = Some g' \<and> g \<noteq> g'"
proof -
  obtain s' where s': "sas_access_write 0x10FF0 [7, 9] two_views = (Inr (), s')"
    using two_views_write(1) by blast
  have "va_page (0x10FF0 + word_of_nat 0) = 0x10"
    by (simp add: va_page_def)
  then have "2 = physical_page (pt_get (table two_views) (va_page (0x10FF0 + word_of_nat 0)))"
    by (simp add: desc_ram_fields)
  from write_changes_generations [OF s' _ _ this] s' show ?thesis
    by auto
qed

end
