(* ===== verification/Space_Mapping.thy ===== *)
theory Space_Mapping
  imports Software_Space
begin

text \<open>
  The mapping operations of the software address space: anonymous mappings, loaded regions, reserving
  and freeing physical memory.  Their definitions are in \<open>Software_Space\<close>; here are the invariant that
  ties the allocator to physical memory and the contract of each operation.
\<close>

definition sas_inv :: "SoftwareAddressSpace \<Rightarrow> bool" where
  "sas_inv s \<longleftrightarrow> alloc_inv (allocator s) \<and> physical_len s = unat (pa_page_count (allocator s)) * 4096 \<and>
     unat (pa_page_count (allocator s)) \<le> GUEST_PAGE_COUNT"

lemma sas_new_inv: "sas_new host n = Inr s \<Longrightarrow> sas_inv s"
  by (auto simp: sas_new_def bind_r_Inr_iff ok_or_def sas_inv_def u32_try_from_def unat_of_nat
      split: if_splits option.splits)

section \<open>The pages of an aligned range\<close>

lemma unat_page_start: "unat p < GUEST_PAGE_COUNT \<Longrightarrow> unat (page_start p) = unat p * 4096"
  by (simp add: page_start_def push_bit_eq_mult unat_word_ariths)

lemma page_count_div: "page_count r = (end_exclusive r - 1) div 4096 - unat (gr_start r) div 4096 + 1"
  by (simp add: page_count_def nat_drop_bit Let_def)

lemma aligned_byte:
  assumes "range_ok r" "require_page_alignment r = Inr ()" "i < gr_len r"
  shows "i div 4096 < page_count r" "va_page (gr_start r + word_of_nat i) = pages r ! (i div 4096)"
    "unat (page_offset (gr_start r + word_of_nat i)) = i mod 4096"
proof -
  have start: "unat (gr_start r) mod 4096 = 0" "gr_len r mod 4096 = 0"
    using assms(2) by (auto simp: require_page_alignment_iff)
  have bound: "unat (gr_start r) + gr_len r \<le> 4294967296"
    using assms(1) by (simp add: range_ok_def end_exclusive_def)
  then have sum: "unat (gr_start r + word_of_nat i) = unat (gr_start r) + i"
    using assms(3) by (simp add: unat_word_ariths unat_of_nat)
  have split: "(unat (gr_start r) + i) div 4096 = unat (gr_start r) div 4096 + i div 4096"
    using start(1) by (auto simp: div_add)
  have last: "(unat (gr_start r) + i) div 4096 \<le> (end_exclusive r - 1) div 4096"
    using assms(3) by (intro div_le_mono) (simp add: end_exclusive_def)
  then show count: "i div 4096 < page_count r"
    using split page_count_div [of r] by linarith
  have "unat (pages r ! (i div 4096)) = map unat (pages r) ! (i div 4096)"
    using count by (simp add: length_pages [OF assms(1)])
  also have "\<dots> = unat (gr_start r) div 4096 + i div 4096"
    unfolding pages_upt [OF assms(1)] using last split by (intro nth_upt) linarith
  finally show "va_page (gr_start r + word_of_nat i) = pages r ! (i div 4096)"
    using split sum by (simp add: unat_inj_iff [symmetric] unat_va_page)
  show "unat (page_offset (gr_start r + word_of_nat i)) = i mod 4096"
    using start(1) sum by (simp add: unat_page_offset mod_add_eq [symmetric])
qed

text \<open>What a table looks like after a range has been mapped to a run of physical pages.\<close>

definition maps_run :: "PageTable \<Rightarrow> GuestRange \<Rightarrow> GuestPage \<Rightarrow> MemoryPermissions \<Rightarrow> bool" where
  "maps_run t r q perms \<longleftrightarrow>
     (\<forall>i < gr_len r. paddr t (gr_start r + word_of_nat i) = unat q * 4096 + i \<and>
        (\<forall>access. perm_contains (take_bit 3 perms) (required_permission access) \<longrightarrow>
           granted t access (gr_start r + word_of_nat i)))"

lemma map_ram_maps_run:
  assumes "range_ok r" "map_ram r q perms t = (Inr u, t')"
  shows "maps_run t' r q perms"
  unfolding maps_run_def
proof (intro allI impI)
  fix i
  assume "i < gr_len r"
  note ok = map_ram_ok [OF assms(2,1)]
  have align: "require_page_alignment r = Inr ()" and fit: "unat q + page_count r \<le> GUEST_PAGE_COUNT"
    using ok(1) by (auto simp: map_ram_ready_def)
  note byte = aligned_byte [OF assms(1) align \<open>i < gr_len r\<close>]
  have q: "unat (q + word_of_nat (i div 4096)) = unat q + i div 4096"
    using byte(1) fit by (simp add: unat_word_ariths unat_of_nat)
  then have "take_bit 20 (q + word_of_nat (i div 4096)) = q + word_of_nat (i div 4096)"
    using byte(1) fit by (intro take_bit_20_page) simp
  then show "paddr t' (gr_start r + word_of_nat i) = unat q * 4096 + i \<and>
      (\<forall>access. perm_contains (take_bit 3 perms) (required_permission access) \<longrightarrow>
         granted t' access (gr_start r + word_of_nat i))"
    using byte ok(3) [OF byte(1)] q
    by (simp add: paddr_def granted_def desc_ram_fields Let_def distrib_right)
qed

section \<open>Anonymous mappings\<close>

lemma map_anonymous_unfold:
  assumes "range_ok r"
  shows "map_anonymous r perms s =
    (case require_page_alignment r of
       Inl e \<Rightarrow> (Inl (Address e), s)
     | Inr _ \<Rightarrow>
       (case allocate (word_of_nat (page_count r)) (allocator s) of
          (Inl e, A) \<Rightarrow> (Inl e, s)
        | (Inr page, A) \<Rightarrow>
            (case map_ram r page perms (table s) of
               (Inl e, t) \<Rightarrow> (Inl e, s\<lparr>allocator := rollback_last page (word_of_nat (page_count r)) A\<rparr>)
             | (Inr _, t) \<Rightarrow> (Inr (page_start page), bump_mapping_epoch (s\<lparr>table := t, allocator := A\<rparr>)))))"
proof -
  have "u32_try_from (page_count r) = Some (word_of_nat (page_count r))"
    using page_count_bound [OF assms] by (simp add: u32_try_from_def)
  then show ?thesis
    by (auto simp: map_anonymous_def bind_s_def gets_r_def map_err_def allocate_fails
        split: sum.split prod.split dest: map_ram_error [OF _ assms])
qed

lemma map_anonymous_ok:
  assumes "sas_inv s" "range_ok r" "map_anonymous r perms s = (Inr pa, s')"
  shows "sas_inv s' \<and> ram s' = ram s \<and> physical_len s' = physical_len s \<and>
    (\<exists>q. unat pa = unat q * 4096 \<and>
         run q (word_of_nat (page_count r)) \<subseteq> available (allocator s) \<and>
         available (allocator s') = available (allocator s) - run q (word_of_nat (page_count r)) \<and>
         maps_run (table s') r q perms \<and>
         (\<forall>p. p \<notin> set (pages r) \<longrightarrow> pt_get (table s') p = pt_get (table s) p))"
proof -
  let ?n = "word_of_nat (page_count r) :: u32"
  obtain q A t where a: "allocate ?n (allocator s) = (Inr q, A)"
    and m: "map_ram r q perms (table s) = (Inr (), t)"
    and res: "pa = page_start q" "s' = bump_mapping_epoch (s\<lparr>table := t, allocator := A\<rparr>)"
    using assms(3) by (auto simp: map_anonymous_unfold [OF assms(2)] split: sum.splits prod.splits)
  have inv: "alloc_inv (allocator s)"
    using assms(1) by (simp add: sas_inv_def)
  note al = allocate_ok [OF inv a]
  note ok = map_ram_ok [OF m assms(2)]
  have "unat q + page_count r \<le> GUEST_PAGE_COUNT" "0 < page_count r"
    using ok(1) by (auto simp: map_ram_ready_def page_count_div)
  then have "unat pa = unat q * 4096"
    using res(1) by (simp add: unat_page_start)
  moreover have "sas_inv s'"
    using al res(2) assms(1) by (simp add: sas_inv_def bump_mapping_epoch_def)
  ultimately show ?thesis
    using al res(2) map_ram_maps_run [OF assms(2) m] ok(4) by (auto simp: bump_mapping_epoch_def)
qed

lemma map_anonymous_error:
  assumes "sas_inv s" "range_ok r" "map_anonymous r perms s = (Inl e, s')"
  shows "sas_inv s' \<and> ram s' = ram s \<and> table s' = table s \<and> mapping_epoch s' = mapping_epoch s \<and>
         available (allocator s') = available (allocator s)"
proof -
  let ?n = "word_of_nat (page_count r) :: u32"
  have inv: "alloc_inv (allocator s)"
    using assms(1) by (simp add: sas_inv_def)
  show ?thesis
  proof (cases "require_page_alignment r")
    case (Inl e')
    then show ?thesis
      using assms(1,3) by (simp add: map_anonymous_unfold [OF assms(2)])
  next
    case (Inr u)
    then obtain q A where a: "s' = s \<or> allocate ?n (allocator s) = (Inr q, A) \<and>
        s' = s\<lparr>allocator := rollback_last q ?n A\<rparr>"
      using assms(3) by (auto simp: map_anonymous_unfold [OF assms(2)] split: sum.splits prod.splits)
    then show ?thesis
    proof
      assume a: "allocate ?n (allocator s) = (Inr q, A) \<and> s' = s\<lparr>allocator := rollback_last q ?n A\<rparr>"
      then have "alloc_inv (rollback_last q ?n A) \<and> available (rollback_last q ?n A) = available (allocator s)"
        using tail_alloc.undo [OF inv] by blast
      moreover have "pa_page_count A = pa_page_count (allocator s)"
        using allocate_limit a by blast
      ultimately show ?thesis
        using a assms(1) by (simp add: sas_inv_def)
    qed (use assms(1) in simp)
  qed
qed

section \<open>Loaded regions\<close>

lemma nat_clear_low12:
  assumes "x < 18446744073709551616"
  shows "x AND 18446744073709547520 = x div 4096 * (4096 :: nat)"
proof -
  have "x AND 18446744073709547520 = push_bit 12 (drop_bit 12 x)"
  proof (rule bit_eqI)
    fix k
    have m: "(18446744073709547520 :: nat) = push_bit 12 (mask 52)"
      by (simp add: mask_eq_exp_minus_1 push_bit_eq_mult)
    have "k < 64" if "bit x k"
    proof -
      have "take_bit 64 x = x"
        using assms by (intro take_bit_nat_eq_self) simp
      with that show ?thesis
        by (metis bit_take_bit_iff)
    qed
    then show "bit (x AND 18446744073709547520) k = bit (push_bit 12 (drop_bit 12 x)) k"
      unfolding m by (auto simp: bit_simps)
  qed
  then show ?thesis
    by (simp add: push_bit_eq_mult drop_bit_eq_div)
qed

lemma align_up_page:
  assumes "align_up v 4096 = Inr n"
  shows "v \<le> n" "n mod 4096 = 0"
proof -
  have "n = (v + 4095) div 4096 * 4096"
    using assms by (auto simp: align_up_def ok_or_def usize_checked_add_def nat_clear_low12 split: if_splits)
  then show "v \<le> n" "n mod 4096 = 0"
    using div_mult_mod_eq [of "v + 4095" 4096] mod_less_divisor [OF zero_less_numeral, of "v + 4095"]
    by simp_all
qed

lemma maps_run_accessible:
  assumes "maps_run t r q perms" "perm_contains (take_bit 3 perms) (required_permission access)"
    and "unat q * 4096 + gr_len r \<le> plen" "n \<le> gr_len r"
  shows "accessible t plen access (gr_start r) n"
  using assms by (auto simp: maps_run_def accessible_def)

lemma maps_run_unaliased: "maps_run t r q perms \<Longrightarrow> n \<le> gr_len r \<Longrightarrow> unaliased t (gr_start r) n"
  by (auto simp: maps_run_def unaliased_def inj_on_def)

lemma maps_run_bump: "maps_run (bump_written_generations a n t) r q perms = maps_run t r q perms"
  by (simp add: maps_run_def)

lemma protect_maps_run:
  assumes "range_ok r" "protect r perms t = (Inr u, t')" "maps_run t r q perms0"
    and "perm_contains (take_bit 3 perms0) WRITE"
  shows "maps_run t' r q perms"
  unfolding maps_run_def
proof (intro allI impI)
  fix i
  assume i: "i < gr_len r"
  have align: "require_page_alignment r = Inr ()"
    using assms(2) by (auto simp: protect_def bind_s_def gets_r_def map_err_def split: sum.splits)
  note byte = aligned_byte [OF assms(1) align i]
  have "va_page (gr_start r + word_of_nat i) \<in> set (pages r)"
    using byte length_pages [OF assms(1)] by simp
  then have d: "pt_get t' (va_page (gr_start r + word_of_nat i)) =
      with_permissions (pt_get t (va_page (gr_start r + word_of_nat i))) perms"
    using checked_update_get(1) [OF assms(1) assms(2) [unfolded table_ops_checked_update]] by simp
  have "granted t Write (gr_start r + word_of_nat i)"
    using assms(3,4) i by (simp add: maps_run_def)
  then show "paddr t' (gr_start r + word_of_nat i) = unat q * 4096 + i \<and>
      (\<forall>access. perm_contains (take_bit 3 perms) (required_permission access) \<longrightarrow>
         granted t' access (gr_start r + word_of_nat i))"
    using assms(3) i by (auto simp: maps_run_def paddr_def granted_def d with_permissions_fields Let_def)
qed

lemma perm_contains_WRITE: "perm_contains (take_bit 3 (perms OR WRITE)) WRITE"
proof -
  have two: "WRITE = push_bit 1 1"
    by simp
  show ?thesis
    unfolding perm_contains_def two by (rule bit_word_eqI) (auto simp: bit_simps)
qed

lemma aligned_len:
  assumes "range_ok r" "require_page_alignment r = Inr ()"
  shows "gr_len r = page_count r * 4096"
proof -
  obtain k m where k: "unat (gr_start r) = k * 4096" "gr_len r = m * 4096" "0 < m"
    using assms by (auto simp: require_page_alignment_iff range_ok_def elim!: dvdE simp flip: dvd_eq_mod_eq_0)
  have "(end_exclusive r - 1) div 4096 = k + m - 1"
    by (rule div_nat_eqI) (use k in \<open>auto simp: end_exclusive_def algebra_simps\<close>)
  then show ?thesis
    using k by (simp add: page_count_div)
qed

lemma run_in_memory:
  assumes "sas_inv s" "range_ok r" "require_page_alignment r = Inr ()"
    and "run q (word_of_nat (page_count r)) \<subseteq> available (allocator s)"
  shows "unat q * 4096 + gr_len r \<le> physical_len s"
proof -
  have n: "unat (word_of_nat (page_count r) :: u32) = page_count r" "0 < page_count r"
    using page_count_bound [OF assms(2)] by (simp add: unat_of_nat) (simp add: page_count_div)
  then have "unat q + page_count r - 1 \<in> run q (word_of_nat (page_count r))"
    by (simp add: run_def)
  then have "unat q + page_count r - 1 < unat (pa_page_count (allocator s))"
    using assms(1,4) pool_alloc.avail_bound [of "allocator s"] by (auto simp: sas_inv_def)
  moreover have "gr_len r \<le> page_count r * 4096"
    using aligned_byte(1) [OF assms(2,3), of "gr_len r - 1"]
    by (cases "gr_len r") (auto simp: div_less_iff_less_mult)
  ultimately show ?thesis
    using assms(1) by (simp add: sas_inv_def)
qed

lemma maps_run_valid:
  assumes "range_ok r" "require_page_alignment r = Inr ()" "maps_run t r q perms"
    and "perm_contains (take_bit 3 perms) WRITE" "p \<in> set (pages r)"
  shows "is_valid (pt_get t p)"
proof -
  obtain k where k: "k < page_count r" "p = pages r ! k"
    using assms(5) by (auto simp: in_set_conv_nth length_pages [OF assms(1)])
  then have i: "k * 4096 < gr_len r"
    by (simp add: aligned_len [OF assms(1,2)])
  have "granted t Write (gr_start r + word_of_nat (k * 4096))"
    using assms(3,4) i unfolding maps_run_def by fastforce
  then show ?thesis
    using aligned_byte(2) [OF assms(1,2) i] k(2) by (simp add: granted_def Let_def)
qed

lemma map_anonymous_succeeds:
  assumes "sas_inv s" "range_ok r" "require_page_alignment r = Inr ()"
    and "\<forall>p \<in> set (pages r). \<not> is_valid (pt_get (table s) p)"
    and "unat (next_page (allocator s)) + page_count r \<le> unat (pa_page_count (allocator s))"
  shows "\<exists>pa s'. map_anonymous r perms s = (Inr pa, s')"
proof -
  let ?n = "word_of_nat (page_count r) :: u32"
  have n: "unat ?n = page_count r"
    using page_count_bound [OF assms(2)] by (simp add: unat_of_nat)
  have inv: "alloc_inv (allocator s)"
    using assms(1) by (simp add: sas_inv_def)
  obtain q A where a: "allocate ?n (allocator s) = (Inr q, A)"
    using allocate_fails [of ?n "allocator s"] assms(5) n by (cases "allocate ?n (allocator s)" rule: prod.exhaust)
      (metis not_le sum.exhaust)
  have "unat q + page_count r \<le> GUEST_PAGE_COUNT"
    using run_in_memory [OF assms(1-3), of q] allocate_ok [OF inv a] assms(1)
      aligned_len [OF assms(2,3)] by (simp add: sas_inv_def)
  then have "map_ram_ready r q (table s)"
    using assms(3,4) by (simp add: map_ram_ready_def)
  from map_ram_run [OF assms(2) this, of perms] a assms(3) show ?thesis
    by (auto simp: map_anonymous_unfold [OF assms(2)])
qed

lemma load_region_succeeds:
  assumes "sas_inv s" "range_ok r" "align_up (unat sz) 4096 = Inr (gr_len r)"
    and "require_page_alignment r = Inr ()" "length initial \<le> unat sz"
    and "\<forall>p \<in> set (pages r). \<not> is_valid (pt_get (table s) p)"
    and "unat (next_page (allocator s)) + page_count r \<le> unat (pa_page_count (allocator s))"
  shows "\<exists>pa s'. load_region (gr_start r) sz initial perms s = (Inr pa, s')"
proof -
  have r: "page_aligned (gr_start r) (gr_len r) = Inr r"
    using assms(2,4)
    by (auto simp: page_aligned_Inr_iff range_new_Inr_iff require_page_alignment_iff range_ok_def end_exclusive_def)
  obtain pa s1 where m: "map_anonymous r (perms OR WRITE) s = (Inr pa, s1)"
    using map_anonymous_succeeds [OF assms(1,2,4,6,7)] by blast
  obtain q where run: "run q (word_of_nat (page_count r)) \<subseteq> available (allocator s)"
    and maps: "maps_run (table s1) r q (perms OR WRITE)" and plen: "physical_len s1 = physical_len s"
    using map_anonymous_ok [OF assms(1,2) m] by blast
  have "accessible (table s1) (physical_len s1) Write (gr_start r) (length initial)"
    using maps_run_accessible [OF maps, of Write] perm_contains_WRITE run_in_memory [OF assms(1,2,4) run] plen
      assms(5) align_up_page(1) [OF assms(3)] by simp
  moreover have "in_space (gr_start r) (length initial)"
    using assms(2,5) align_up_page(1) [OF assms(3)] by (simp add: in_space_def range_ok_def end_exclusive_def)
  ultimately obtain s2 where w: "sas_access_write (gr_start r) initial s1 = (Inr (), s2)"
      "pt_get (table s2) = pt_get (table s1)"
    using sas_access_write_ok by fastforce
  have "is_valid (pt_get (table s2) p)" if "p \<in> set (pages r)" for p
    using maps_run_valid [OF assms(2,4) maps _ that] w(2) perm_contains_WRITE by simp
  then have "find (\<lambda>p. \<not> is_valid (pt_get (table s2) p)) (pages r) = None"
    by (auto simp: find_None_iff)
  then obtain s3 where "sas_protect r perms s2 = (Inr (), s3)"
    using assms(4) by (auto simp: sas_protect_def on_table_def protect_def bind_s_def split: prod.splits)
  then show ?thesis
    using assms(3,5) r m w by (simp add: load_region_def bind_s_def ret_def)
qed

text \<open>C12. Loading a region succeeds only if its bytes then read back through the new mapping: when the
  final permissions allow reading, the first bytes of the region are the initial bytes, even though the
  pages were writable only while they were filled.\<close>

theorem load_region_reads_back:
  assumes "sas_inv s" "load_region a sz initial perms s = (Inr pa, s')" "perm_contains (take_bit 3 perms) READ"
  shows "sas_access_read Read a (length initial) s' = (Inr initial, s')"
proof -
  obtain n r s1 s2 where n: "align_up (unat sz) 4096 = Inr n" and r: "page_aligned a n = Inr r"
    and m: "map_anonymous r (perms OR WRITE) s = (Inr pa, s1)"
    and w: "sas_access_write a initial s1 = (Inr (), s2)"
    and p: "sas_protect r perms s2 = (Inr (), s')" and len: "length initial \<le> unat sz"
    using assms(2)
    by (auto simp: load_region_def bind_s_Inr_iff map_err_Inr_iff simp del: bind_s_gets_r split: if_splits)
  have ok: "range_ok r" and start: "gr_start r = a" "gr_len r = n"
    using r by (auto simp: page_aligned_Inr_iff range_new_Inr_iff intro: range_new_ok)
  obtain q where run: "run q (word_of_nat (page_count r)) \<subseteq> available (allocator s)"
    and maps: "maps_run (table s1) r q (perms OR WRITE)" and plen: "physical_len s1 = physical_len s"
    using map_anonymous_ok [OF assms(1) ok m] by blast
  have bound: "unat q * 4096 + gr_len r \<le> physical_len s"
    using run_in_memory [OF assms(1) ok _ run] r by (simp add: page_aligned_Inr_iff require_page_alignment_iff start)
  have s2: "s2 = s1\<lparr>ram := store_bytes (table s1) a initial (ram s1),
      table := bump_written_generations a (length initial) (table s1)\<rparr>"
    using w by (cases rule: sas_write_cases [of a initial s1]) auto
  obtain t where t: "protect r perms (table s2) = (Inr (), t)" and s': "s' = bump_mapping_epoch (s2\<lparr>table := t\<rparr>)"
    using p by (auto simp: sas_protect_def bind_s_def on_table_def modify_def split: prod.splits sum.splits)
  have wr: "perm_contains (take_bit 3 (perms OR WRITE)) WRITE"
    by (rule perm_contains_WRITE)
  have final: "maps_run t r q perms"
    using protect_maps_run [OF ok t _ wr] maps by (simp add: s2 maps_run_bump)
  have "paddr t (a + word_of_nat i) = paddr (table s1) (a + word_of_nat i)" if "i < length initial" for i
    using final maps that len align_up_page(1) [OF n] start by (simp add: maps_run_def)
  then have "load_bytes t a (length initial) = load_bytes (table s1) a (length initial)"
    by (simp add: load_bytes_def fun_eq_iff)
  moreover have "accessible t (physical_len s') Read a (length initial)"
    using maps_run_accessible [OF final, of Read] assms(3) bound plen len align_up_page(1) [OF n] start
    by (simp add: s' s2 bump_mapping_epoch_def)
  moreover have "in_space a (length initial)"
    using ok len align_up_page(1) [OF n] start by (simp add: in_space_def range_ok_def end_exclusive_def)
  moreover have "unaliased (table s1) a (length initial)"
    using maps_run_unaliased [OF maps] len align_up_page(1) [OF n] start by simp
  ultimately show ?thesis
    using sas_access_read_ok [of a "length initial" s' Read]
    by (simp add: s' s2 bump_mapping_epoch_def load_store_bytes)
qed

text \<open>A fresh space with sixteen pages of memory, and a two-page range in it.\<close>

definition fresh16 :: SoftwareAddressSpace where
  "fresh16 = \<lparr>physical_len = 0x10000, ram = (\<lambda>_. 0), table = pt_new, allocator = pa_new 16, mapping_epoch = 0\<rparr>"

definition two_pages :: GuestRange where
  "two_pages = \<lparr>gr_start = 0x10000, gr_len = 0x2000\<rparr>"

lemma next_page_new: "next_page (pa_new n) = 0"
  by (simp add: pa_new_def)

lemma fresh16_ready:
  "sas_inv fresh16" "range_ok two_pages" "require_page_alignment two_pages = Inr ()" "page_count two_pages = 2"
  "\<forall>p \<in> set (pages two_pages). \<not> is_valid (pt_get (table fresh16) p)"
  "unat (next_page (allocator fresh16)) + page_count two_pages \<le> unat (pa_page_count (allocator fresh16))"
  by (simp_all add: sas_inv_def fresh16_def two_pages_def range_ok_def end_exclusive_def
      require_page_alignment_iff page_count_div is_valid_iff pt_new_def pt_get_def next_page_new)

theorem load_region_reads_back_witness:
  "\<exists>pa s'. load_region 0x10000 0x1800 [1, 2, 3] READ fresh16 = (Inr pa, s') \<and>
           sas_access_read Read 0x10000 3 s' = (Inr [1, 2, 3], s')"
proof -
  have "align_up (unat (0x1800 :: u32)) 4096 = Inr (gr_len two_pages)"
    by (simp add: align_up_def two_pages_def ok_or_def usize_checked_add_def nat_clear_low12)
  from load_region_succeeds [OF fresh16_ready(1,2) this fresh16_ready(3) _ fresh16_ready(5,6),
      where initial = "[1, 2, 3]" and perms = READ]
  obtain pa s' where run: "load_region 0x10000 0x1800 [1, 2, 3] READ fresh16 = (Inr pa, s')"
    by (auto simp: two_pages_def)
  have "sas_access_read Read 0x10000 (length [1, 2, 3 :: u8]) s' = (Inr [1, 2, 3], s')"
    by (rule load_region_reads_back [OF fresh16_ready(1) run])
      (simp add: perm_contains_def take_bit_eq_mask mask_eq_exp_minus_1)
  with run show ?thesis
    by (auto simp: numeral_3_eq_3)
qed

text \<open>C11. An anonymous mapping either backs the whole range with pages that were available, at consecutive
  physical addresses, and takes exactly those pages, or fails and leaves the table, the memory and the
  set of available pages as they were; pages outside the range are never touched.\<close>

theorem map_anonymous_correct:
  assumes "sas_inv s" "range_ok r" "map_anonymous r perms s = (res, s')"
  shows "sas_inv s' \<and> ram s' = ram s \<and>
    (\<forall>e. res = Inl e \<longrightarrow> table s' = table s \<and> available (allocator s') = available (allocator s)) \<and>
    (\<forall>pa. res = Inr pa \<longrightarrow>
       (\<exists>q. unat pa = unat q * 4096 \<and>
          run q (word_of_nat (page_count r)) \<subseteq> available (allocator s) \<and>
          available (allocator s') = available (allocator s) - run q (word_of_nat (page_count r)) \<and>
          maps_run (table s') r q perms) \<and>
       (\<forall>p. p \<notin> set (pages r) \<longrightarrow> pt_get (table s') p = pt_get (table s) p))"
  using map_anonymous_ok [OF assms(1,2)] map_anonymous_error [OF assms(1,2)] assms(3)
  by (cases res) blast+

theorem map_anonymous_correct_witness:
  "\<exists>pa s' q. map_anonymous two_pages READ fresh16 = (Inr pa, s') \<and> maps_run (table s') two_pages q READ \<and>
     available (allocator s') = {..< 16} - run q 2"
proof -
  obtain pa s' where run: "map_anonymous two_pages READ fresh16 = (Inr pa, s')"
    using map_anonymous_succeeds [OF fresh16_ready(1-3,5,6)] by blast
  have "available (allocator fresh16) = {..< 16}"
    by (simp add: fresh16_def)
  with run map_anonymous_correct [OF fresh16_ready(1,2) run] show ?thesis
    by (auto simp: fresh16_ready(4))
qed

section \<open>Reserving and freeing physical memory\<close>

lemma allocate_one_pool:
  assumes "alloc_inv A" "allocate 1 A = (Inr p, A')" "free_runs A \<noteq> []"
  shows "next_page A' = next_page A"
proof -
  obtain s l m where m: "free_runs A = (s, l) # m"
    using assms(3) by (cases "free_runs A") auto
  then have "0 < unat l"
    using assms(1) runs_okD(1) [of _ "set (free_runs A)" s l] by (auto simp: alloc_inv_def)
  then have "1 \<le> l"
    by (simp add: word_le_nat_alt Suc_leI)
  with assms(2) m show ?thesis
    by (auto simp: allocate_def Let_def)
qed

lemma reserve_loop_correct:
  assumes "alloc_inv A" "target \<le> pa_page_count A" "next_page A < target"
  shows "alloc_inv (reserve_loop target A) \<and> pa_page_count (reserve_loop target A) = pa_page_count A \<and>
         available (reserve_loop target A) = {unat target ..< unat (pa_page_count A)}"
  using assms
proof (induction target A rule: reserve_loop.induct)
  case (1 target A)
  obtain res A' where a: "allocate 1 A = (res, A')"
    by fastforce
  obtain p where p: "res = Inr p"
    using a 1(3,4) allocate_fails [of 1 A _ A'] by (cases res) (auto simp: word_less_nat_alt word_le_nat_alt)
  note ok = allocate_ok [OF 1(2) a [unfolded p]]
  have step: "reserve_loop target A = reserve_loop target A'"
    using 1(4) a p by (subst reserve_loop.simps) simp
  show ?case
  proof (cases "next_page A' < target")
    case True
    then show ?thesis
      using 1(1) [OF 1(4) a [symmetric] p] ok 1(3) step by simp
  next
    case False
    then have "free_runs A = []"
      using allocate_one_pool [OF 1(2) a [unfolded p]] 1(4) by metis
    then have A': "A' = A\<lparr>next_page := next_page A + 1\<rparr>" "unat (next_page A) + 1 < 4294967296"
      using a p by (auto simp: allocate_def checked_add_def split: if_splits)
    then have "unat (next_page A + 1) = unat target"
      using False 1(4) by (simp add: unat_plus_no_overflow word_less_nat_alt)
    moreover have "reserve_loop target A' = A'"
      using False by (subst reserve_loop.simps) simp
    ultimately show ?thesis
      using step ok A' \<open>free_runs A = []\<close> by (simp add: available_def)
  qed
qed

text \<open>C13. Reserving physical memory through an address terminates and, when the allocator has not yet passed
  that address, leaves exactly the pages from it to the end of memory available: every page below is
  spoken for, freed runs included.\<close>

theorem reserve_through_correct:
  assumes "sas_inv s" "target = min (div_ceil_pages limit) (pa_page_count (allocator s))"
    and "next_page (allocator s) < target"
  shows "sas_inv (reserve_physical_through limit s) \<and>
         available (allocator (reserve_physical_through limit s)) =
           {unat target ..< unat (pa_page_count (allocator s))}"
proof -
  have "alloc_inv (allocator s)" "target \<le> pa_page_count (allocator s)"
    using assms(1,2) by (simp_all add: sas_inv_def)
  from reserve_loop_correct [OF this assms(3)] assms(1,2) show ?thesis
    by (simp add: reserve_physical_through_def Let_def sas_inv_def)
qed

theorem reserve_through_correct_witness:
  "available (allocator (reserve_physical_through 0x4800 fresh16)) = {5 ..< 16}"
proof -
  have "next_page (allocator fresh16) < min (div_ceil_pages 0x4800) (pa_page_count (allocator fresh16))"
      "unat (min (div_ceil_pages 0x4800) (pa_page_count (allocator fresh16))) = 5"
    by (simp_all add: fresh16_def next_page_new div_ceil_pages_def)
  with reserve_through_correct [OF fresh16_ready(1) refl, of "0x4800"] show ?thesis
    by (simp add: fresh16_def)
qed

text \<open>When the allocator has already passed the address, freed pages below it stay available, although
  the function promises that every page below the address is spoken for: the next allocation hands one out.\<close>

lemma reserve_through_leaves_freed_pages:
  "let s = fresh16\<lparr>allocator := \<lparr>next_page = 8, pa_page_count = 16, free_runs = [(2, 3)]\<rparr>\<rparr>;
       s' = reserve_physical_through 0x8000 s
   in sas_inv s \<and> s' = s \<and> fst (allocate_physical 0x1000 s') = Inr 0x2000"
  by (auto simp: Let_def sas_inv_def fresh16_def alloc_inv_def runs_ok_def bt_sorted_def
      reserve_physical_through_def div_ceil_pages_def reserve_loop.simps allocate_physical_def
      allocate_def bt_remove_def page_start_def)

text \<open>C14. Freeing physical memory that was handed out makes exactly those pages available again and scrubs
  them: every byte of the freed pages is zero afterwards, and no other byte of memory changes.\<close>

theorem free_physical_correct:
  assumes "sas_inv s" "count = div_ceil_pages (max bytes 1)" "first = start div 4096"
    and "run first count \<inter> available (allocator s) = {}"
    and "run first count \<subseteq> {..< unat (pa_page_count (allocator s))}"
  shows "let s' = free_physical start bytes s in
     sas_inv s' \<and> available (allocator s') = available (allocator s) \<union> run first count \<and>
     (\<forall>a. ram s' a = (if a div 4096 \<in> run first count then 0 else ram s a))"
proof -
  have "0 < (unat (max bytes 1) + 4095) div 4096"
    by (auto simp: max_def word_le_nat_alt div_greater_zero_iff)
  moreover have "unat (max bytes 1) + 4095 < 4294967296 * 4096"
    using unat_lt_2p32 [of "max bytes 1"] by linarith
  then have "(unat (max bytes 1) + 4095) div 4096 < 4294967296"
    by (rule less_mult_imp_div_less)
  ultimately have pos: "0 < unat count"
    by (simp add: assms(2) div_ceil_pages_def unat_of_nat)
  then have "unat first + unat count - 1 \<in> run first count"
    by (simp add: run_def)
  then have "unat first + unat count - 1 < unat (pa_page_count (allocator s))"
    using assms(5) by auto
  then have fits: "unat first * 4096 + unat count * 4096 \<le> physical_len s"
    using assms(1) pos by (simp add: sas_inv_def)
  have bytes: "a div 4096 \<in> run first count \<longleftrightarrow>
      unat first * 4096 \<le> a \<and> a < unat first * 4096 + unat count * 4096" for a
    by (auto simp: run_def less_eq_div_iff_mult_less_eq div_less_iff_less_mult distrib_right)
  have "alloc_inv (allocator s)"
    using assms(1) by (simp add: sas_inv_def)
  from pa_free_owned [OF this assms(4,5)] fits assms(1) show ?thesis
    by (auto simp: free_physical_def Let_def assms(2,3) [symmetric] scrub_def bump_physical_generations_def
        sas_inv_def bytes min_def)
qed

theorem free_physical_correct_witness:
  "let s = fresh16\<lparr>allocator := \<lparr>next_page = 8, pa_page_count = 16, free_runs = []\<rparr>, ram := (\<lambda>_. 1)\<rparr>;
       s' = free_physical 0x2000 0x1001 s
   in ram s' 0x2FFF = 0 \<and> ram s' 0x4000 = 1 \<and> available (allocator s') = {2 ..< 4} \<union> {8 ..< 16}"
proof -
  let ?s = "fresh16\<lparr>allocator := \<lparr>next_page = 8, pa_page_count = 16, free_runs = []\<rparr>, ram := (\<lambda>_. 1)\<rparr>"
  have inv: "sas_inv ?s"
    by (auto simp: sas_inv_def fresh16_def alloc_inv_def runs_ok_def)
  have count: "(2 :: u32) = div_ceil_pages (max 0x1001 1)" and first: "(2 :: u32) = 0x2000 div 4096"
    by (simp_all add: div_ceil_pages_def max_def word_le_nat_alt)
  have av: "available (allocator ?s) = {8 ..< 16}" and r: "run 2 2 = {2 ..< 4}"
    by (simp_all add: available_def run_def)
  have "run 2 2 \<inter> available (allocator ?s) = {}" "run 2 2 \<subseteq> {..< unat (pa_page_count (allocator ?s))}"
    unfolding av r by auto
  from free_physical_correct [OF inv count first this] show ?thesis
    unfolding av r by (auto simp: Let_def)
qed

end
