(* ===== verification/Cpu_State.thy ===== *)
theory Cpu_State
  imports Guest_Memory
begin

text \<open>
  The guest processor state of \<^verbatim>\<open>exbawks-cpu/src/state.rs\<close>, the flag constants of \<^verbatim>\<open>flags.rs\<close>, and the
  view of a decoded instruction the interpreter has: the decoder is the third-party crate
  \<^verbatim>\<open>iced_x86\<close>, so an \<open>Instruction\<close> is the record of what its accessor methods return, and nothing is
  assumed about how the fields of one instruction relate.  The crate's enumerations keep the
  constructors the sources name; a mnemonic, of which there are over a hundred, is the name of its
  constructor.  A register's size is recorded with the accessor that yields the register.
\<close>

unbundle bit_operations_syntax

section \<open>Flags\<close>

definition CARRY :: u32 where "CARRY = push_bit 0 1"
definition PARITY :: u32 where "PARITY = push_bit 2 1"
definition AUXILIARY :: u32 where "AUXILIARY = push_bit 4 1"
definition ZERO :: u32 where "ZERO = push_bit 6 1"
definition SIGN :: u32 where "SIGN = push_bit 7 1"
definition INTERRUPT :: u32 where "INTERRUPT = push_bit 9 1"
definition DIRECTION :: u32 where "DIRECTION = push_bit 10 1"
definition OVERFLOW :: u32 where "OVERFLOW = push_bit 11 1"
definition ALIGNMENT_CHECK :: u32 where "ALIGNMENT_CHECK = push_bit 18 1"
definition ID :: u32 where "ID = push_bit 21 1"

definition ARITHMETIC :: u32 where
  "ARITHMETIC = CARRY OR PARITY OR AUXILIARY OR ZERO OR SIGN OR OVERFLOW"

definition LOGIC_DEFINED :: u32 where
  "LOGIC_DEFINED = CARRY OR PARITY OR ZERO OR SIGN OR OVERFLOW"

lemmas flag_defs = CARRY_def PARITY_def AUXILIARY_def ZERO_def SIGN_def INTERRUPT_def DIRECTION_def
  OVERFLOW_def ALIGNMENT_CHECK_def ID_def

lemma bit_single: "n < LENGTH('a) \<Longrightarrow> bit (push_bit n (1 :: 'a::len word)) i \<longleftrightarrow> i = n"
  by (auto simp: bit_simps)

lemma bit_flag [simp]:
  "bit CARRY i \<longleftrightarrow> i = 0" "bit PARITY i \<longleftrightarrow> i = 2" "bit AUXILIARY i \<longleftrightarrow> i = 4" "bit ZERO i \<longleftrightarrow> i = 6"
  "bit SIGN i \<longleftrightarrow> i = 7" "bit INTERRUPT i \<longleftrightarrow> i = 9" "bit DIRECTION i \<longleftrightarrow> i = 10"
  "bit OVERFLOW i \<longleftrightarrow> i = 11" "bit ALIGNMENT_CHECK i \<longleftrightarrow> i = 18" "bit ID i \<longleftrightarrow> i = 21"
  unfolding flag_defs by (rule bit_single; simp)+

lemma bit_flag_groups [simp]:
  "bit ARITHMETIC i \<longleftrightarrow> i \<in> {0, 2, 4, 6, 7, 11}"
  "bit LOGIC_DEFINED i \<longleftrightarrow> i \<in> {0, 2, 6, 7, 11}"
  by (auto simp: ARITHMETIC_def LOGIC_DEFINED_def bit_or_iff)

lemma flag_set_iff [simp]:
  "w AND CARRY \<noteq> 0 \<longleftrightarrow> bit w 0" "w AND PARITY \<noteq> 0 \<longleftrightarrow> bit w 2" "w AND AUXILIARY \<noteq> 0 \<longleftrightarrow> bit w 4"
  "w AND ZERO \<noteq> 0 \<longleftrightarrow> bit w 6" "w AND SIGN \<noteq> 0 \<longleftrightarrow> bit w 7" "w AND INTERRUPT \<noteq> 0 \<longleftrightarrow> bit w 9"
  "w AND DIRECTION \<noteq> 0 \<longleftrightarrow> bit w 10" "w AND OVERFLOW \<noteq> 0 \<longleftrightarrow> bit w 11"
  unfolding flag_defs by (rule word_and_single_bit_iff; simp)+

lemma flag_clear_iff [simp]:
  "w AND CARRY = 0 \<longleftrightarrow> \<not> bit w 0" "w AND PARITY = 0 \<longleftrightarrow> \<not> bit w 2" "w AND AUXILIARY = 0 \<longleftrightarrow> \<not> bit w 4"
  "w AND ZERO = 0 \<longleftrightarrow> \<not> bit w 6" "w AND SIGN = 0 \<longleftrightarrow> \<not> bit w 7" "w AND INTERRUPT = 0 \<longleftrightarrow> \<not> bit w 9"
  "w AND DIRECTION = 0 \<longleftrightarrow> \<not> bit w 10" "w AND OVERFLOW = 0 \<longleftrightarrow> \<not> bit w 11"
  using flag_set_iff [of w] by blast+

section \<open>Registers\<close>

datatype Gpr = Eax | Ecx | Edx | Ebx | Esp | Ebp | Esi | Edi

fun gpr_code :: "Gpr \<Rightarrow> nat" where
  "gpr_code Eax = 0" | "gpr_code Ecx = 1" | "gpr_code Edx = 2" | "gpr_code Ebx = 3"
| "gpr_code Esp = 4" | "gpr_code Ebp = 5" | "gpr_code Esi = 6" | "gpr_code Edi = 7"

datatype Segment = Es | Cs | Ss | Ds | Fs | Gs

fun segment_code :: "Segment \<Rightarrow> nat" where
  "segment_code Es = 0" | "segment_code Cs = 1" | "segment_code Ss = 2"
| "segment_code Ds = 3" | "segment_code Fs = 4" | "segment_code Gs = 5"

record SegmentState =
  seg_selector :: u16
  seg_attributes :: u16
  seg_base :: u32
  seg_limit :: u32

record X87State =
  x87_control :: u16
  x87_status :: u16
  x87_tag :: u16
  x87_opcode :: u16
  x87_registers :: "nat \<Rightarrow> nat \<Rightarrow> u8"

definition x87_default :: X87State where
  "x87_default = \<lparr>x87_control = 0x037F, x87_status = 0, x87_tag = 0xFFFF, x87_opcode = 0,
                  x87_registers = (\<lambda>_ _. 0)\<rparr>"

record CpuState =
  gpr :: "nat \<Rightarrow> u32"
  eip :: u32
  eflags :: u32
  segments :: "nat \<Rightarrow> SegmentState"
  xmm :: "nat \<Rightarrow> u128"
  mxcsr :: u32
  x87 :: X87State
  tsc :: u64

definition cpu_default :: CpuState where
  "cpu_default = \<lparr>gpr = (\<lambda>_. 0), eip = 0, eflags = 0x00000202,
                  segments = (\<lambda>_. \<lparr>seg_selector = 0, seg_attributes = 0, seg_base = 0, seg_limit = 0\<rparr>),
                  xmm = (\<lambda>_. 0), mxcsr = 0x1F80, x87 = x87_default, tsc = 0\<rparr>"

definition set_gpr :: "nat \<Rightarrow> u32 \<Rightarrow> CpuState \<Rightarrow> CpuState" where
  "set_gpr i v s = s\<lparr>gpr := (gpr s)(i := v)\<rparr>"

definition cpu_get :: "CpuState \<Rightarrow> Gpr \<Rightarrow> u32" where
  "cpu_get s r = gpr s (gpr_code r)"

definition cpu_set :: "Gpr \<Rightarrow> u32 \<Rightarrow> CpuState \<Rightarrow> CpuState" where
  "cpu_set r v s = set_gpr (gpr_code r) v s"

definition segment :: "CpuState \<Rightarrow> Segment \<Rightarrow> SegmentState" where
  "segment s g = segments s (segment_code g)"

definition set_segment :: "Segment \<Rightarrow> SegmentState \<Rightarrow> CpuState \<Rightarrow> CpuState" where
  "set_segment g v s = s\<lparr>segments := (segments s)(segment_code g := v)\<rparr>"

lemma set_gpr_simps [simp]:
  "gpr (set_gpr i v s) = (gpr s)(i := v)" "eip (set_gpr i v s) = eip s" "eflags (set_gpr i v s) = eflags s"
  "segments (set_gpr i v s) = segments s" "tsc (set_gpr i v s) = tsc s" "x87 (set_gpr i v s) = x87 s"
  "xmm (set_gpr i v s) = xmm s" "mxcsr (set_gpr i v s) = mxcsr s"
  by (simp_all add: set_gpr_def)

lemma gpr_code_inj [simp]: "gpr_code a = gpr_code b \<longleftrightarrow> a = b"
  by (cases a; cases b) simp_all

section \<open>Decoded instructions\<close>

type_synonym Mnemonic = string

datatype Register =
    RegNone
  | AL | CL | DL | BL | AH | CH | DH | BH
  | AX | CX | DX | BX | SP | BP | SI | DI
  | EAX | ECX | EDX | EBX | ESP | EBP | ESI | EDI
  | ES | CS | SS | DS | FS | GS
  | OtherRegister nat

datatype OpKind =
    OpRegister | OpMemory | OpImmediate8 | OpImmediate8to16 | OpImmediate8to32 | OpImmediate16
  | OpImmediate32 | OpNearBranch32 | OpMemoryESEDI | OpMemorySegESI | OtherOpKind nat

datatype Code =
    Call_rm32 | Jmp_rm32 | Retnd | Retnd_imm16 | Leaved | Jecxz_rel8_32
  | Loop_rel8_32_ECX | Loope_rel8_32_ECX | Loopne_rel8_32_ECX
  | Imul_rm8 | Imul_rm16 | Imul_rm32 | Imul_r16_rm16 | Imul_r32_rm32
  | Imul_r16_rm16_imm8 | Imul_r32_rm32_imm8 | Imul_r16_rm16_imm16 | Imul_r32_rm32_imm32
  | OtherCode nat

datatype ConditionCode =
    CcNone | Cc_o | Cc_no | Cc_b | Cc_ae | Cc_e | Cc_ne | Cc_be | Cc_a | Cc_s | Cc_ns | Cc_p | Cc_np
  | Cc_l | Cc_ge | Cc_le | Cc_g

datatype FlowControl = FlowNext | FlowOther nat

record Instruction =
  ins_mnemonic :: Mnemonic
  ins_code :: Code
  ins_ip :: u64
  ins_len :: nat
  ins_is_invalid :: bool
  ins_op_count :: nat
  ins_op_kind :: "nat \<Rightarrow> OpKind"
  ins_op_register :: "nat \<Rightarrow> Register"
  ins_op_register_size :: "nat \<Rightarrow> nat"
  ins_immediate8 :: u8
  ins_immediate8to16 :: u16
  ins_immediate8to32 :: u32
  ins_immediate16 :: u16
  ins_immediate32 :: u32
  ins_memory_base :: Register
  ins_memory_base_size :: nat
  ins_memory_index :: Register
  ins_memory_index_size :: nat
  ins_memory_index_scale :: u32
  ins_memory_displacement32 :: u32
  ins_memory_displacement64 :: u64
  ins_memory_segment :: Register
  ins_memory_size :: nat
  ins_condition_code :: ConditionCode
  ins_near_branch32 :: u32
  ins_flow_control :: FlowControl
  ins_has_rep_prefix :: bool
  ins_has_repne_prefix :: bool

definition ins_len32 :: "Instruction \<Rightarrow> u32" where
  "ins_len32 i = word_of_nat (ins_len i)"

text \<open>An instruction to build concrete ones from.\<close>

definition plain_instruction :: Instruction where
  "plain_instruction =
     \<lparr>ins_mnemonic = ''Nop'', ins_code = OtherCode 0, ins_ip = 0, ins_len = 1, ins_is_invalid = False,
      ins_op_count = 0, ins_op_kind = (\<lambda>_. OtherOpKind 0), ins_op_register = (\<lambda>_. RegNone),
      ins_op_register_size = (\<lambda>_. 0), ins_immediate8 = 0, ins_immediate8to16 = 0, ins_immediate8to32 = 0,
      ins_immediate16 = 0, ins_immediate32 = 0, ins_memory_base = RegNone, ins_memory_base_size = 0,
      ins_memory_index = RegNone, ins_memory_index_size = 0, ins_memory_index_scale = 1,
      ins_memory_displacement32 = 0, ins_memory_displacement64 = 0, ins_memory_segment = DS,
      ins_memory_size = 0, ins_condition_code = CcNone, ins_near_branch32 = 0, ins_flow_control = FlowNext,
      ins_has_rep_prefix = False, ins_has_repne_prefix = False\<rparr>"

end
