(* ===== verification/Exec_Operands.thy ===== *)
theory Exec_Operands
  imports Cpu_State
begin

text \<open>
  Operands and flags of the tier-0 interpreter, \<^verbatim>\<open>exbawks-cpu/src/exec.rs\<close>: operand widths, effective
  addresses, the register file with its 8- and 16-bit views, reads and writes of operands, and the
  flag computations.  The interpreter's state is the processor and the guest memory behind the
  interface; a function of the source that takes both and may fail is a computation over that pair.
\<close>

unbundle bit_operations_syntax

section \<open>Errors, widths, operands\<close>

datatype ExecError =
    ExecUnsupported GuestVa
  | InvalidInstruction GuestVa
  | Memory MemoryError
  | Divide GuestVa

datatype Width = B | W | D

fun width_bytes :: "Width \<Rightarrow> nat" where
  "width_bytes B = 1" | "width_bytes W = 2" | "width_bytes D = 4"

fun width_bits :: "Width \<Rightarrow> nat" where
  "width_bits B = 8" | "width_bits W = 16" | "width_bits D = 32"

fun width_mask :: "Width \<Rightarrow> u32" where
  "width_mask B = 0xFF" | "width_mask W = 0xFFFF" | "width_mask D = 0xFFFFFFFF"

definition sign_bit :: "Width \<Rightarrow> u32" where
  "sign_bit w = push_bit (width_bits w - 1) 1"

definition from_bytes :: "nat \<Rightarrow> Width option" where
  "from_bytes n = (if n = 1 then Some B else if n = 2 then Some W else if n = 4 then Some D else None)"

datatype Operand = RegOp Register | MemOp GuestVa | ImmOp u32

datatype Flow = Next | Jumped

section \<open>The interpreter's state\<close>

record 'm mach =
  cpu :: CpuState
  mem :: 'm

type_synonym ('m, 'a) exec = "('m mach, ExecError, 'a) st"

definition cpu_r :: "(CpuState \<Rightarrow> ExecError + 'a) \<Rightarrow> ('m, 'a) exec" where
  "cpu_r f = gets_r (\<lambda>m. f (cpu m))"

definition cpu_u :: "(CpuState \<Rightarrow> CpuState) \<Rightarrow> ('m, unit) exec" where
  "cpu_u f = modify (\<lambda>m. m\<lparr>cpu := f (cpu m)\<rparr>)"

definition cpu_g :: "(CpuState \<Rightarrow> 'a) \<Rightarrow> ('m, 'a) exec" where
  "cpu_g f = gets (\<lambda>m. f (cpu m))"

definition unsupported :: "GuestVa \<Rightarrow> ('m, 'a) exec" where
  "unsupported address = throw (ExecUnsupported address)"

text \<open>A memory operation of the interface; its error becomes \<^verbatim>\<open>ExecError::Memory\<close>.\<close>

definition on_mem :: "('m, MemoryError, 'a) st \<Rightarrow> ('m, 'a) exec" where
  "on_mem f m = (case f (mem m) of
                   (Inl e, s) \<Rightarrow> (Inl (Memory e), m\<lparr>mem := s\<rparr>)
                 | (Inr x, s) \<Rightarrow> (Inr x, m\<lparr>mem := s\<rparr>))"

section \<open>Effective addresses\<close>

definition gpr_index :: "Register \<Rightarrow> nat option" where
  "gpr_index r = (case r of EAX \<Rightarrow> Some 0 | ECX \<Rightarrow> Some 1 | EDX \<Rightarrow> Some 2 | EBX \<Rightarrow> Some 3
                  | ESP \<Rightarrow> Some 4 | EBP \<Rightarrow> Some 5 | ESI \<Rightarrow> Some 6 | EDI \<Rightarrow> Some 7 | _ \<Rightarrow> None)"

definition register_value :: "CpuState \<Rightarrow> Register \<Rightarrow> GuestVa \<Rightarrow> ExecError + u32" where
  "register_value s r address = ok_or (map_option (gpr s) (gpr_index r)) (ExecUnsupported address)"

definition segment_base :: "CpuState \<Rightarrow> Register \<Rightarrow> GuestVa \<Rightarrow> ExecError + u32" where
  "segment_base s r address =
     (case r of
        ES \<Rightarrow> Inr (seg_base (segment s Es)) | CS \<Rightarrow> Inr (seg_base (segment s Cs))
      | SS \<Rightarrow> Inr (seg_base (segment s Ss)) | DS \<Rightarrow> Inr (seg_base (segment s Ds))
      | FS \<Rightarrow> Inr (seg_base (segment s Fs)) | GS \<Rightarrow> Inr (seg_base (segment s Gs))
      | _ \<Rightarrow> Inl (ExecUnsupported address))"

definition effective_address :: "CpuState \<Rightarrow> Instruction \<Rightarrow> GuestVa \<Rightarrow> bool \<Rightarrow> ExecError + GuestVa" where
  "effective_address s i address with_segment =
     (let base = ins_memory_base i; index = ins_memory_index i in
      if base \<noteq> RegNone \<and> ins_memory_base_size i \<noteq> 4 then Inl (ExecUnsupported address)
      else if index \<noteq> RegNone \<and> ins_memory_index_size i \<noteq> 4 then Inl (ExecUnsupported address)
      else
        bind_r (if base \<noteq> RegNone
                then map_r (\<lambda>v. ins_memory_displacement32 i + v) (register_value s base address)
                else Inr (ins_memory_displacement32 i)) (\<lambda>offset.
        bind_r (if index \<noteq> RegNone
                then map_r (\<lambda>v. offset + v * ins_memory_index_scale i) (register_value s index address)
                else Inr offset) (\<lambda>offset.
        if with_segment
        then map_r (\<lambda>b. offset + b) (segment_base s (ins_memory_segment i) address)
        else Inr offset)))"

definition operand :: "CpuState \<Rightarrow> Instruction \<Rightarrow> nat \<Rightarrow> GuestVa \<Rightarrow> ExecError + Operand" where
  "operand s i index address =
     (case ins_op_kind i index of
        OpRegister \<Rightarrow> Inr (RegOp (ins_op_register i index))
      | OpMemory \<Rightarrow> map_r MemOp (effective_address s i address True)
      | OpImmediate8 \<Rightarrow> Inr (ImmOp (ucast (ins_immediate8 i)))
      | OpImmediate8to16 \<Rightarrow> Inr (ImmOp (ucast (ins_immediate8to16 i)))
      | OpImmediate8to32 \<Rightarrow> Inr (ImmOp (ins_immediate8to32 i))
      | OpImmediate16 \<Rightarrow> Inr (ImmOp (ucast (ins_immediate16 i)))
      | OpImmediate32 \<Rightarrow> Inr (ImmOp (ins_immediate32 i))
      | _ \<Rightarrow> Inl (ExecUnsupported address))"

section \<open>The register file\<close>

datatype RegisterSlot = Low8 nat | High8 nat | Wide16 nat | Wide32 nat

definition register_slot :: "Register \<Rightarrow> RegisterSlot option" where
  "register_slot r =
     (case r of
        AL \<Rightarrow> Some (Low8 0) | CL \<Rightarrow> Some (Low8 1) | DL \<Rightarrow> Some (Low8 2) | BL \<Rightarrow> Some (Low8 3)
      | AH \<Rightarrow> Some (High8 0) | CH \<Rightarrow> Some (High8 1) | DH \<Rightarrow> Some (High8 2) | BH \<Rightarrow> Some (High8 3)
      | AX \<Rightarrow> Some (Wide16 0) | CX \<Rightarrow> Some (Wide16 1) | DX \<Rightarrow> Some (Wide16 2) | BX \<Rightarrow> Some (Wide16 3)
      | SP \<Rightarrow> Some (Wide16 4) | BP \<Rightarrow> Some (Wide16 5) | SI \<Rightarrow> Some (Wide16 6) | DI \<Rightarrow> Some (Wide16 7)
      | EAX \<Rightarrow> Some (Wide32 0) | ECX \<Rightarrow> Some (Wide32 1) | EDX \<Rightarrow> Some (Wide32 2) | EBX \<Rightarrow> Some (Wide32 3)
      | ESP \<Rightarrow> Some (Wide32 4) | EBP \<Rightarrow> Some (Wide32 5) | ESI \<Rightarrow> Some (Wide32 6) | EDI \<Rightarrow> Some (Wide32 7)
      | _ \<Rightarrow> None)"

fun read_slot :: "CpuState \<Rightarrow> RegisterSlot \<Rightarrow> u32" where
  "read_slot s (Low8 i) = gpr s i AND 0xFF"
| "read_slot s (High8 i) = drop_bit 8 (gpr s i) AND 0xFF"
| "read_slot s (Wide16 i) = gpr s i AND 0xFFFF"
| "read_slot s (Wide32 i) = gpr s i"

fun write_slot :: "RegisterSlot \<Rightarrow> u32 \<Rightarrow> CpuState \<Rightarrow> CpuState" where
  "write_slot (Low8 i) v s = set_gpr i ((gpr s i AND 0xFFFFFF00) OR (v AND 0xFF)) s"
| "write_slot (High8 i) v s = set_gpr i ((gpr s i AND 0xFFFF00FF) OR push_bit 8 (v AND 0xFF)) s"
| "write_slot (Wide16 i) v s = set_gpr i ((gpr s i AND 0xFFFF0000) OR (v AND 0xFFFF)) s"
| "write_slot (Wide32 i) v s = set_gpr i v s"

definition read_register :: "CpuState \<Rightarrow> Register \<Rightarrow> GuestVa \<Rightarrow> ExecError + u32" where
  "read_register s r address = map_r (read_slot s) (ok_or (register_slot r) (ExecUnsupported address))"

definition write_register :: "Register \<Rightarrow> u32 \<Rightarrow> GuestVa \<Rightarrow> ('m, unit) exec" where
  "write_register r v address =
     (case register_slot r of
        None \<Rightarrow> unsupported address
      | Some slot \<Rightarrow> cpu_u (write_slot slot v))"

definition operand_width :: "Instruction \<Rightarrow> nat \<Rightarrow> GuestVa \<Rightarrow> ExecError + Width" where
  "operand_width i index address =
     (case ins_op_kind i index of
        OpRegister \<Rightarrow> ok_or (from_bytes (ins_op_register_size i index)) (ExecUnsupported address)
      | OpMemory \<Rightarrow> ok_or (from_bytes (ins_memory_size i)) (ExecUnsupported address)
      | _ \<Rightarrow> Inl (ExecUnsupported address))"

section \<open>Reads and writes\<close>

text \<open>The four-byte buffer of \<^verbatim>\<open>read_memory\<close> is zero above the bytes read.\<close>

definition read_memory :: "'m guest_memory \<Rightarrow> GuestVa \<Rightarrow> Width \<Rightarrow> ('m, u32) exec" where
  "read_memory gm location w =
     bind_s (on_mem (gm_read gm location (width_bytes w))) (\<lambda>bytes.
     ret (from_le_bytes (bytes @ replicate (4 - length bytes) 0)))"

definition write_memory :: "'m guest_memory \<Rightarrow> GuestVa \<Rightarrow> Width \<Rightarrow> u32 \<Rightarrow> ('m, unit) exec" where
  "write_memory gm location w v = on_mem (gm_write gm location (take (width_bytes w) (to_le_bytes v)))"

definition read_operand :: "'m guest_memory \<Rightarrow> Operand \<Rightarrow> Width \<Rightarrow> ('m, u32) exec" where
  "read_operand gm op w =
     (case op of
        RegOp r \<Rightarrow> cpu_r (\<lambda>s. read_register s r (eip s))
      | MemOp location \<Rightarrow> read_memory gm location w
      | ImmOp v \<Rightarrow> ret (v AND width_mask w))"

definition write_operand :: "'m guest_memory \<Rightarrow> Operand \<Rightarrow> Width \<Rightarrow> u32 \<Rightarrow> ('m, unit) exec" where
  "write_operand gm op w v =
     (case op of
        RegOp r \<Rightarrow> bind_s (cpu_g eip) (write_register r (v AND width_mask w))
      | MemOp location \<Rightarrow> write_memory gm location w v
      | ImmOp _ \<Rightarrow> bind_s (cpu_g eip) unsupported)"

section \<open>Flag computation\<close>

definition merge_flags :: "u32 \<Rightarrow> u32 \<Rightarrow> CpuState \<Rightarrow> CpuState" where
  "merge_flags defined values s = s\<lparr>eflags := (eflags s AND NOT defined) OR (values AND defined)\<rparr>"

definition count_ones :: "'a::len word \<Rightarrow> nat" where
  "count_ones w = length (filter (bit w) [0 ..< LENGTH('a)])"

definition flag_if :: "bool \<Rightarrow> u32 \<Rightarrow> u32" where
  "flag_if c f = (if c then f else 0)"

definition from_bool :: "bool \<Rightarrow> u32" where
  "from_bool c = (if c then 1 else 0)"

definition result_bits :: "u32 \<Rightarrow> Width \<Rightarrow> u32" where
  "result_bits result w =
     (let masked = result AND width_mask w in
      flag_if (masked = 0) ZERO OR
      flag_if (masked AND sign_bit w \<noteq> 0) SIGN OR
      flag_if (even (count_ones (ucast masked :: u8))) PARITY)"

definition add_bits :: "u32 \<Rightarrow> u32 \<Rightarrow> u32 \<Rightarrow> Width \<Rightarrow> u32 \<times> u32" where
  "add_bits a b carry_in w =
     (let mask = width_mask w; a = a AND mask; b = b AND mask;
          wide = (ucast a :: u64) + ucast b + ucast carry_in;
          result = ucast wide AND mask
      in (result,
          result_bits result w OR
          flag_if (wide > ucast mask) CARRY OR
          flag_if ((a XOR b XOR result) AND 0x10 \<noteq> 0) AUXILIARY OR
          flag_if ((a XOR result) AND (b XOR result) AND sign_bit w \<noteq> 0) OVERFLOW))"

definition sub_bits :: "u32 \<Rightarrow> u32 \<Rightarrow> u32 \<Rightarrow> Width \<Rightarrow> u32 \<times> u32" where
  "sub_bits a b borrow_in w =
     (let mask = width_mask w; a = a AND mask; b = b AND mask;
          result = (a - b - borrow_in) AND mask
      in (result,
          result_bits result w OR
          flag_if ((ucast a :: u64) < ucast b + ucast borrow_in) CARRY OR
          flag_if ((a XOR b XOR result) AND 0x10 \<noteq> 0) AUXILIARY OR
          flag_if ((a XOR b) AND (a XOR result) AND sign_bit w \<noteq> 0) OVERFLOW))"

definition logic_bits :: "u32 \<Rightarrow> Width \<Rightarrow> u32" where
  "logic_bits result w = result_bits result w"

definition condition_met :: "u32 \<Rightarrow> ConditionCode \<Rightarrow> bool" where
  "condition_met flags code =
     (let carry = flags AND CARRY \<noteq> 0; zero = flags AND ZERO \<noteq> 0; sign = flags AND SIGN \<noteq> 0;
          overflow = flags AND OVERFLOW \<noteq> 0; parity = flags AND PARITY \<noteq> 0
      in case code of
           CcNone \<Rightarrow> False | Cc_o \<Rightarrow> overflow | Cc_no \<Rightarrow> \<not> overflow | Cc_b \<Rightarrow> carry | Cc_ae \<Rightarrow> \<not> carry
         | Cc_e \<Rightarrow> zero | Cc_ne \<Rightarrow> \<not> zero | Cc_be \<Rightarrow> carry \<or> zero | Cc_a \<Rightarrow> \<not> carry \<and> \<not> zero
         | Cc_s \<Rightarrow> sign | Cc_ns \<Rightarrow> \<not> sign | Cc_p \<Rightarrow> parity | Cc_np \<Rightarrow> \<not> parity
         | Cc_l \<Rightarrow> sign \<noteq> overflow | Cc_ge \<Rightarrow> sign = overflow
         | Cc_le \<Rightarrow> zero \<or> sign \<noteq> overflow | Cc_g \<Rightarrow> \<not> zero \<and> sign = overflow)"

end
