(* ===== verification/Exec_Flags.thy ===== *)
theory Exec_Flags
  imports Exec_Operands
begin

text \<open>
  What the flag computations of the interpreter mean: the carry, zero, sign and overflow bits of an
  addition or subtraction at each operand width in terms of the operands read as unsigned and as
  two's-complement numbers, and the conditions a comparison leaves behind.
\<close>

unbundle bit_operations_syntax

section \<open>Numbers at a width\<close>

definition uval :: "Width \<Rightarrow> u32 \<Rightarrow> int" where
  "uval w a = uint (a AND width_mask w)"

definition half :: "Width \<Rightarrow> int" where
  "half w = 2 ^ (width_bits w - 1)"

definition sval :: "Width \<Rightarrow> u32 \<Rightarrow> int" where
  "sval w a = (if uval w a \<ge> half w then uval w a - 2 * half w else uval w a)"

lemma width_mask_mask: "width_mask w = mask (width_bits w)"
  by (cases w) (simp_all add: mask_eq_exp_minus_1)

lemma half_values: "half B = 0x80" "half W = 0x8000" "half D = 0x80000000"
  by (simp_all add: half_def)

lemma half_pos: "0 < half w"
  by (simp add: half_def)

lemma two_half: "2 * half w = 2 ^ width_bits w"
  by (cases w) (simp_all add: half_def)

lemma width_bits_pos [simp]: "0 < width_bits w" "width_bits w \<le> 32" "width_bits w - 1 < 32"
  by (cases w; simp)+

lemma uint_and_mask: "uint (a AND mask n) = uint a mod 2 ^ n" for a :: "'a::len word"
  by (simp add: word_and_mask_take_bit unsigned_take_bit_eq flip: take_bit_eq_mod)

lemma uval_mod: "uval w a = uint a mod (2 * half w)"
  by (simp add: uval_def width_mask_mask uint_and_mask two_half)

lemma uval_range: "0 \<le> uval w a" "uval w a < 2 * half w"
  using half_pos [of w] by (simp_all add: uval_mod)

lemma uval_masked [simp]: "uval w (a AND width_mask w) = uval w a"
  by (simp add: uval_def width_mask_mask and.assoc)

lemma sval_masked [simp]: "sval w (a AND width_mask w) = sval w a"
  by (simp add: sval_def)

lemma sval_range: "- half w \<le> sval w a" "sval w a < half w"
  using uval_range [of w a] half_pos [of w] unfolding sval_def by auto

lemma masked_zero_iff: "a AND width_mask w = 0 \<longleftrightarrow> uval w a = 0"
  unfolding uval_def by (metis uint_0_iff)

lemma bit_top_iff:
  assumes "0 \<le> x" "x < 2 * 2 ^ k"
  shows "bit x k \<longleftrightarrow> 2 ^ k \<le> (x :: int)"
proof -
  have "x div 2 ^ k = (if 2 ^ k \<le> x then 1 else 0)"
    using assms by (auto intro: int_div_pos_eq [where r = "x - 2 ^ k"])
  then show ?thesis
    by (simp add: bit_iff_odd)
qed

lemma and_sign_bit_iff: "a AND sign_bit w \<noteq> 0 \<longleftrightarrow> bit a (width_bits w - 1)"
  unfolding sign_bit_def by (rule word_and_single_bit_iff) (cases w; simp)

lemma bit_sign_iff: "bit (a AND width_mask w) (width_bits w - 1) \<longleftrightarrow> half w \<le> uval w a"
proof -
  have "bit (a AND width_mask w) (width_bits w - 1) \<longleftrightarrow> bit (uval w a) (width_bits w - 1)"
    by (cases w) (simp_all add: uval_def bit_uint_iff)
  also have "\<dots> \<longleftrightarrow> half w \<le> uval w a"
    unfolding half_def using uval_range [of w a] by (intro bit_top_iff) (simp_all add: half_def)
  finally show ?thesis .
qed

lemma sval_negative_iff: "sval w a < 0 \<longleftrightarrow> half w \<le> uval w a"
  using uval_range [of w a] unfolding sval_def by auto

text \<open>The overflow rule of the hardware, in numbers: the sign of the result differs from both signs.\<close>

lemma add_overflow_rule:
  fixes h x y c r :: int
  assumes "0 < h" "0 \<le> x" "x < 2 * h" "0 \<le> y" "y < 2 * h" "c = 0 \<or> c = 1" "r = (x + y + c) mod (2 * h)"
  defines "s \<equiv> \<lambda>v. if h \<le> v then v - 2 * h else v"
  shows "((h \<le> x) \<noteq> (h \<le> r) \<and> (h \<le> y) \<noteq> (h \<le> r)) \<longleftrightarrow> (s x + s y + c < - h \<or> h \<le> s x + s y + c)"
proof -
  have "r = (if x + y + c < 2 * h then x + y + c else x + y + c - 2 * h)"
    unfolding assms(7) using assms(1-6) int_mod_pos_eq [of "x + y + c" "2 * h" 1 "x + y + c - 2 * h"]
    by (auto simp: mod_pos_pos_trivial)
  with assms(1-6) show ?thesis
    unfolding s_def by (cases "x + y + c < 2 * h"; cases "h \<le> x"; cases "h \<le> y"; auto)
qed

lemma sub_overflow_rule:
  fixes h x y c r :: int
  assumes "0 < h" "0 \<le> x" "x < 2 * h" "0 \<le> y" "y < 2 * h" "c = 0 \<or> c = 1" "r = (x - y - c) mod (2 * h)"
  defines "s \<equiv> \<lambda>v. if h \<le> v then v - 2 * h else v"
  shows "((h \<le> x) \<noteq> (h \<le> y) \<and> (h \<le> x) \<noteq> (h \<le> r)) \<longleftrightarrow> (s x - s y - c < - h \<or> h \<le> s x - s y - c)"
proof -
  let ?y = "2 * h - 1 - y" and ?c = "1 - c"
  have "r = (x + ?y + ?c) mod (2 * h)"
    unfolding assms(7) using mod_add_self2 [of "x - y - c" "2 * h"] by (simp add: algebra_simps)
  moreover have "?c = 0 \<or> ?c = 1" "0 \<le> ?y" "?y < 2 * h"
    using assms(4-6) by auto
  ultimately have "((h \<le> x) \<noteq> (h \<le> r) \<and> (h \<le> ?y) \<noteq> (h \<le> r)) \<longleftrightarrow>
      (s x + s ?y + ?c < - h \<or> h \<le> s x + s ?y + ?c)"
    unfolding s_def using assms(1-3) by (intro add_overflow_rule)
  moreover have "(h \<le> ?y) \<longleftrightarrow> \<not> h \<le> y"
    by linarith
  moreover have "s x + s ?y + ?c = s x - s y - c"
    unfolding s_def by auto
  ultimately show ?thesis
    by auto
qed

section \<open>Additions and subtractions\<close>

lemma bit_result_bits:
  "bit (result_bits r w) 0 = False" "bit (result_bits r w) 4 = False" "bit (result_bits r w) 11 = False"
  "bit (result_bits r w) 6 \<longleftrightarrow> uval w r = 0"
  "bit (result_bits r w) 7 \<longleftrightarrow> sval w r < 0"
  "bit (result_bits r w) 2 \<longleftrightarrow> even (count_ones (ucast (r AND width_mask w) :: u8))"
  by (simp_all add: result_bits_def flag_if_def Let_def bit_or_iff masked_zero_iff and_sign_bit_iff
      bit_sign_iff [unfolded One_nat_def] sval_negative_iff del: width_mask.simps)

lemma uint_ucast_u64 [simp]: "uint (ucast (a :: u32) :: u64) = uint a"
  by (simp add: unsigned_ucast_eq take_bit_int_eq_self uint_lt2p [THEN order_less_le_trans])

lemma half_dvd: "2 * half w dvd 4294967296"
  by (cases w) (simp_all add: half_values)

lemma uval_word_of_int: "uval w (word_of_int x) = x mod (2 * half w)"
  using half_dvd [of w] by (simp add: uval_mod unsigned_of_int take_bit_eq_mod mod_mod_cancel)

lemma result_masked: "result_bits (r AND width_mask w) w = result_bits r w"
  by (simp add: result_bits_def and.assoc)

lemma sign_xor_iff:
  "(x XOR y) AND (z XOR v) AND sign_bit w \<noteq> 0 \<longleftrightarrow>
     bit x (width_bits w - 1) \<noteq> bit y (width_bits w - 1) \<and> bit z (width_bits w - 1) \<noteq> bit v (width_bits w - 1)"
proof -
  have "(x XOR y) AND (z XOR v) AND sign_bit w \<noteq> 0 \<longleftrightarrow> bit ((x XOR y) AND (z XOR v)) (width_bits w - 1)"
    by (simp only: and.assoc [symmetric] and_sign_bit_iff)
  then show ?thesis
    by (simp add: bit_and_iff bit_xor_iff)
qed

lemma uval_ucast64: "uval w (ucast (x :: u64)) = uint x mod (2 * half w)"
  using half_dvd [of w] by (simp add: uval_mod unsigned_ucast_eq take_bit_eq_mod mod_mod_cancel)

lemma uval_bound: "uval w a < 4294967296"
  using uval_range [of w a] by (cases w) (simp_all add: half_values)

lemma uint_from_bool [simp]: "uint (from_bool c) = of_bool c"
  by (simp add: from_bool_def)

lemma wide_sum:
  "uint ((ucast (a AND width_mask w) :: u64) + ucast (b AND width_mask w) + ucast (from_bool c)) =
     uval w a + uval w b + of_bool c"
  "uint ((ucast (b AND width_mask w) :: u64) + ucast (from_bool c)) = uval w b + of_bool c"
  using uval_bound [of w a] uval_bound [of w b] uval_range(1) [of w a] uval_range(1) [of w b]
  by (simp_all add: uint_word_ariths mod_pos_pos_trivial uval_def [symmetric])

lemma add_bits_result:
  "uval w (fst (add_bits a b (from_bool c) w)) = (uval w a + uval w b + of_bool c) mod (2 * half w)"
  by (simp add: add_bits_def Let_def uval_ucast64 wide_sum)

lemma uint_width_mask: "uint (width_mask w) = 2 * half w - 1"
  by (cases w) (simp_all add: half_values)

lemma bit_flag_if [simp]: "bit (flag_if c f) i \<longleftrightarrow> c \<and> bit f i"
  by (simp add: flag_if_def)

lemma add_bits_unfold:
  "snd (add_bits a b c w) =
     result_bits (fst (add_bits a b c w)) w OR
     flag_if ((ucast (a AND width_mask w) :: u64) + ucast (b AND width_mask w) + ucast c > ucast (width_mask w)) CARRY OR
     flag_if ((a AND width_mask w XOR (b AND width_mask w) XOR fst (add_bits a b c w)) AND 0x10 \<noteq> 0) AUXILIARY OR
     flag_if ((a AND width_mask w XOR fst (add_bits a b c w)) AND (b AND width_mask w XOR fst (add_bits a b c w)) AND
        sign_bit w \<noteq> 0) OVERFLOW"
  by (simp add: add_bits_def Let_def)

lemma sub_bits_unfold:
  "snd (sub_bits a b c w) =
     result_bits (fst (sub_bits a b c w)) w OR
     flag_if ((ucast (a AND width_mask w) :: u64) < ucast (b AND width_mask w) + ucast c) CARRY OR
     flag_if ((a AND width_mask w XOR (b AND width_mask w) XOR fst (sub_bits a b c w)) AND 0x10 \<noteq> 0) AUXILIARY OR
     flag_if ((a AND width_mask w XOR (b AND width_mask w)) AND (a AND width_mask w XOR fst (sub_bits a b c w)) AND
        sign_bit w \<noteq> 0) OVERFLOW"
  by (simp add: sub_bits_def Let_def)

lemma bits_result_masked:
  "fst (add_bits a b c w) AND width_mask w = fst (add_bits a b c w)"
  "fst (sub_bits a b c w) AND width_mask w = fst (sub_bits a b c w)"
  by (simp_all add: add_bits_def sub_bits_def Let_def and.assoc)

lemma bit_result_sign:
  "bit (fst (add_bits a b c w)) (width_bits w - 1) \<longleftrightarrow> half w \<le> uval w (fst (add_bits a b c w))"
  "bit (fst (sub_bits a b c w)) (width_bits w - 1) \<longleftrightarrow> half w \<le> uval w (fst (sub_bits a b c w))"
  by (metis bit_sign_iff bits_result_masked(1), metis bit_sign_iff bits_result_masked(2))

lemma bit_add_bits:
  "bit (snd (add_bits a b (from_bool c) w)) 0 \<longleftrightarrow> 2 * half w \<le> uval w a + uval w b + of_bool c"
  "bit (snd (add_bits a b (from_bool c) w)) 6 \<longleftrightarrow> uval w (fst (add_bits a b (from_bool c) w)) = 0"
  "bit (snd (add_bits a b (from_bool c) w)) 7 \<longleftrightarrow> sval w (fst (add_bits a b (from_bool c) w)) < 0"
  unfolding add_bits_unfold
  by (auto simp: bit_or_iff bit_result_bits word_less_def wide_sum uint_width_mask simp del: of_bool_eq_0_iff)

lemma add_bits_overflow:
  "bit (snd (add_bits a b (from_bool c) w)) 11 \<longleftrightarrow>
     sval w a + sval w b + of_bool c < - half w \<or> half w \<le> sval w a + sval w b + of_bool c"
proof -
  have "bit (snd (add_bits a b (from_bool c) w)) 11 \<longleftrightarrow>
      (half w \<le> uval w a) \<noteq> (half w \<le> uval w (fst (add_bits a b (from_bool c) w))) \<and>
      (half w \<le> uval w b) \<noteq> (half w \<le> uval w (fst (add_bits a b (from_bool c) w)))"
    by (simp add: add_bits_unfold bit_or_iff bit_result_bits sign_xor_iff bit_sign_iff bit_result_sign
        del: width_mask.simps One_nat_def)
  also have "\<dots> \<longleftrightarrow> sval w a + sval w b + of_bool c < - half w \<or> half w \<le> sval w a + sval w b + of_bool c"
    unfolding sval_def using uval_range [of w a] uval_range [of w b] half_pos [of w]
    by (intro add_overflow_rule) (auto simp: add_bits_result)
  finally show ?thesis .
qed

lemma sub_bits_result:
  "uval w (fst (sub_bits a b (from_bool c) w)) = (uval w a - uval w b - of_bool c) mod (2 * half w)"
proof -
  have "uval w ((a AND width_mask w) - (b AND width_mask w) - from_bool c) =
      (uval w a - uval w b - of_bool c) mod (2 * half w)"
    unfolding uval_mod [of w "_ - _"]
    using half_dvd [of w] by (simp add: uint_word_ariths mod_mod_cancel uval_def mod_diff_left_eq)
  then show ?thesis
    by (cases c) (simp_all add: sub_bits_def Let_def)
qed

lemma bit_sub_bits:
  "bit (snd (sub_bits a b (from_bool c) w)) 0 \<longleftrightarrow> uval w a < uval w b + of_bool c"
  "bit (snd (sub_bits a b (from_bool c) w)) 6 \<longleftrightarrow> uval w (fst (sub_bits a b (from_bool c) w)) = 0"
  "bit (snd (sub_bits a b (from_bool c) w)) 7 \<longleftrightarrow> sval w (fst (sub_bits a b (from_bool c) w)) < 0"
  unfolding sub_bits_unfold
  by (auto simp: bit_or_iff bit_result_bits word_less_def wide_sum uval_def)

lemma sub_bits_overflow:
  "bit (snd (sub_bits a b (from_bool c) w)) 11 \<longleftrightarrow>
     sval w a - sval w b - of_bool c < - half w \<or> half w \<le> sval w a - sval w b - of_bool c"
proof -
  have "bit (snd (sub_bits a b (from_bool c) w)) 11 \<longleftrightarrow>
      (half w \<le> uval w a) \<noteq> (half w \<le> uval w b) \<and>
      (half w \<le> uval w a) \<noteq> (half w \<le> uval w (fst (sub_bits a b (from_bool c) w)))"
    by (simp add: sub_bits_unfold bit_or_iff bit_result_bits sign_xor_iff bit_sign_iff bit_result_sign
        del: width_mask.simps One_nat_def)
  also have "\<dots> \<longleftrightarrow> sval w a - sval w b - of_bool c < - half w \<or> half w \<le> sval w a - sval w b - of_bool c"
    unfolding sval_def using uval_range [of w a] uval_range [of w b] half_pos [of w]
    by (intro sub_overflow_rule) (auto simp: sub_bits_result)
  finally show ?thesis .
qed

section \<open>Conditions after a comparison\<close>

lemma bit_merge_flags:
  "bit (eflags (merge_flags d v s)) i \<longleftrightarrow> i < 32 \<and> (if bit d i then bit v i else bit (eflags s) i)"
  by (auto simp: merge_flags_def bit_simps dest: bit_imp_le_length)

lemma condition_met_bits:
  "condition_met f Cc_b \<longleftrightarrow> bit f 0" "condition_met f Cc_ae \<longleftrightarrow> \<not> bit f 0"
  "condition_met f Cc_e \<longleftrightarrow> bit f 6" "condition_met f Cc_ne \<longleftrightarrow> \<not> bit f 6"
  "condition_met f Cc_be \<longleftrightarrow> bit f 0 \<or> bit f 6" "condition_met f Cc_a \<longleftrightarrow> \<not> bit f 0 \<and> \<not> bit f 6"
  "condition_met f Cc_s \<longleftrightarrow> bit f 7" "condition_met f Cc_ns \<longleftrightarrow> \<not> bit f 7"
  "condition_met f Cc_o \<longleftrightarrow> bit f 11" "condition_met f Cc_no \<longleftrightarrow> \<not> bit f 11"
  "condition_met f Cc_p \<longleftrightarrow> bit f 2" "condition_met f Cc_np \<longleftrightarrow> \<not> bit f 2"
  "condition_met f Cc_l \<longleftrightarrow> bit f 7 \<noteq> bit f 11" "condition_met f Cc_ge \<longleftrightarrow> bit f 7 = bit f 11"
  "condition_met f Cc_le \<longleftrightarrow> bit f 6 \<or> bit f 7 \<noteq> bit f 11"
  "condition_met f Cc_g \<longleftrightarrow> \<not> bit f 6 \<and> bit f 7 = bit f 11"
  by (simp_all add: condition_met_def Let_def)

lemma sval_eq_iff: "sval w a = sval w b \<longleftrightarrow> uval w a = uval w b"
  using uval_range [of w a] uval_range [of w b] by (auto simp: sval_def)

text \<open>The signed result of a subtraction, when its sign is corrected by the overflow flag.\<close>

lemma sign_correction:
  fixes h d :: int
  assumes "0 < h" "- 2 * h \<le> d" "d < 2 * h"
  shows "(h \<le> d mod (2 * h)) \<noteq> (d < - h \<or> h \<le> d) \<longleftrightarrow> d < 0"
proof -
  have "d mod (2 * h) = (if 0 \<le> d then d else d + 2 * h)"
    using assms int_mod_pos_eq [of d "2 * h" "- 1" "d + 2 * h"] by (auto simp: mod_pos_pos_trivial)
  with assms show ?thesis
    by auto
qed

lemma sval_mod: "sval w a mod (2 * half w) = uval w a mod (2 * half w)"
  by (simp add: sval_def minus_mod_self2)

lemma sub_sign_rule:
  "(sval w (fst (sub_bits a b (from_bool c) w)) < 0) \<noteq>
     (sval w a - sval w b - of_bool c < - half w \<or> half w \<le> sval w a - sval w b - of_bool c) \<longleftrightarrow>
   sval w a - sval w b - of_bool c < 0"
proof -
  have "uval w (fst (sub_bits a b (from_bool c) w)) = (sval w a - sval w b - of_bool c) mod (2 * half w)"
    unfolding sub_bits_result by (intro mod_diff_cong sval_mod [symmetric] refl)
  then show ?thesis
    unfolding sval_negative_iff using sval_range [of w a] sval_range [of w b] half_pos [of w]
    by (simp only:) (rule sign_correction; auto)
qed

lemma sub_zero_iff: "uval w (fst (sub_bits a b (from_bool False) w)) = 0 \<longleftrightarrow> uval w a = uval w b"
proof -
  have "(uval w a - uval w b) mod (2 * half w) = 0 \<longleftrightarrow> uval w a mod (2 * half w) = uval w b mod (2 * half w)"
    by (simp add: mod_eq_dvd_iff dvd_eq_mod_eq_0)
  also have "\<dots> \<longleftrightarrow> uval w a = uval w b"
    using uval_range [of w a] uval_range [of w b] by (simp add: mod_pos_pos_trivial)
  finally show ?thesis
    by (simp add: sub_bits_result)
qed

definition cmp_flags :: "u32 \<Rightarrow> u32 \<Rightarrow> Width \<Rightarrow> CpuState \<Rightarrow> u32" where
  "cmp_flags a b w s = eflags (merge_flags ARITHMETIC (snd (sub_bits a b 0 w)) s)"

lemma cmp_flag_bits:
  "bit (cmp_flags a b w s) 0 \<longleftrightarrow> uval w a < uval w b"
  "bit (cmp_flags a b w s) 6 \<longleftrightarrow> uval w a = uval w b"
  "bit (cmp_flags a b w s) 7 \<noteq> bit (cmp_flags a b w s) 11 \<longleftrightarrow> sval w a < sval w b"
proof -
  have c0: "(0 :: u32) = from_bool False"
    by (simp add: from_bool_def)
  show "bit (cmp_flags a b w s) 0 \<longleftrightarrow> uval w a < uval w b"
    unfolding cmp_flags_def c0 by (simp add: bit_merge_flags bit_sub_bits)
  show "bit (cmp_flags a b w s) 6 \<longleftrightarrow> uval w a = uval w b"
    unfolding cmp_flags_def c0 by (simp add: bit_merge_flags bit_sub_bits sub_zero_iff)
  show "bit (cmp_flags a b w s) 7 \<noteq> bit (cmp_flags a b w s) 11 \<longleftrightarrow> sval w a < sval w b"
    unfolding cmp_flags_def c0 using sub_sign_rule [of w a b False]
    by (simp add: bit_merge_flags bit_sub_bits sub_bits_overflow)
qed

lemma does_not_fit:
  fixes h x :: int
  assumes "0 < h"
  shows "(x < 0 \<or> 2 * h \<le> x) \<longleftrightarrow> x \<noteq> x mod (2 * h)"
    and "(x < - h \<or> h \<le> x) \<longleftrightarrow> x \<noteq> (if h \<le> x mod (2 * h) then x mod (2 * h) - 2 * h else x mod (2 * h))"
proof -
  define q where "q = x mod (2 * h)"
  have m: "0 \<le> q" "q < 2 * h"
    using assms by (simp_all add: q_def)
  have fits: "q = x" if "0 \<le> x" "x < 2 * h"
    using that by (simp add: q_def mod_pos_pos_trivial)
  have below: "q = x + 2 * h" if "- h \<le> x" "x < 0"
    using that assms int_mod_pos_eq [of x "2 * h" "- 1" "x + 2 * h"] by (simp add: q_def)
  show "(x < 0 \<or> 2 * h \<le> x) \<longleftrightarrow> x \<noteq> x mod (2 * h)"
    unfolding q_def [symmetric] using m fits by (cases "0 \<le> x \<and> x < 2 * h") auto
  show "(x < - h \<or> h \<le> x) \<longleftrightarrow> x \<noteq> (if h \<le> x mod (2 * h) then x mod (2 * h) - 2 * h else x mod (2 * h))"
    unfolding q_def [symmetric] using m fits below assms by (cases "- h \<le> x \<and> x < h"; cases "0 \<le> x") auto
qed

lemma signed_result:
  assumes "uval w r = x mod (2 * half w)"
  shows "(x < - half w \<or> half w \<le> x) \<longleftrightarrow> x \<noteq> sval w r"
  unfolding sval_def assms by (rule does_not_fit(2) [OF half_pos])

text \<open>C21. After a comparison at any operand width, every conditional instruction decides what its name says:
  below, above and equal order the operands as unsigned numbers, less and greater as two's-complement
  numbers, whatever the flags were before.\<close>

theorem comparison_conditions:
  "let f = cmp_flags a b w s in
   (condition_met f Cc_b \<longleftrightarrow> uval w a < uval w b) \<and> (condition_met f Cc_ae \<longleftrightarrow> uval w a \<ge> uval w b) \<and>
   (condition_met f Cc_be \<longleftrightarrow> uval w a \<le> uval w b) \<and> (condition_met f Cc_a \<longleftrightarrow> uval w a > uval w b) \<and>
   (condition_met f Cc_e \<longleftrightarrow> uval w a = uval w b) \<and> (condition_met f Cc_ne \<longleftrightarrow> uval w a \<noteq> uval w b) \<and>
   (condition_met f Cc_l \<longleftrightarrow> sval w a < sval w b) \<and> (condition_met f Cc_ge \<longleftrightarrow> sval w a \<ge> sval w b) \<and>
   (condition_met f Cc_le \<longleftrightarrow> sval w a \<le> sval w b) \<and> (condition_met f Cc_g \<longleftrightarrow> sval w a > sval w b)"
proof -
  have signed: "bit (cmp_flags a b w s) 7 = bit (cmp_flags a b w s) 11 \<longleftrightarrow> sval w b \<le> sval w a"
    using cmp_flag_bits(3) [of a b w s] by auto
  show ?thesis
    unfolding Let_def condition_met_bits cmp_flag_bits signed using sval_eq_iff [of w a b] by auto
qed

text \<open>C22. The flags of an addition are the arithmetic they stand for, at every width and with or without
  an incoming carry: the result is the sum reduced to the width, carry says the unsigned sum does not
  fit, overflow that the signed sum does not fit, zero and sign describe the result.\<close>

theorem addition_flags:
  "let (r, f) = add_bits a b (from_bool c) w in
   uval w r = (uval w a + uval w b + of_bool c) mod (2 * half w) \<and>
   (bit f 0 \<longleftrightarrow> uval w a + uval w b + of_bool c \<noteq> uval w r) \<and>
   (bit f 11 \<longleftrightarrow> sval w a + sval w b + of_bool c \<noteq> sval w r) \<and>
   (bit f 6 \<longleftrightarrow> uval w r = 0) \<and> (bit f 7 \<longleftrightarrow> sval w r < 0)"
proof -
  let ?x = "uval w a + uval w b + of_bool c" and ?y = "sval w a + sval w b + of_bool c"
  let ?r = "fst (add_bits a b (from_bool c) w)"
  have "uval w ?r = ?y mod (2 * half w)"
    unfolding add_bits_result by (intro mod_add_cong sval_mod [symmetric] refl)
  from signed_result [OF this] have "(?y < - half w \<or> half w \<le> ?y) \<longleftrightarrow> ?y \<noteq> sval w ?r" .
  moreover have "2 * half w \<le> ?x \<longleftrightarrow> ?x \<noteq> uval w ?r"
    unfolding add_bits_result using does_not_fit(1) [OF half_pos, of ?x w] uval_range(1) [of w a] uval_range(1) [of w b]
    by (auto simp: not_less)
  ultimately show ?thesis
    unfolding split_beta bit_add_bits add_bits_overflow Let_def by (simp only: add_bits_result simp_thms)
qed

text \<open>C23. The flags of a subtraction likewise: carry is the unsigned borrow, overflow says the signed
  difference does not fit.\<close>

theorem subtraction_flags:
  "let (r, f) = sub_bits a b (from_bool c) w in
   uval w r = (uval w a - uval w b - of_bool c) mod (2 * half w) \<and>
   (bit f 0 \<longleftrightarrow> uval w a - uval w b - of_bool c \<noteq> uval w r) \<and>
   (bit f 11 \<longleftrightarrow> sval w a - sval w b - of_bool c \<noteq> sval w r) \<and>
   (bit f 6 \<longleftrightarrow> uval w r = 0) \<and> (bit f 7 \<longleftrightarrow> sval w r < 0)"
proof -
  let ?x = "uval w a - uval w b - of_bool c" and ?y = "sval w a - sval w b - of_bool c"
  let ?r = "fst (sub_bits a b (from_bool c) w)"
  have "uval w ?r = ?y mod (2 * half w)"
    unfolding sub_bits_result by (intro mod_diff_cong sval_mod [symmetric] refl)
  from signed_result [OF this] have "(?y < - half w \<or> half w \<le> ?y) \<longleftrightarrow> ?y \<noteq> sval w ?r" .
  moreover have "uval w a < uval w b + of_bool c \<longleftrightarrow> ?x \<noteq> uval w ?r"
    unfolding sub_bits_result using does_not_fit(1) [OF half_pos, of ?x w] uval_range [of w a] uval_range(1) [of w b]
    by auto
  ultimately show ?thesis
    unfolding split_beta bit_sub_bits sub_bits_overflow Let_def by (simp only: sub_bits_result simp_thms)
qed

end
