(* ===== verification/Exec_Families.thy ===== *)
theory Exec_Families
  imports Exec_Flags "HOL-Library.Signed_Division"
begin

text \<open>
  The straight-line instruction families of \<^verbatim>\<open>exbawks-cpu/src/exec.rs\<close>: arithmetic and logic, moves,
  exchanges, shifts and rotates, multiplication and division, bit tests and scans.  Each definition
  has the order of the source: which operand is resolved and read first, and that every fallible
  memory access comes before the processor changes.  Signed 64-bit intermediates that cannot
  overflow are integers.
\<close>

unbundle bit_operations_syntax

section \<open>Arithmetic and logic\<close>

datatype AluKind = KAdd | KAdc | KSub | KSbb | KAnd | KOr | KXor | KCmp | KTest

fun alu_compute :: "AluKind \<Rightarrow> u32 \<Rightarrow> u32 \<Rightarrow> u32 \<Rightarrow> Width \<Rightarrow> u32 \<times> u32 \<times> u32 \<times> bool" where
  "alu_compute KAdd a b carry w = (let (result, bits) = add_bits a b 0 w in (result, ARITHMETIC, bits, True))"
| "alu_compute KAdc a b carry w = (let (result, bits) = add_bits a b carry w in (result, ARITHMETIC, bits, True))"
| "alu_compute KSub a b carry w = (let (result, bits) = sub_bits a b 0 w in (result, ARITHMETIC, bits, True))"
| "alu_compute KSbb a b carry w = (let (result, bits) = sub_bits a b carry w in (result, ARITHMETIC, bits, True))"
| "alu_compute KAnd a b carry w = (a AND b, LOGIC_DEFINED, logic_bits (a AND b) w, True)"
| "alu_compute KOr a b carry w = (a OR b, LOGIC_DEFINED, logic_bits (a OR b) w, True)"
| "alu_compute KXor a b carry w = (a XOR b, LOGIC_DEFINED, logic_bits (a XOR b) w, True)"
| "alu_compute KCmp a b carry w = (let (result, bits) = sub_bits a b 0 w in (result, ARITHMETIC, bits, False))"
| "alu_compute KTest a b carry w = (a AND b, LOGIC_DEFINED, logic_bits (a AND b) w, False)"

definition get_width :: "Instruction \<Rightarrow> nat \<Rightarrow> GuestVa \<Rightarrow> ('m, Width) exec" where
  "get_width i n address = gets_r (\<lambda>_. operand_width i n address)"

definition get_operand :: "Instruction \<Rightarrow> nat \<Rightarrow> GuestVa \<Rightarrow> ('m, Operand) exec" where
  "get_operand i n address = cpu_r (\<lambda>s. operand s i n address)"

definition get_register :: "Register \<Rightarrow> GuestVa \<Rightarrow> ('m, u32) exec" where
  "get_register r address = cpu_r (\<lambda>s. read_register s r address)"

definition get_address :: "Instruction \<Rightarrow> GuestVa \<Rightarrow> bool \<Rightarrow> ('m, GuestVa) exec" where
  "get_address i address with_segment = cpu_r (\<lambda>s. effective_address s i address with_segment)"

definition get_carry :: "('m, u32) exec" where
  "get_carry = cpu_g (\<lambda>s. from_bool (eflags s AND CARRY \<noteq> 0))"

definition binary_alu :: "'m guest_memory \<Rightarrow> Instruction \<Rightarrow> GuestVa \<Rightarrow> AluKind \<Rightarrow> ('m, unit) exec" where
  "binary_alu gm i address k =
     bind_s (get_width i 0 address) (\<lambda>w.
     bind_s (get_operand i 0 address) (\<lambda>dst.
     bind_s (get_operand i 1 address) (\<lambda>src.
     bind_s (read_operand gm dst w) (\<lambda>a.
     bind_s (read_operand gm src w) (\<lambda>b.
     bind_s get_carry (\<lambda>carry.
     let (result, defined, bits, writes) = alu_compute k a b carry w in
     bind_s (if writes then write_operand gm dst w result else ret ()) (\<lambda>_.
     cpu_u (merge_flags defined bits))))))))"

definition step_by_one :: "'m guest_memory \<Rightarrow> Instruction \<Rightarrow> GuestVa \<Rightarrow> bool \<Rightarrow> ('m, unit) exec" where
  "step_by_one gm i address increment =
     bind_s (get_width i 0 address) (\<lambda>w.
     bind_s (get_operand i 0 address) (\<lambda>dst.
     bind_s (read_operand gm dst w) (\<lambda>a.
     let (result, bits) = if increment then add_bits a 1 0 w else sub_bits a 1 0 w in
     bind_s (write_operand gm dst w result) (\<lambda>_.
     cpu_u (merge_flags (ARITHMETIC AND NOT CARRY) bits)))))"

definition neg :: "'m guest_memory \<Rightarrow> Instruction \<Rightarrow> GuestVa \<Rightarrow> ('m, unit) exec" where
  "neg gm i address =
     bind_s (get_width i 0 address) (\<lambda>w.
     bind_s (get_operand i 0 address) (\<lambda>dst.
     bind_s (read_operand gm dst w) (\<lambda>a.
     let (result, bits) = sub_bits 0 a 0 w in
     bind_s (write_operand gm dst w result) (\<lambda>_.
     cpu_u (merge_flags ARITHMETIC bits)))))"

definition not_op :: "'m guest_memory \<Rightarrow> Instruction \<Rightarrow> GuestVa \<Rightarrow> ('m, unit) exec" where
  "not_op gm i address =
     bind_s (get_width i 0 address) (\<lambda>w.
     bind_s (get_operand i 0 address) (\<lambda>dst.
     bind_s (read_operand gm dst w) (\<lambda>a.
     write_operand gm dst w (NOT a))))"

section \<open>Moves and exchanges\<close>

definition mov :: "'m guest_memory \<Rightarrow> Instruction \<Rightarrow> GuestVa \<Rightarrow> ('m, unit) exec" where
  "mov gm i address =
     bind_s (get_width i 0 address) (\<lambda>w.
     bind_s (get_operand i 1 address) (\<lambda>src.
     bind_s (read_operand gm src w) (\<lambda>v.
     bind_s (get_operand i 0 address) (\<lambda>dst.
     write_operand gm dst w v))))"

text \<open>\<^verbatim>\<open>raw as u8 as i8\<close> and so on, back in 32 bits.\<close>

fun sign_extend :: "u32 \<Rightarrow> Width \<Rightarrow> u32" where
  "sign_extend v B = scast (ucast v :: u8)"
| "sign_extend v W = scast (ucast v :: u16)"
| "sign_extend v D = v"

definition widen :: "'m guest_memory \<Rightarrow> Instruction \<Rightarrow> GuestVa \<Rightarrow> bool \<Rightarrow> ('m, unit) exec" where
  "widen gm i address sign =
     bind_s (get_width i 0 address) (\<lambda>dst_width.
     bind_s (get_width i 1 address) (\<lambda>src_width.
     bind_s (get_operand i 1 address) (\<lambda>src.
     bind_s (read_operand gm src src_width) (\<lambda>v.
     let raw = v AND width_mask src_width;
         v' = (if sign then sign_extend raw src_width else raw) in
     bind_s (get_operand i 0 address) (\<lambda>dst.
     write_operand gm dst dst_width v')))))"

definition lea :: "Instruction \<Rightarrow> GuestVa \<Rightarrow> ('m, unit) exec" where
  "lea i address =
     (if ins_op_kind i 0 \<noteq> OpRegister \<or> ins_op_kind i 1 \<noteq> OpMemory then unsupported address
      else bind_s (gets_r (\<lambda>_. ok_or (from_bytes (ins_op_register_size i 0)) (ExecUnsupported address))) (\<lambda>w.
           bind_s (get_address i address False) (\<lambda>offset.
           write_register (ins_op_register i 0) (offset AND width_mask w) address)))"

definition xchg :: "'m guest_memory \<Rightarrow> Instruction \<Rightarrow> GuestVa \<Rightarrow> ('m, unit) exec" where
  "xchg gm i address =
     bind_s (get_width i 0 address) (\<lambda>w.
     bind_s (get_operand i 0 address) (\<lambda>first.
     bind_s (get_operand i 1 address) (\<lambda>second.
     bind_s (read_operand gm first w) (\<lambda>a.
     bind_s (read_operand gm second w) (\<lambda>b.
     bind_s (write_operand gm first w b) (\<lambda>_.
     write_operand gm second w a))))))"

definition xadd :: "'m guest_memory \<Rightarrow> Instruction \<Rightarrow> GuestVa \<Rightarrow> ('m, unit) exec" where
  "xadd gm i address =
     bind_s (get_width i 0 address) (\<lambda>w.
     bind_s (get_operand i 0 address) (\<lambda>dst.
     bind_s (get_operand i 1 address) (\<lambda>src.
     bind_s (read_operand gm dst w) (\<lambda>a.
     bind_s (read_operand gm src w) (\<lambda>b.
     let (sum, bits) = add_bits a b 0 w in
     bind_s (case dst of
               MemOp _ \<Rightarrow> bind_s (write_operand gm dst w sum) (\<lambda>_. write_operand gm src w a)
             | _ \<Rightarrow> bind_s (write_operand gm src w a) (\<lambda>_. write_operand gm dst w sum)) (\<lambda>_.
     cpu_u (merge_flags ARITHMETIC bits)))))))"

fun accumulator :: "Width \<Rightarrow> Register" where
  "accumulator B = AL" | "accumulator W = AX" | "accumulator D = EAX"

definition cmpxchg :: "'m guest_memory \<Rightarrow> Instruction \<Rightarrow> GuestVa \<Rightarrow> ('m, unit) exec" where
  "cmpxchg gm i address =
     bind_s (get_width i 0 address) (\<lambda>w.
     bind_s (get_operand i 0 address) (\<lambda>dst.
     bind_s (get_operand i 1 address) (\<lambda>src.
     bind_s (read_operand gm dst w) (\<lambda>current.
     bind_s (get_register (accumulator w) address) (\<lambda>acc.
     let (_, bits) = sub_bits acc current 0 w in
     bind_s (if acc = current
             then bind_s (read_operand gm src w) (write_operand gm dst w)
             else bind_s (write_operand gm dst w current) (\<lambda>_.
                  write_register (accumulator w) current address)) (\<lambda>_.
     cpu_u (merge_flags ARITHMETIC bits)))))))"

definition cmpxchg8b :: "'m guest_memory \<Rightarrow> Instruction \<Rightarrow> GuestVa \<Rightarrow> ('m, unit) exec" where
  "cmpxchg8b gm i address =
     (if ins_op_kind i 0 \<noteq> OpMemory then unsupported address
      else bind_s (get_address i address True) (\<lambda>location.
           bind_s (on_mem (gm_read gm location 8)) (\<lambda>current.
           let low = from_le_bytes (take 4 current); high = from_le_bytes (drop 4 current) in
           bind_s (cpu_g gpr) (\<lambda>r.
           if low = r 0 \<and> high = r 2
           then bind_s (on_mem (gm_write gm location (to_le_bytes (r 3) @ to_le_bytes (r 1)))) (\<lambda>_.
                cpu_u (\<lambda>s. s\<lparr>eflags := eflags s OR ZERO\<rparr>))
           else bind_s (on_mem (gm_write gm location current)) (\<lambda>_.
                cpu_u (\<lambda>s. (set_gpr 2 high (set_gpr 0 low s))\<lparr>eflags := eflags s AND NOT ZERO\<rparr>))))))"

end
