(* ===== verification/Exec_Arith.thy ===== *)
theory Exec_Arith
  imports Exec_Families
begin

text \<open>
  Shifts, rotates, double shifts, multiplication, division, byte swaps, bit tests and bit scans of
  \<^verbatim>\<open>exbawks-cpu/src/exec.rs\<close>.  The value computations are separate functions of the operand, the count
  and the width; the instruction definitions around them resolve operands, write the result and
  merge the flags the source defines.
\<close>

unbundle bit_operations_syntax

section \<open>Shifts and rotates\<close>

datatype ShiftKind = Shl | Shr | Sar | Rol | Ror | Rcl | Rcr

definition checked_shr :: "u32 \<Rightarrow> nat \<Rightarrow> u32 option" where
  "checked_shr a n = (if n < 32 then Some (drop_bit n a) else None)"

definition checked_shl :: "u32 \<Rightarrow> nat \<Rightarrow> u32 option" where
  "checked_shl a n = (if n < 32 then Some (push_bit n a) else None)"

definition unwrap_or :: "'a option \<Rightarrow> 'a \<Rightarrow> 'a" where
  "unwrap_or x d = (case x of Some v \<Rightarrow> v | None \<Rightarrow> d)"

definition top_bit :: "u32 \<Rightarrow> Width \<Rightarrow> u32" where
  "top_bit v w = from_bool (v AND sign_bit w \<noteq> 0)"

fun rcl_loop :: "Width \<Rightarrow> nat \<Rightarrow> u32 \<Rightarrow> u32 \<Rightarrow> u32 \<times> u32" where
  "rcl_loop w 0 v carry = (v, carry)"
| "rcl_loop w (Suc n) v carry =
     rcl_loop w n ((push_bit 1 v OR carry) AND width_mask w) (top_bit v w)"

fun rcr_loop :: "Width \<Rightarrow> nat \<Rightarrow> u32 \<Rightarrow> u32 \<Rightarrow> u32 \<times> u32" where
  "rcr_loop w 0 v carry = (v, carry)"
| "rcr_loop w (Suc n) v carry =
     rcr_loop w n (drop_bit 1 v OR push_bit (width_bits w - 1) carry) (v AND 1)"

fun shift_compute :: "ShiftKind \<Rightarrow> u32 \<Rightarrow> nat \<Rightarrow> u32 \<Rightarrow> Width \<Rightarrow> u32 \<times> u32 \<times> bool" where
  "shift_compute Shl a count carry_in w =
     (let wide = push_bit count (ucast a :: u64);
          result = ucast wide AND width_mask w;
          carry = ucast (drop_bit (width_bits w) wide AND 1)
      in (result, carry, carry XOR top_bit result w \<noteq> 0))"
| "shift_compute Shr a count carry_in w =
     (let result = (if count \<ge> 32 then 0 else drop_bit count a AND width_mask w);
          carry = (if count > 32 then 0 else drop_bit (count - 1) a AND 1)
      in (result, carry, a AND sign_bit w \<noteq> 0))"
| "shift_compute Sar a count carry_in w =
     (let extended = sint (sign_extend a w);
          result = word_of_int (drop_bit (min count 63) extended) AND width_mask w;
          carry = word_of_int (drop_bit (min (count - 1) 63) extended AND 1)
      in (result, carry, False))"
| "shift_compute Rol a count carry_in w =
     (let rotation = count mod width_bits w;
          result = (push_bit rotation a OR unwrap_or (checked_shr a (width_bits w - rotation)) 0) AND width_mask w;
          carry = result AND 1
      in (result, carry, carry XOR top_bit result w \<noteq> 0))"
| "shift_compute Ror a count carry_in w =
     (let rotation = count mod width_bits w;
          result = (drop_bit rotation a OR unwrap_or (checked_shl a (width_bits w - rotation)) 0) AND width_mask w;
          carry = top_bit result w;
          nxt = from_bool (result AND drop_bit 1 (sign_bit w) \<noteq> 0)
      in (result, carry, carry XOR nxt \<noteq> 0))"
| "shift_compute Rcl a count carry_in w =
     (let (v, carry) = rcl_loop w (count mod (width_bits w + 1)) a carry_in
      in (v, carry, carry XOR top_bit v w \<noteq> 0))"
| "shift_compute Rcr a count carry_in w =
     (let overflow = (carry_in XOR top_bit a w \<noteq> 0);
          (v, carry) = rcr_loop w (count mod (width_bits w + 1)) a carry_in
      in (v, carry, overflow))"

definition shift_flags :: "ShiftKind \<Rightarrow> u32 \<Rightarrow> u32 \<Rightarrow> bool \<Rightarrow> nat \<Rightarrow> Width \<Rightarrow> u32 \<times> u32" where
  "shift_flags k result carry_out overflow count w =
     (let (defined, vals) =
        (if k \<in> {Rol, Ror, Rcl, Rcr} then (CARRY, carry_out * CARRY)
         else
           ((if count \<ge> width_bits w \<and> k \<in> {Shl, Shr}
             then (CARRY OR SIGN OR ZERO OR PARITY) AND NOT CARRY
             else CARRY OR SIGN OR ZERO OR PARITY),
            result_bits result w OR (carry_out * CARRY)))
      in if count = 1 then (defined OR OVERFLOW, vals OR (from_bool overflow * OVERFLOW)) else (defined, vals))"

definition shift_count :: "Instruction \<Rightarrow> nat \<Rightarrow> GuestVa \<Rightarrow> ('m, nat) exec" where
  "shift_count i n address =
     (if ins_op_kind i n = OpImmediate8 then ret (unat ((ucast (ins_immediate8 i) :: u32) AND 0x1F))
      else if ins_op_kind i n = OpRegister \<and> ins_op_register i n = CL
      then cpu_g (\<lambda>s. unat (gpr s 1 AND 0x1F))
      else unsupported address)"

definition shift :: "'m guest_memory \<Rightarrow> Instruction \<Rightarrow> GuestVa \<Rightarrow> ShiftKind \<Rightarrow> ('m, unit) exec" where
  "shift gm i address k =
     bind_s (get_width i 0 address) (\<lambda>w.
     bind_s (shift_count i 1 address) (\<lambda>count.
     bind_s (get_operand i 0 address) (\<lambda>dst.
     bind_s (read_operand gm dst w) (\<lambda>v.
     let a = v AND width_mask w in
     if count = 0 then write_operand gm dst w a
     else
       bind_s get_carry (\<lambda>carry_in.
       let (result, carry_out, overflow) = shift_compute k a count carry_in w in
       bind_s (write_operand gm dst w result) (\<lambda>_.
       let (defined, vals) = shift_flags k result carry_out overflow count w in
       cpu_u (merge_flags defined vals)))))))"

definition double_shift_compute :: "bool \<Rightarrow> u128 \<Rightarrow> u128 \<Rightarrow> nat \<Rightarrow> Width \<Rightarrow> u32 \<times> u32" where
  "double_shift_compute left a b count w =
     (if left
      then let shifted = push_bit count (push_bit (width_bits w) a OR b)
           in (ucast (drop_bit (width_bits w) shifted) AND width_mask w,
               ucast (drop_bit (2 * width_bits w) shifted AND 1))
      else let wide = push_bit (width_bits w) b OR a
           in (ucast (drop_bit count wide) AND width_mask w, ucast (drop_bit (count - 1) wide AND 1)))"

definition double_shift :: "'m guest_memory \<Rightarrow> Instruction \<Rightarrow> GuestVa \<Rightarrow> bool \<Rightarrow> ('m, unit) exec" where
  "double_shift gm i address left =
     bind_s (get_width i 0 address) (\<lambda>w.
     if w = B then unsupported address
     else
       bind_s (shift_count i 2 address) (\<lambda>count.
       bind_s (get_operand i 0 address) (\<lambda>dst.
       bind_s (get_operand i 1 address) (\<lambda>src.
       bind_s (read_operand gm dst w) (\<lambda>av.
       bind_s (read_operand gm src w) (\<lambda>bv.
       let a = ucast (av AND width_mask w) :: u128; b = ucast (bv AND width_mask w) :: u128 in
       if count = 0 then write_operand gm dst w (ucast a)
       else
         let (result, carry) = double_shift_compute left a b count w in
         bind_s (write_operand gm dst w result) (\<lambda>_.
         let defined = CARRY OR SIGN OR ZERO OR PARITY;
             vals = result_bits result w OR (carry * CARRY);
             sign_changed = ((ucast a XOR result) AND sign_bit w \<noteq> 0) in
         if count = 1
         then cpu_u (merge_flags (defined OR OVERFLOW) (vals OR (from_bool sign_changed * OVERFLOW)))
         else cpu_u (merge_flags defined vals))))))))"

section \<open>Multiplication and division\<close>

definition overflow_flags :: "bool \<Rightarrow> CpuState \<Rightarrow> CpuState" where
  "overflow_flags overflowed =
     (let b = from_bool overflowed in merge_flags (CARRY OR OVERFLOW) ((b * CARRY) OR (b * OVERFLOW)))"

definition low16 :: "u32 \<Rightarrow> u32 \<Rightarrow> u32" where
  "low16 old v = (old AND 0xFFFF0000) OR v"

fun mul_result :: "Width \<Rightarrow> u64 \<Rightarrow> CpuState \<Rightarrow> CpuState" where
  "mul_result B b s =
     (let product = ucast (gpr s 0 AND 0xFF) * b in
      overflow_flags (product > 0xFF) (set_gpr 0 (low16 (gpr s 0) (ucast product AND 0xFFFF)) s))"
| "mul_result W b s =
     (let product = ucast (gpr s 0 AND 0xFFFF) * b in
      overflow_flags (product > 0xFFFF)
        (set_gpr 2 (low16 (gpr s 2) (ucast (drop_bit 16 product) AND 0xFFFF))
          (set_gpr 0 (low16 (gpr s 0) (ucast product AND 0xFFFF)) s)))"
| "mul_result D b s =
     (let product = ucast (gpr s 0) * b in
      overflow_flags (product > 0xFFFFFFFF)
        (set_gpr 2 (ucast (drop_bit 32 product)) (set_gpr 0 (ucast product) s)))"

definition mul :: "'m guest_memory \<Rightarrow> Instruction \<Rightarrow> GuestVa \<Rightarrow> ('m, unit) exec" where
  "mul gm i address =
     bind_s (get_width i 0 address) (\<lambda>w.
     bind_s (get_operand i 0 address) (\<lambda>src.
     bind_s (read_operand gm src w) (\<lambda>v.
     cpu_u (mul_result w (ucast (v AND width_mask w))))))"

fun imul_result :: "Width \<Rightarrow> int \<Rightarrow> CpuState \<Rightarrow> CpuState" where
  "imul_result B b s =
     (let product = sint (ucast (gpr s 0) :: u8) * b in
      overflow_flags (product \<noteq> sint (word_of_int product :: u8))
        (set_gpr 0 (low16 (gpr s 0) (word_of_int product AND 0xFFFF)) s))"
| "imul_result W b s =
     (let product = sint (ucast (gpr s 0) :: u16) * b in
      overflow_flags (product \<noteq> sint (word_of_int product :: u16))
        (set_gpr 2 (low16 (gpr s 2) (word_of_int (drop_bit 16 product) AND 0xFFFF))
          (set_gpr 0 (low16 (gpr s 0) (word_of_int product AND 0xFFFF)) s)))"
| "imul_result D b s =
     (let product = sint (gpr s 0) * b in
      overflow_flags (product \<noteq> sint (word_of_int product :: u32))
        (set_gpr 2 (word_of_int (drop_bit 32 product)) (set_gpr 0 (word_of_int product) s)))"

definition imul :: "'m guest_memory \<Rightarrow> Instruction \<Rightarrow> GuestVa \<Rightarrow> ('m, unit) exec" where
  "imul gm i address =
     (if ins_code i \<in> {Imul_rm8, Imul_rm16, Imul_rm32} then
        bind_s (get_width i 0 address) (\<lambda>w.
        bind_s (get_operand i 0 address) (\<lambda>src.
        bind_s (read_operand gm src w) (\<lambda>v.
        cpu_u (imul_result w (sint (sign_extend v w))))))
      else if ins_code i \<in> {Imul_r16_rm16, Imul_r32_rm32, Imul_r16_rm16_imm8, Imul_r32_rm32_imm8,
                            Imul_r16_rm16_imm16, Imul_r32_rm32_imm32} then
        bind_s (get_width i 0 address) (\<lambda>w.
        let (a_index, b_index) = (if ins_op_count i = 2 then (0, 1) else (1, 2)) in
        bind_s (get_operand i a_index address) (\<lambda>a_operand.
        bind_s (read_operand gm a_operand w) (\<lambda>av.
        bind_s (get_operand i b_index address) (\<lambda>b_operand.
        bind_s (read_operand gm b_operand w) (\<lambda>bv.
        let product = sint (sign_extend av w) * sint (sign_extend bv w);
            truncated = word_of_int product AND width_mask w;
            overflowed = (product \<noteq> sint (sign_extend truncated w)) in
        bind_s (get_operand i 0 address) (\<lambda>dst.
        bind_s (write_operand gm dst w truncated) (\<lambda>_.
        cpu_u (overflow_flags overflowed))))))))
      else unsupported address)"

text \<open>\<^verbatim>\<open>wrapping_div\<close> and \<^verbatim>\<open>wrapping_rem\<close> truncate towards zero and wrap the one quotient that does not fit.\<close>

definition wrapping_div32 :: "int \<Rightarrow> int \<Rightarrow> int" where
  "wrapping_div32 a b = sint (word_of_int (a sdiv b) :: u32)"

definition wrapping_div64 :: "int \<Rightarrow> int \<Rightarrow> int" where
  "wrapping_div64 a b = sint (word_of_int (a sdiv b) :: u64)"

fun div_put :: "Width \<Rightarrow> u32 \<Rightarrow> u32 \<Rightarrow> CpuState \<Rightarrow> CpuState" where
  "div_put B quo rem s = set_gpr 0 ((gpr s 0 AND 0xFFFF0000) OR push_bit 8 rem OR quo) s"
| "div_put W quo rem s =
     set_gpr 2 (low16 (gpr s 2) rem) (set_gpr 0 (low16 (gpr s 0) quo) s)"
| "div_put D quo rem s = set_gpr 2 rem (set_gpr 0 quo s)"

fun div_result :: "Width \<Rightarrow> bool \<Rightarrow> u32 \<Rightarrow> CpuState \<Rightarrow> CpuState option" where
  "div_result B is_signed divisor s =
     (let dividend = gpr s 0 AND 0xFFFF in
      if is_signed then
        (let n = sint (ucast dividend :: u16); d = sint (ucast divisor :: u8); q = wrapping_div32 n d in
         if q > 127 \<or> q < - 128 then None
         else Some (div_put B (word_of_int q AND 0xFF) (word_of_int (n smod d) AND 0xFF) s))
      else if dividend div divisor > 0xFF then None
      else Some (div_put B (dividend div divisor) (dividend mod divisor) s))"
| "div_result W is_signed divisor s =
     (let dividend = push_bit 16 (gpr s 2 AND 0xFFFF) OR (gpr s 0 AND 0xFFFF) in
      if is_signed then
        (let n = sint dividend; d = sint (ucast divisor :: u16); q = wrapping_div32 n d in
         if q > 32767 \<or> q < - 32768 then None
         else Some (div_put W (word_of_int q AND 0xFFFF) (word_of_int (n smod d) AND 0xFFFF) s))
      else if dividend div divisor > 0xFFFF then None
      else Some (div_put W (dividend div divisor) (dividend mod divisor) s))"
| "div_result D is_signed divisor s =
     (let dividend = push_bit 32 (ucast (gpr s 2)) OR ucast (gpr s 0) :: u64 in
      if is_signed then
        (let n = sint dividend; d = sint divisor; q = wrapping_div64 n d in
         if q > 2147483647 \<or> q < - 2147483648 then None
         else Some (div_put D (word_of_int q) (word_of_int (n smod d)) s))
      else
        (let d = ucast divisor; q = dividend div d in
         if q > 0xFFFFFFFF then None
         else Some (div_put D (ucast q) (ucast (dividend mod d)) s)))"

definition div_op :: "'m guest_memory \<Rightarrow> Instruction \<Rightarrow> GuestVa \<Rightarrow> bool \<Rightarrow> ('m, unit) exec" where
  "div_op gm i address is_signed =
     bind_s (get_width i 0 address) (\<lambda>w.
     bind_s (get_operand i 0 address) (\<lambda>src.
     bind_s (read_operand gm src w) (\<lambda>v.
     let divisor = v AND width_mask w in
     if divisor = 0 then throw (Divide address)
     else
       bind_s (cpu_r (\<lambda>s. ok_or (div_result w is_signed divisor s) (Divide address))) (\<lambda>s'.
       cpu_u (\<lambda>_. s')))))"

section \<open>Bits and bytes\<close>

definition swap_bytes :: "u32 \<Rightarrow> u32" where
  "swap_bytes v = from_le_bytes (rev (to_le_bytes v))"

definition bswap :: "Instruction \<Rightarrow> GuestVa \<Rightarrow> ('m, unit) exec" where
  "bswap i address =
     (let register = ins_op_register i 0 in
      if ins_op_register_size i 0 \<noteq> 4 then unsupported address
      else bind_s (get_register register address) (\<lambda>v.
           write_register register (swap_bytes v) address))"

datatype BitOp = BitTest | BitSet | BitReset | BitComplement

fun bit_update :: "BitOp \<Rightarrow> u32 \<Rightarrow> nat \<Rightarrow> u32 option" where
  "bit_update BitTest v n = None"
| "bit_update BitSet v n = Some (v OR push_bit n 1)"
| "bit_update BitReset v n = Some (v AND NOT (push_bit n 1))"
| "bit_update BitComplement v n = Some (v XOR push_bit n 1)"

definition bit_index :: "u32 \<Rightarrow> Width \<Rightarrow> nat" where
  "bit_index v w = unat (v AND word_of_nat (width_bits w - 1))"

definition trailing_zeros :: "u32 \<Rightarrow> nat" where
  "trailing_zeros v = length (takeWhile (\<lambda>n. \<not> bit v n) [0 ..< 32])"

definition leading_zeros :: "u32 \<Rightarrow> nat" where
  "leading_zeros v = length (takeWhile (\<lambda>n. \<not> bit v n) (rev [0 ..< 32]))"

definition bit_location :: "'m guest_memory \<Rightarrow> Instruction \<Rightarrow> GuestVa \<Rightarrow> Width \<Rightarrow> ('m, Operand \<times> nat) exec" where
  "bit_location gm i address w =
     (if ins_op_kind i 0 = OpRegister then
        bind_s (get_operand i 1 address) (\<lambda>index.
        bind_s (read_operand gm index w) (\<lambda>v.
        bind_s (get_operand i 0 address) (\<lambda>target.
        ret (target, bit_index v w))))
      else if ins_op_kind i 0 = OpMemory \<and> ins_op_kind i 1 = OpImmediate8 then
        bind_s (get_address i address True) (\<lambda>base.
        ret (MemOp base, bit_index (ucast (ins_immediate8 i)) w))
      else if ins_op_kind i 0 = OpMemory \<and> ins_op_kind i 1 = OpRegister then
        bind_s (get_address i address True) (\<lambda>base.
        bind_s (get_register (ins_op_register i 1) address) (\<lambda>raw.
        let index = sint (sign_extend raw w);
            element = drop_bit (trailing_zeros (word_of_nat (width_bits w))) index;
            byte_offset = word_of_int (element * int (width_bytes w)) in
        ret (MemOp (base + byte_offset), bit_index (word_of_int index) w)))
      else unsupported address)"

definition bit_test :: "'m guest_memory \<Rightarrow> Instruction \<Rightarrow> GuestVa \<Rightarrow> BitOp \<Rightarrow> ('m, unit) exec" where
  "bit_test gm i address op =
     bind_s (get_width i 0 address) (\<lambda>w.
     if w = B then unsupported address
     else
       bind_s (bit_location gm i address w) (\<lambda>(target, n).
       bind_s (read_operand gm target w) (\<lambda>v.
       let carry = drop_bit n v AND 1 in
       bind_s (case bit_update op v n of
                 None \<Rightarrow> ret ()
               | Some updated \<Rightarrow> write_operand gm target w updated) (\<lambda>_.
       cpu_u (merge_flags CARRY (carry * CARRY))))))"

definition bit_scan :: "'m guest_memory \<Rightarrow> Instruction \<Rightarrow> GuestVa \<Rightarrow> bool \<Rightarrow> ('m, unit) exec" where
  "bit_scan gm i address forward =
     bind_s (get_width i 0 address) (\<lambda>w.
     bind_s (get_operand i 1 address) (\<lambda>src.
     bind_s (read_operand gm src w) (\<lambda>rv.
     let v = rv AND width_mask w in
     if v = 0 then cpu_u (merge_flags ZERO ZERO)
     else
       let index = (if forward then trailing_zeros v else 31 - leading_zeros v) in
       bind_s (get_operand i 0 address) (\<lambda>dst.
       bind_s (write_operand gm dst w (word_of_nat index)) (\<lambda>_.
       cpu_u (merge_flags ZERO 0))))))"

end
