(* ===== verification/Exec_Stack.thy ===== *)
theory Exec_Stack
  imports Exec_Arith
begin

text \<open>
  More of \<^verbatim>\<open>exbawks-cpu/src/exec.rs\<close>: the stack instructions, the string instructions with their
  repeat prefixes, and the instructions with fixed operands.
\<close>

unbundle bit_operations_syntax

section \<open>The stack\<close>

definition width_bytes32 :: "Width \<Rightarrow> u32" where
  "width_bytes32 w = word_of_nat (width_bytes w)"

definition push_value :: "'m guest_memory \<Rightarrow> Width \<Rightarrow> u32 \<Rightarrow> ('m, unit) exec" where
  "push_value gm w v =
     bind_s (cpu_g (\<lambda>s. gpr s 4 - width_bytes32 w)) (\<lambda>new_esp.
     bind_s (write_memory gm new_esp w v) (\<lambda>_.
     cpu_u (set_gpr 4 new_esp)))"

definition pop_value :: "'m guest_memory \<Rightarrow> Width \<Rightarrow> ('m, u32) exec" where
  "pop_value gm w =
     bind_s (cpu_g (\<lambda>s. gpr s 4)) (\<lambda>esp.
     bind_s (read_memory gm esp w) (\<lambda>v.
     bind_s (cpu_u (\<lambda>s. set_gpr 4 (gpr s 4 + width_bytes32 w) s)) (\<lambda>_.
     ret v)))"

definition push_source :: "'m guest_memory \<Rightarrow> Instruction \<Rightarrow> GuestVa \<Rightarrow> ('m, Width \<times> u32) exec" where
  "push_source gm i address =
     (case ins_op_kind i 0 of
        OpImmediate8to32 \<Rightarrow> ret (D, ins_immediate8to32 i)
      | OpImmediate32 \<Rightarrow> ret (D, ins_immediate32 i)
      | OpImmediate8to16 \<Rightarrow> ret (W, ucast (ins_immediate8to16 i))
      | OpImmediate16 \<Rightarrow> ret (W, ucast (ins_immediate16 i))
      | _ \<Rightarrow>
        bind_s (get_width i 0 address) (\<lambda>w.
        bind_s (get_operand i 0 address) (\<lambda>src.
        bind_s (read_operand gm src w) (\<lambda>v.
        ret (w, v)))))"

definition push :: "'m guest_memory \<Rightarrow> Instruction \<Rightarrow> GuestVa \<Rightarrow> ('m, unit) exec" where
  "push gm i address = bind_s (push_source gm i address) (\<lambda>(w, v). push_value gm w v)"

text \<open>\<^verbatim>\<open>and_then\<close> on the destination followed by the restoration of ESP on either error.\<close>

definition on_error :: "('s, 'e, 'a) st \<Rightarrow> ('s \<Rightarrow> 's) \<Rightarrow> ('s, 'e, 'a) st" where
  "on_error f undo s = (case f s of (Inl e, s') \<Rightarrow> (Inl e, undo s') | (Inr x, s') \<Rightarrow> (Inr x, s'))"

definition pop :: "'m guest_memory \<Rightarrow> Instruction \<Rightarrow> GuestVa \<Rightarrow> ('m, unit) exec" where
  "pop gm i address =
     bind_s (get_width i 0 address) (\<lambda>w.
     bind_s (cpu_g (\<lambda>s. gpr s 4)) (\<lambda>old_esp.
     bind_s (read_memory gm old_esp w) (\<lambda>v.
     bind_s (cpu_u (set_gpr 4 (old_esp + width_bytes32 w))) (\<lambda>_.
     on_error (bind_s (get_operand i 0 address) (\<lambda>dst. write_operand gm dst w v))
       (\<lambda>m. m\<lparr>cpu := set_gpr 4 old_esp (cpu m)\<rparr>)))))"

definition pushad_frame :: "CpuState \<Rightarrow> u8 list" where
  "pushad_frame s = concat (map (\<lambda>r. to_le_bytes (gpr s r)) [7, 6, 5, 4, 3, 2, 1, 0])"

definition pushad :: "'m guest_memory \<Rightarrow> ('m, unit) exec" where
  "pushad gm =
     bind_s (cpu_g (\<lambda>s. (gpr s 4 - 32, pushad_frame s))) (\<lambda>(base, frame).
     bind_s (on_mem (gm_write gm base frame)) (\<lambda>_.
     cpu_u (set_gpr 4 base)))"

definition frame_value :: "u8 list \<Rightarrow> nat \<Rightarrow> u32" where
  "frame_value frame slot = from_le_bytes (take 4 (drop (slot * 4) frame))"

definition popad :: "'m guest_memory \<Rightarrow> ('m, unit) exec" where
  "popad gm =
     bind_s (cpu_g (\<lambda>s. gpr s 4)) (\<lambda>esp.
     bind_s (on_mem (gm_read gm esp 32)) (\<lambda>frame.
     cpu_u (\<lambda>s.
       let s = set_gpr 7 (frame_value frame 0) s;
           s = set_gpr 6 (frame_value frame 1) s;
           s = set_gpr 5 (frame_value frame 2) s;
           s = set_gpr 3 (frame_value frame 4) s;
           s = set_gpr 2 (frame_value frame 5) s;
           s = set_gpr 1 (frame_value frame 6) s;
           s = set_gpr 0 (frame_value frame 7) s
       in set_gpr 4 (gpr s 4 + 32) s)))"

definition leave :: "'m guest_memory \<Rightarrow> Instruction \<Rightarrow> GuestVa \<Rightarrow> ('m, unit) exec" where
  "leave gm i address =
     (if ins_code i \<noteq> Leaved then unsupported address
      else bind_s (cpu_g (\<lambda>s. gpr s 5)) (\<lambda>frame.
           bind_s (read_memory gm frame D) (\<lambda>v.
           cpu_u (\<lambda>s. set_gpr 5 v (set_gpr 4 (frame + 4) s)))))"

definition popfd_writable :: u32 where
  "popfd_writable = ARITHMETIC OR DIRECTION OR INTERRUPT OR ALIGNMENT_CHECK OR ID"

definition popfd :: "'m guest_memory \<Rightarrow> ('m, unit) exec" where
  "popfd gm =
     bind_s (pop_value gm D) (\<lambda>v.
     cpu_u (\<lambda>s. s\<lparr>eflags := (v AND popfd_writable) OR (eflags s AND NOT popfd_writable) OR 0x02\<rparr>))"

section \<open>String instructions\<close>

datatype StringKind = Movs | Stos | Lods | Scas | Cmps

fun string_operands_valid :: "StringKind \<Rightarrow> Instruction \<Rightarrow> bool" where
  "string_operands_valid Movs i \<longleftrightarrow> ins_op_kind i 0 = OpMemoryESEDI \<and> ins_op_kind i 1 = OpMemorySegESI"
| "string_operands_valid Stos i \<longleftrightarrow> ins_op_kind i 0 = OpMemoryESEDI"
| "string_operands_valid Lods i \<longleftrightarrow> ins_op_kind i 1 = OpMemorySegESI"
| "string_operands_valid Scas i \<longleftrightarrow> ins_op_kind i 1 = OpMemoryESEDI"
| "string_operands_valid Cmps i \<longleftrightarrow> ins_op_kind i 0 = OpMemorySegESI \<and> ins_op_kind i 1 = OpMemoryESEDI"

definition MAX_REP_ITERATIONS_PER_STEP :: nat where
  "MAX_REP_ITERATIONS_PER_STEP = 0x10000"

definition string_delta :: "Width \<Rightarrow> CpuState \<Rightarrow> u32" where
  "string_delta w s = (if eflags s AND DIRECTION \<noteq> 0 then 0 - width_bytes32 w else width_bytes32 w)"

definition advance :: "nat \<Rightarrow> u32 \<Rightarrow> CpuState \<Rightarrow> CpuState" where
  "advance r delta s = set_gpr r (gpr s r + delta) s"

fun string_element :: "'m guest_memory \<Rightarrow> GuestVa \<Rightarrow> Width \<Rightarrow> GuestVa \<Rightarrow> GuestVa \<Rightarrow> u32 \<Rightarrow> StringKind \<Rightarrow> ('m, unit) exec" where
  "string_element gm address w source destination delta Movs =
     bind_s (read_memory gm source w) (\<lambda>v.
     bind_s (write_memory gm destination w v) (\<lambda>_.
     cpu_u (advance 7 delta \<circ> advance 6 delta)))"
| "string_element gm address w source destination delta Stos =
     bind_s (get_register (accumulator w) address) (\<lambda>v.
     bind_s (write_memory gm destination w v) (\<lambda>_.
     cpu_u (advance 7 delta)))"
| "string_element gm address w source destination delta Lods =
     bind_s (read_memory gm source w) (\<lambda>v.
     bind_s (write_register (accumulator w) v address) (\<lambda>_.
     cpu_u (advance 6 delta)))"
| "string_element gm address w source destination delta Scas =
     bind_s (read_memory gm destination w) (\<lambda>v.
     bind_s (get_register (accumulator w) address) (\<lambda>a.
     cpu_u (advance 7 delta \<circ> merge_flags ARITHMETIC (snd (sub_bits a v 0 w)))))"
| "string_element gm address w source destination delta Cmps =
     bind_s (read_memory gm source w) (\<lambda>a.
     bind_s (read_memory gm destination w) (\<lambda>b.
     cpu_u (advance 7 delta \<circ> advance 6 delta \<circ> merge_flags ARITHMETIC (snd (sub_bits a b 0 w)))))"

text \<open>One pass of the loop body up to the repeat test.\<close>

definition string_pass :: "'m guest_memory \<Rightarrow> GuestVa \<Rightarrow> StringKind \<Rightarrow> Width \<Rightarrow> u32 \<Rightarrow> u32 \<Rightarrow> ('m, unit) exec" where
  "string_pass gm address k w source_base destination_base =
     bind_s (cpu_g (\<lambda>s. (string_delta w s, source_base + gpr s 6, destination_base + gpr s 7)))
       (\<lambda>(delta, source, destination). string_element gm address w source destination delta k)"

text \<open>The loop, with the number of iterations that are left of this step's share.  Without a repeat
  prefix it is left in its first pass, so the share runs out only in the repeated forms.\<close>

fun string_loop :: "'m guest_memory \<Rightarrow> Instruction \<Rightarrow> GuestVa \<Rightarrow> StringKind \<Rightarrow> Width \<Rightarrow> u32 \<Rightarrow> u32 \<Rightarrow> nat \<Rightarrow> ('m, unit) exec" where
  "string_loop gm i address k w source_base destination_base left =
     bind_s (cpu_g (\<lambda>s. gpr s 1)) (\<lambda>ecx.
     if (ins_has_rep_prefix i \<or> ins_has_repne_prefix i) \<and> ecx = 0 then ret ()
     else
       (case left of
          0 \<Rightarrow> cpu_u (\<lambda>s. s\<lparr>eip := eip s - ins_len32 i\<rparr>)
        | Suc n \<Rightarrow>
            bind_s (string_pass gm address k w source_base destination_base) (\<lambda>_.
            if \<not> (ins_has_rep_prefix i \<or> ins_has_repne_prefix i) then ret ()
            else
              bind_s (cpu_u (\<lambda>s. set_gpr 1 (gpr s 1 - 1) s)) (\<lambda>_.
              bind_s (cpu_g (\<lambda>s. eflags s AND ZERO \<noteq> 0)) (\<lambda>zero.
              if k \<in> {Scas, Cmps} \<and> zero \<noteq> (\<not> ins_has_repne_prefix i) then ret ()
              else string_loop gm i address k w source_base destination_base n)))))"

definition string_op :: "'m guest_memory \<Rightarrow> Instruction \<Rightarrow> GuestVa \<Rightarrow> StringKind \<Rightarrow> Width \<Rightarrow> ('m, unit) exec" where
  "string_op gm i address k w =
     (if \<not> string_operands_valid k i then unsupported address
      else bind_s (cpu_r (\<lambda>s. segment_base s (ins_memory_segment i) address)) (\<lambda>source_base.
           bind_s (cpu_g (\<lambda>s. seg_base (segment s Es))) (\<lambda>destination_base.
           string_loop gm i address k w source_base destination_base MAX_REP_ITERATIONS_PER_STEP)))"

section \<open>Fixed-operand instructions\<close>

definition cbw :: "CpuState \<Rightarrow> CpuState" where
  "cbw s = set_gpr 0 ((gpr s 0 AND 0xFFFF0000) OR (scast (ucast (gpr s 0) :: u8) AND 0xFFFF)) s"

definition cwde :: "CpuState \<Rightarrow> CpuState" where
  "cwde s = set_gpr 0 (scast (ucast (gpr s 0) :: u16)) s"

definition cwd :: "CpuState \<Rightarrow> CpuState" where
  "cwd s = set_gpr 2 ((gpr s 2 AND 0xFFFF0000) OR (if gpr s 0 AND 0x8000 \<noteq> 0 then 0xFFFF else 0)) s"

definition cdq :: "CpuState \<Rightarrow> CpuState" where
  "cdq s = set_gpr 2 (if gpr s 0 AND 0x80000000 \<noteq> 0 then 0xFFFFFFFF else 0) s"

definition lahf :: "CpuState \<Rightarrow> CpuState" where
  "lahf s = set_gpr 0 ((gpr s 0 AND 0xFFFF00FF) OR push_bit 8 ((eflags s AND 0xD5) OR 0x02)) s"

definition sahf :: "CpuState \<Rightarrow> CpuState" where
  "sahf s = s\<lparr>eflags := (eflags s AND NOT 0xD5) OR ((drop_bit 8 (gpr s 0) AND 0xFF) AND 0xD5) OR 0x02\<rparr>"

definition clear_flag :: "u32 \<Rightarrow> CpuState \<Rightarrow> CpuState" where
  "clear_flag f s = s\<lparr>eflags := eflags s AND NOT f\<rparr>"

definition raise_flag :: "u32 \<Rightarrow> CpuState \<Rightarrow> CpuState" where
  "raise_flag f s = s\<lparr>eflags := eflags s OR f\<rparr>"

definition cmc :: "CpuState \<Rightarrow> CpuState" where
  "cmc s = s\<lparr>eflags := eflags s XOR CARRY\<rparr>"

definition cpuid :: "CpuState \<Rightarrow> CpuState" where
  "cpuid s =
     (let (a, b, c, d) =
        (if gpr s 0 = 0 then (2, 0x756E6547, 0x6C65746E, 0x49656E69)
         else if gpr s 0 = 1 then (0x0000068A, 0, 0, 0x0383F9FF)
         else (0x03020101, 0, 0, 0x0C040843))
      in set_gpr 2 d (set_gpr 1 c (set_gpr 3 b (set_gpr 0 a s))))"

definition rdtsc :: "CpuState \<Rightarrow> CpuState" where
  "rdtsc s = set_gpr 2 (ucast (drop_bit 32 (tsc s))) (set_gpr 0 (ucast (tsc s)) s)"

definition fldcw :: "'m guest_memory \<Rightarrow> Instruction \<Rightarrow> GuestVa \<Rightarrow> ('m, unit) exec" where
  "fldcw gm i address =
     bind_s (get_operand i 0 address) (\<lambda>source.
     bind_s (read_operand gm source W) (\<lambda>v.
     cpu_u (\<lambda>s. s\<lparr>x87 := (x87 s)\<lparr>x87_control := ucast v\<rparr>\<rparr>)))"

declare string_loop.simps [simp del]

end
