(* ===== verification/Exec_Step.thy ===== *)
theory Exec_Step
  imports Exec_Stack
begin

text \<open>
  Control flow and dispatch of \<^verbatim>\<open>exbawks-cpu/src/exec.rs\<close>: branches, the dispatch over mnemonics, port
  input and output, and the fetch-decode-execute step.  The decoder is the crate \<^verbatim>\<open>iced_x86\<close>, a
  parameter; the floating-point and vector units, which own their mnemonics, are parameters of the
  dispatch.
\<close>

unbundle bit_operations_syntax

section \<open>Branches\<close>

datatype ConditionalClass = SetClass | MovClass

definition set_mnemonics :: "Mnemonic list" where
  "set_mnemonics =
     [''Seta'', ''Setae'', ''Setb'', ''Setbe'', ''Sete'', ''Setg'', ''Setge'', ''Setl'', ''Setle'',
      ''Setne'', ''Setno'', ''Setnp'', ''Setns'', ''Seto'', ''Setp'', ''Sets'']"

definition cmov_mnemonics :: "Mnemonic list" where
  "cmov_mnemonics =
     [''Cmova'', ''Cmovae'', ''Cmovb'', ''Cmovbe'', ''Cmove'', ''Cmovg'', ''Cmovge'', ''Cmovl'', ''Cmovle'',
      ''Cmovne'', ''Cmovno'', ''Cmovnp'', ''Cmovns'', ''Cmovo'', ''Cmovp'', ''Cmovs'']"

definition mnemonic_class :: "Mnemonic \<Rightarrow> ConditionalClass option" where
  "mnemonic_class m =
     (if m \<in> set set_mnemonics then Some SetClass
      else if m \<in> set cmov_mnemonics then Some MovClass
      else None)"

definition branch_target :: "'m guest_memory \<Rightarrow> Instruction \<Rightarrow> GuestVa \<Rightarrow> ('m, u32) exec" where
  "branch_target gm i address =
     (case ins_op_kind i 0 of
        OpNearBranch32 \<Rightarrow> ret (ins_near_branch32 i)
      | OpRegister \<Rightarrow>
          bind_s (get_register (ins_op_register i 0) address) (\<lambda>v.
          if ins_op_register_size i 0 = 4 then ret v else unsupported address)
      | OpMemory \<Rightarrow>
          if ins_code i \<notin> {Jmp_rm32, Call_rm32} then unsupported address
          else bind_s (get_address i address True) (\<lambda>location. read_memory gm location D)
      | _ \<Rightarrow> unsupported address)"

definition set_eip :: "u32 \<Rightarrow> ('m, unit) exec" where
  "set_eip v = cpu_u (\<lambda>s. s\<lparr>eip := v\<rparr>)"

definition jump_if :: "Instruction \<Rightarrow> bool \<Rightarrow> ('m, Flow) exec" where
  "jump_if i taken =
     (if taken then bind_s (set_eip (ins_near_branch32 i)) (\<lambda>_. ret Jumped) else ret Next)"

definition branch_jmp :: "'m guest_memory \<Rightarrow> Instruction \<Rightarrow> GuestVa \<Rightarrow> ('m, Flow) exec" where
  "branch_jmp gm i address =
     bind_s (branch_target gm i address) (\<lambda>target.
     bind_s (set_eip target) (\<lambda>_. ret Jumped))"

definition branch_call :: "'m guest_memory \<Rightarrow> Instruction \<Rightarrow> GuestVa \<Rightarrow> ('m, Flow) exec" where
  "branch_call gm i address =
     bind_s (branch_target gm i address) (\<lambda>target.
     bind_s (push_value gm D (address + ins_len32 i)) (\<lambda>_.
     bind_s (set_eip target) (\<lambda>_. ret Jumped)))"

definition branch_ret :: "'m guest_memory \<Rightarrow> Instruction \<Rightarrow> GuestVa \<Rightarrow> ('m, Flow) exec" where
  "branch_ret gm i address =
     (if ins_code i \<notin> {Retnd, Retnd_imm16} then unsupported address
      else
        bind_s (pop_value gm D) (\<lambda>target.
        bind_s (if ins_code i = Retnd_imm16
                then cpu_u (\<lambda>s. set_gpr 4 (gpr s 4 + ucast (ins_immediate16 i)) s)
                else ret ()) (\<lambda>_.
        bind_s (set_eip target) (\<lambda>_. ret Jumped))))"

definition loop_taken :: "Mnemonic \<Rightarrow> u32 \<Rightarrow> bool \<Rightarrow> bool" where
  "loop_taken m counter zero \<longleftrightarrow>
     counter \<noteq> 0 \<and> (if m = ''Loope'' then zero else if m = ''Loopne'' then \<not> zero else True)"

definition branch_loop :: "Instruction \<Rightarrow> GuestVa \<Rightarrow> ('m, Flow) exec" where
  "branch_loop i address =
     (if ins_code i \<notin> {Loop_rel8_32_ECX, Loope_rel8_32_ECX, Loopne_rel8_32_ECX} then unsupported address
      else
        bind_s (cpu_g (\<lambda>s. gpr s 1 - 1)) (\<lambda>counter.
        bind_s (cpu_u (set_gpr 1 counter)) (\<lambda>_.
        bind_s (cpu_g (\<lambda>s. eflags s AND ZERO \<noteq> 0)) (\<lambda>zero.
        jump_if i (loop_taken (ins_mnemonic i) counter zero)))))"

definition branch_jecxz :: "Instruction \<Rightarrow> GuestVa \<Rightarrow> ('m, Flow) exec" where
  "branch_jecxz i address =
     (if ins_code i \<noteq> Jecxz_rel8_32 then unsupported address
      else bind_s (cpu_g (\<lambda>s. gpr s 1 = 0)) (jump_if i))"

definition branch_jcc :: "Instruction \<Rightarrow> GuestVa \<Rightarrow> ('m, Flow option) exec" where
  "branch_jcc i address =
     (if ins_condition_code i \<noteq> CcNone \<and> mnemonic_class (ins_mnemonic i) = None then
        if ins_op_kind i 0 \<noteq> OpNearBranch32 then unsupported address
        else bind_s (cpu_g (\<lambda>s. condition_met (eflags s) (ins_condition_code i))) (\<lambda>taken.
             bind_s (jump_if i taken) (\<lambda>flow. ret (Some flow)))
      else ret None)"

definition some_flow :: "('m, Flow) exec \<Rightarrow> ('m, Flow option) exec" where
  "some_flow f = bind_s f (\<lambda>flow. ret (Some flow))"

definition branch :: "'m guest_memory \<Rightarrow> Instruction \<Rightarrow> GuestVa \<Rightarrow> ('m, Flow option) exec" where
  "branch gm i address =
     (let m = ins_mnemonic i in
      if m = ''Jmp'' then some_flow (branch_jmp gm i address)
      else if m = ''Call'' then some_flow (branch_call gm i address)
      else if m = ''Ret'' then some_flow (branch_ret gm i address)
      else if m \<in> {''Loop'', ''Loope'', ''Loopne''} then some_flow (branch_loop i address)
      else if m = ''Jecxz'' then some_flow (branch_jecxz i address)
      else branch_jcc i address)"

section \<open>Straight-line dispatch\<close>

definition conditional :: "'m guest_memory \<Rightarrow> Instruction \<Rightarrow> GuestVa \<Rightarrow> ('m, unit) exec" where
  "conditional gm i address =
     bind_s (cpu_g (\<lambda>s. condition_met (eflags s) (ins_condition_code i))) (\<lambda>met.
     case mnemonic_class (ins_mnemonic i) of
       Some SetClass \<Rightarrow>
         bind_s (get_operand i 0 address) (\<lambda>dst. write_operand gm dst B (from_bool met))
     | Some MovClass \<Rightarrow>
         bind_s (get_width i 0 address) (\<lambda>w.
         bind_s (get_operand i 1 address) (\<lambda>src.
         bind_s (read_operand gm src w) (\<lambda>v.
         if met then bind_s (get_operand i 0 address) (\<lambda>dst. write_operand gm dst w v)
         else ret ())))
     | None \<Rightarrow> unsupported address)"

text \<open>The arms of \<^verbatim>\<open>execute_straightline\<close>, by mnemonic; first the instructions that resolve operands, then
  the string instructions, then those that change the processor alone.\<close>

definition operand_table :: "'m guest_memory \<Rightarrow> Instruction \<Rightarrow> GuestVa \<Rightarrow> (Mnemonic \<times> ('m, unit) exec) list" where
  "operand_table gm i address =
     [(''Mov'', mov gm i address),
      (''Movzx'', widen gm i address False),
      (''Movsx'', widen gm i address True),
      (''Lea'', lea i address),
      (''Xchg'', xchg gm i address),
      (''Xadd'', xadd gm i address),
      (''Cmpxchg'', cmpxchg gm i address),
      (''Cmpxchg8b'', cmpxchg8b gm i address),
      (''Add'', binary_alu gm i address KAdd),
      (''Adc'', binary_alu gm i address KAdc),
      (''Sub'', binary_alu gm i address KSub),
      (''Sbb'', binary_alu gm i address KSbb),
      (''And'', binary_alu gm i address KAnd),
      (''Or'', binary_alu gm i address KOr),
      (''Xor'', binary_alu gm i address KXor),
      (''Cmp'', binary_alu gm i address KCmp),
      (''Test'', binary_alu gm i address KTest),
      (''Inc'', step_by_one gm i address True),
      (''Dec'', step_by_one gm i address False),
      (''Neg'', neg gm i address),
      (''Not'', not_op gm i address),
      (''Shl'', shift gm i address Shl),
      (''Sal'', shift gm i address Shl),
      (''Shr'', shift gm i address Shr),
      (''Sar'', shift gm i address Sar),
      (''Rol'', shift gm i address Rol),
      (''Ror'', shift gm i address Ror),
      (''Rcl'', shift gm i address Rcl),
      (''Rcr'', shift gm i address Rcr),
      (''Shld'', double_shift gm i address True),
      (''Shrd'', double_shift gm i address False),
      (''Mul'', mul gm i address),
      (''Imul'', imul gm i address),
      (''Div'', div_op gm i address False),
      (''Idiv'', div_op gm i address True),
      (''Bswap'', bswap i address),
      (''Bt'', bit_test gm i address BitTest),
      (''Bts'', bit_test gm i address BitSet),
      (''Btr'', bit_test gm i address BitReset),
      (''Btc'', bit_test gm i address BitComplement),
      (''Bsf'', bit_scan gm i address True),
      (''Bsr'', bit_scan gm i address False),
      (''Push'', push gm i address),
      (''Pop'', pop gm i address),
      (''Pushad'', pushad gm),
      (''Popad'', popad gm),
      (''Pushfd'', bind_s (cpu_g eflags) (push_value gm D)),
      (''Popfd'', popfd gm),
      (''Fldcw'', fldcw gm i address),
      (''Leave'', leave gm i address)]"

definition string_table :: "'m guest_memory \<Rightarrow> Instruction \<Rightarrow> GuestVa \<Rightarrow> (Mnemonic \<times> ('m, unit) exec) list" where
  "string_table gm i address =
     [(''Movsb'', string_op gm i address Movs B),
      (''Movsw'', string_op gm i address Movs W),
      (''Movsd'', string_op gm i address Movs D),
      (''Stosb'', string_op gm i address Stos B),
      (''Stosw'', string_op gm i address Stos W),
      (''Stosd'', string_op gm i address Stos D),
      (''Lodsb'', string_op gm i address Lods B),
      (''Lodsw'', string_op gm i address Lods W),
      (''Lodsd'', string_op gm i address Lods D),
      (''Scasb'', string_op gm i address Scas B),
      (''Scasw'', string_op gm i address Scas W),
      (''Scasd'', string_op gm i address Scas D),
      (''Cmpsb'', string_op gm i address Cmps B),
      (''Cmpsw'', string_op gm i address Cmps W),
      (''Cmpsd'', string_op gm i address Cmps D)]"

definition fixed_table :: "(Mnemonic \<times> (CpuState \<Rightarrow> CpuState)) list" where
  "fixed_table =
     [(''Nop'', id), (''Pause'', id),
      (''Wbinvd'', id), (''Invd'', id), (''Clflush'', id),
      (''Cli'', clear_flag INTERRUPT), (''Sti'', raise_flag INTERRUPT),
      (''Cbw'', cbw), (''Cwde'', cwde), (''Cwd'', cwd), (''Cdq'', cdq),
      (''Clc'', clear_flag CARRY), (''Stc'', raise_flag CARRY), (''Cmc'', cmc),
      (''Cld'', clear_flag DIRECTION), (''Std'', raise_flag DIRECTION),
      (''Lahf'', lahf), (''Sahf'', sahf),
      (''Cpuid'', cpuid), (''Rdtsc'', rdtsc), (''Wait'', id)]"

definition execute_straightline :: "'m guest_memory \<Rightarrow> Instruction \<Rightarrow> GuestVa \<Rightarrow> ('m, unit) exec" where
  "execute_straightline gm i address =
     (case map_of (operand_table gm i address) (ins_mnemonic i) of
        Some f \<Rightarrow> f
      | None \<Rightarrow>
     (case map_of (string_table gm i address) (ins_mnemonic i) of
        Some f \<Rightarrow> f
      | None \<Rightarrow>
     (case map_of fixed_table (ins_mnemonic i) of
        Some f \<Rightarrow> cpu_u f
      | None \<Rightarrow>
        if ins_condition_code i \<noteq> CcNone then conditional gm i address else unsupported address)))"

text \<open>The floating-point and the vector unit: \<^verbatim>\<open>None\<close> for a mnemonic the unit does not own.\<close>

type_synonym 'm exec_unit = "Instruction \<Rightarrow> GuestVa \<Rightarrow> ('m, unit) exec option"

definition execute :: "'m guest_memory \<Rightarrow> 'm exec_unit \<Rightarrow> 'm exec_unit \<Rightarrow> Instruction \<Rightarrow> GuestVa \<Rightarrow> ('m, Flow) exec" where
  "execute gm x87_execute sse_execute i address =
     bind_s (branch gm i address) (\<lambda>flow.
     case flow of
       Some f \<Rightarrow> ret f
     | None \<Rightarrow>
        (case x87_execute i address of
           Some f \<Rightarrow> bind_s f (\<lambda>_. ret Next)
         | None \<Rightarrow>
        (case sse_execute i address of
           Some f \<Rightarrow> bind_s f (\<lambda>_. ret Next)
         | None \<Rightarrow> bind_s (execute_straightline gm i address) (\<lambda>_. ret Next))))"

section \<open>Ports\<close>

text \<open>A port bus belongs to the same outside world as the memory behind the interface.\<close>

record 'm port_bus =
  port_read :: "u16 \<Rightarrow> nat \<Rightarrow> 'm \<Rightarrow> u32 \<times> 'm"
  port_write :: "u16 \<Rightarrow> nat \<Rightarrow> u32 \<Rightarrow> 'm \<Rightarrow> 'm"

definition no_ports :: "'m port_bus" where
  "no_ports = \<lparr>port_read = (\<lambda>_ _ m. (0, m)), port_write = (\<lambda>_ _ _ m. m)\<rparr>"

definition port_number :: "Instruction \<Rightarrow> nat \<Rightarrow> GuestVa \<Rightarrow> ('m, u16) exec" where
  "port_number i n address =
     (if ins_op_kind i n = OpImmediate8 then ret (ucast (ins_immediate8 i))
      else if ins_op_kind i n = OpRegister \<and> ins_op_register i n = DX
      then cpu_g (\<lambda>s. ucast (gpr s 2 AND 0xFFFF))
      else unsupported address)"

definition accumulator_bytes :: "Register \<Rightarrow> GuestVa \<Rightarrow> ExecError + nat" where
  "accumulator_bytes r address =
     (if r = AL then Inr 1 else if r = AX then Inr 2 else if r = EAX then Inr 4
      else Inl (ExecUnsupported address))"

definition on_port :: "('m \<Rightarrow> 'a \<times> 'm) \<Rightarrow> ('m, 'a) exec" where
  "on_port f m = (case f (mem m) of (x, world) \<Rightarrow> (Inr x, m\<lparr>mem := world\<rparr>))"

definition execute_port_io :: "'m port_bus \<Rightarrow> Instruction \<Rightarrow> GuestVa \<Rightarrow> ('m, unit) exec" where
  "execute_port_io ports i address =
     (let accumulator_first = (ins_mnemonic i = ''In'') in
      bind_s (port_number i (if accumulator_first then 1 else 0) address) (\<lambda>port.
      bind_s (gets_r (\<lambda>_. accumulator_bytes (ins_op_register i (if accumulator_first then 0 else 1)) address)) (\<lambda>bytes.
      let mask = (if bytes = 1 then 0xFF else if bytes = 2 then 0xFFFF else 0xFFFFFFFF) in
      if accumulator_first then
        bind_s (on_port (port_read ports port bytes)) (\<lambda>raw.
        cpu_u (\<lambda>s. set_gpr 0 ((gpr s 0 AND NOT mask) OR (raw AND mask)) s))
      else modify (\<lambda>m. m\<lparr>mem := port_write ports port bytes (gpr (cpu m) 0 AND mask) (mem m)\<rparr>))))"

section \<open>Fetch, decode, execute\<close>

definition MAX_INSTRUCTION_LEN :: nat where
  "MAX_INSTRUCTION_LEN = 15"

text \<open>The decoder over the bytes fetched so far: its instruction, and whether it ran out of bytes.\<close>

type_synonym decoder = "u8 list \<Rightarrow> u32 \<Rightarrow> Instruction \<times> bool"

definition to_page_end :: "u32 \<Rightarrow> nat" where
  "to_page_end va = GUEST_PAGE_SIZE - unat (va AND 0xFFF)"

text \<open>One round of the loop; a second round happens only with the whole buffer available, and cannot
  ask for a third.\<close>

definition decode_round :: "decoder \<Rightarrow> u32 \<Rightarrow> GuestVa \<Rightarrow> u8 list \<Rightarrow> ('m, Instruction) exec \<Rightarrow> ('m, Instruction) exec" where
  "decode_round decode ip address bytes again =
     (let (i, no_more_bytes) = decode bytes ip in
      if \<not> ins_is_invalid i then ret i
      else if no_more_bytes \<and> length bytes < MAX_INSTRUCTION_LEN then again
      else throw (InvalidInstruction address))"

definition decode_at :: "'m guest_memory \<Rightarrow> decoder \<Rightarrow> u32 \<Rightarrow> GuestVa \<Rightarrow> ('m, Instruction) exec" where
  "decode_at gm decode ip address =
     (let first = min MAX_INSTRUCTION_LEN (to_page_end ip) in
      bind_s (on_mem (gm_fetch gm address first)) (\<lambda>bytes.
      decode_round decode ip address bytes
        (bind_s (on_mem (gm_fetch gm (ip + word_of_nat first) (MAX_INSTRUCTION_LEN - first))) (\<lambda>more.
         decode_round decode ip address (bytes @ more) (throw (InvalidInstruction address))))))"

definition decode_one :: "'m guest_memory \<Rightarrow> decoder \<Rightarrow> u32 \<Rightarrow> ('m, Instruction) exec" where
  "decode_one gm decode ip = decode_at gm decode ip ip"

definition advance_eip :: "Instruction \<Rightarrow> CpuState \<Rightarrow> CpuState" where
  "advance_eip i s = s\<lparr>eip := eip s + ins_len32 i\<rparr>"

definition tick :: "CpuState \<Rightarrow> CpuState" where
  "tick s = s\<lparr>tsc := tsc s + 1\<rparr>"

definition step_decoded ::
    "'m guest_memory \<Rightarrow> 'm port_bus \<Rightarrow> 'm exec_unit \<Rightarrow> 'm exec_unit \<Rightarrow> Instruction \<Rightarrow> GuestVa \<Rightarrow> ('m, unit) exec" where
  "step_decoded gm ports x87_execute sse_execute i address =
     (if ins_mnemonic i \<in> {''Out'', ''In''} then
        bind_s (execute_port_io ports i address) (\<lambda>_.
        bind_s (cpu_u (advance_eip i)) (\<lambda>_. cpu_u tick))
      else
        bind_s (execute gm x87_execute sse_execute i address) (\<lambda>flow.
        bind_s (if flow = Next then cpu_u (advance_eip i) else ret ()) (\<lambda>_. cpu_u tick)))"

definition step_with_ports ::
    "'m guest_memory \<Rightarrow> decoder \<Rightarrow> 'm port_bus \<Rightarrow> 'm exec_unit \<Rightarrow> 'm exec_unit \<Rightarrow> ('m, unit) exec" where
  "step_with_ports gm decode ports x87_execute sse_execute =
     bind_s (cpu_g eip) (\<lambda>address.
     bind_s (decode_at gm decode address address) (\<lambda>i.
     step_decoded gm ports x87_execute sse_execute i address))"

definition step_instruction ::
    "'m guest_memory \<Rightarrow> 'm port_bus \<Rightarrow> 'm exec_unit \<Rightarrow> 'm exec_unit \<Rightarrow> Instruction \<Rightarrow> ('m, unit) exec" where
  "step_instruction gm ports x87_execute sse_execute i =
     bind_s (cpu_g eip) (step_decoded gm ports x87_execute sse_execute i)"

definition step ::
    "'m guest_memory \<Rightarrow> decoder \<Rightarrow> 'm exec_unit \<Rightarrow> 'm exec_unit \<Rightarrow> ('m, unit) exec" where
  "step gm decode x87_execute sse_execute = step_with_ports gm decode no_ports x87_execute sse_execute"

end
