(* ===== verification/Exec_Repeat.thy ===== *)
theory Exec_Repeat
  imports Exec_Step
begin

text \<open>
  Repeated string instructions: what one pass keeps, how far a step gets, and that cutting a long
  repetition into steps does not change what it does.
\<close>

unbundle bit_operations_syntax

section \<open>What one pass keeps\<close>

text \<open>A string pass moves ESI and EDI, writes EAX and the arithmetic flags, and nothing else of the
  processor, whether it succeeds or fails.\<close>

definition kept :: "CpuState \<Rightarrow> CpuState \<Rightarrow> bool" where
  "kept s s' \<longleftrightarrow> eip s' = eip s \<and> tsc s' = tsc s \<and> segments s' = segments s \<and> gpr s' 1 = gpr s 1 \<and>
     bit (eflags s') 10 = bit (eflags s) 10"

definition keeps :: "('m, 'a) exec \<Rightarrow> bool" where
  "keeps f \<longleftrightarrow> (\<forall>m r m'. f m = (r, m') \<longrightarrow> kept (cpu m) (cpu m'))"

lemma kept_refl [simp]: "kept s s"
  by (simp add: kept_def)

lemma kept_trans: "kept s t \<Longrightarrow> kept t u \<Longrightarrow> kept s u"
  by (simp add: kept_def)

lemma keepsD: "keeps f \<Longrightarrow> f m = (r, m') \<Longrightarrow> kept (cpu m) (cpu m')"
  by (auto simp: keeps_def)

lemma keeps_bind:
  assumes "keeps f" "\<And>x. keeps (g x)"
  shows "keeps (bind_s f g)"
  unfolding keeps_def bind_s_def
  by (auto split: prod.splits sum.splits dest!: keepsD [OF assms(1)] keepsD [OF assms(2)] intro: kept_trans)

lemma keeps_prims [simp]:
  "keeps (ret x)" "keeps (cpu_r f)" "keeps (cpu_g g)" "keeps (on_mem h)" "keeps (unsupported a)"
  by (auto simp: keeps_def cpu_r_def cpu_g_def on_mem_def unsupported_def monad_simps split: prod.splits sum.splits)

lemma keeps_cpu_u: "(\<And>s. kept s (f s)) \<Longrightarrow> keeps (cpu_u f)"
  by (auto simp: keeps_def cpu_u_def monad_simps)

lemma keeps_memory [simp]: "keeps (read_memory gm a w)" "keeps (write_memory gm a w v)"
  by (simp_all add: read_memory_def write_memory_def keeps_bind)

lemma kept_updates [simp]:
  "kept s (advance 6 d t) \<longleftrightarrow> kept s t" "kept s (advance 7 d t) \<longleftrightarrow> kept s t"
  "kept s (merge_flags ARITHMETIC v t) \<longleftrightarrow> kept s t"
  by (auto simp: kept_def advance_def merge_flags_def bit_simps)

lemma keeps_accumulator [simp]:
  "keeps (get_register (accumulator w) a)" "keeps (write_register (accumulator w) v a)"
proof -
  show "keeps (get_register (accumulator w) a)"
    by (simp add: get_register_def)
  show "keeps (write_register (accumulator w) v a)"
    by (cases w) (auto simp: write_register_def register_slot_def kept_def intro!: keeps_cpu_u)
qed

lemma keeps_string_pass: "keeps (string_pass gm a k w sb db)"
  by (cases k) (auto simp: string_pass_def case_prod_beta intro!: keeps_bind keeps_cpu_u)

section \<open>The loop\<close>

abbreviation (input) repeated :: "Instruction \<Rightarrow> bool" where
  "repeated i \<equiv> ins_has_rep_prefix i \<or> ins_has_repne_prefix i"

text \<open>The test at the end of a pass.\<close>

definition rep_exit :: "Instruction \<Rightarrow> StringKind \<Rightarrow> CpuState \<Rightarrow> bool" where
  "rep_exit i k s \<longleftrightarrow> k \<in> {Scas, Cmps} \<and> bit (eflags s) 6 \<noteq> (\<not> ins_has_repne_prefix i)"

definition count_down :: "'m mach \<Rightarrow> 'm mach" where
  "count_down m = m\<lparr>cpu := set_gpr 1 (gpr (cpu m) 1 - 1) (cpu m)\<rparr>"

lemma string_loop_done: "repeated i \<Longrightarrow> gpr (cpu m) 1 = 0 \<Longrightarrow> string_loop gm i a k w sb db n m = (Inr (), m)"
  by (subst string_loop.simps) (simp add: cpu_g_def monad_simps)

lemma string_loop_held:
  "repeated i \<Longrightarrow> gpr (cpu m) 1 \<noteq> 0 \<Longrightarrow>
   string_loop gm i a k w sb db 0 m = (Inr (), m\<lparr>cpu := (cpu m)\<lparr>eip := eip (cpu m) - ins_len32 i\<rparr>\<rparr>)"
  by (subst string_loop.simps) (auto simp: cpu_g_def cpu_u_def monad_simps)

lemma string_loop_pass:
  "repeated i \<Longrightarrow> gpr (cpu m) 1 \<noteq> 0 \<Longrightarrow>
   string_loop gm i a k w sb db (Suc n) m =
     (case string_pass gm a k w sb db m of
        (Inl e, m1) \<Rightarrow> (Inl e, m1)
      | (Inr _, m1) \<Rightarrow> if rep_exit i k (cpu m1) then (Inr (), count_down m1)
                     else string_loop gm i a k w sb db n (count_down m1))"
  by (subst string_loop.simps)
    (auto simp: cpu_g_def cpu_u_def rep_exit_def count_down_def monad_simps split: prod.splits sum.splits)

lemma string_loop_once:
  "\<not> repeated i \<Longrightarrow> string_loop gm i a k w sb db (Suc n) m =
     (case string_pass gm a k w sb db m of (Inl e, m1) \<Rightarrow> (Inl e, m1) | (Inr _, m1) \<Rightarrow> (Inr (), m1))"
  by (subst string_loop.simps) (auto simp: cpu_g_def monad_simps split: prod.splits sum.splits)

lemma MAX_REP_Suc: "MAX_REP_ITERATIONS_PER_STEP = Suc 65535"
  by (simp add: MAX_REP_ITERATIONS_PER_STEP_def)

lemmas string_loop_cases = string_loop_done string_loop_held string_loop_pass

lemma string_loop_frame:
  assumes "repeated i" "string_loop gm i a k w sb db n m = (r, m')"
  shows "tsc (cpu m') = tsc (cpu m) \<and> segments (cpu m') = segments (cpu m) \<and>
     (eip (cpu m') = eip (cpu m) \<or> r = Inr () \<and> eip (cpu m') = eip (cpu m) - ins_len32 i)"
  using assms
proof (induction n arbitrary: m)
  case 0
  then show ?case
    by (cases "gpr (cpu m) 1 = 0") (auto simp: string_loop_cases)
next
  case (Suc n)
  show ?case
  proof (cases "gpr (cpu m) 1 = 0")
    case True
    then show ?thesis
      using Suc.prems by (auto simp: string_loop_cases)
  next
    case False
    obtain q m1 where p: "string_pass gm a k w sb db m = (q, m1)"
      by fastforce
    have "kept (cpu m) (cpu m1)"
      using keepsD [OF keeps_string_pass p] .
    then show ?thesis
      using Suc.prems False Suc.IH [of "count_down m1"]
      by (auto simp: string_loop_cases p kept_def count_down_def split: sum.splits if_splits)
  qed
qed

text \<open>A repetition that was cut after \<open>p\<close> passes goes on where it stopped.\<close>

lemma string_loop_split:
  assumes "repeated i" "ins_len32 i \<noteq> 0" "string_loop gm i a k w sb db p m = (r, m1)"
  shows "string_loop gm i a k w sb db (p + q) m =
     (if r = Inr () \<and> eip (cpu m1) \<noteq> eip (cpu m)
      then string_loop gm i a k w sb db q (m1\<lparr>cpu := (cpu m1)\<lparr>eip := eip (cpu m)\<rparr>\<rparr>)
      else (r, m1))"
  using assms
proof (induction p arbitrary: m)
  case 0
  then show ?case
    by (cases "gpr (cpu m) 1 = 0") (auto simp: string_loop_cases)
next
  case (Suc p)
  show ?case
  proof (cases "gpr (cpu m) 1 = 0")
    case True
    then show ?thesis
      using Suc.prems by (auto simp: string_loop_cases)
  next
    case False
    obtain s m2 where p: "string_pass gm a k w sb db m = (s, m2)"
      by fastforce
    have "kept (cpu m) (cpu m2)"
      using keepsD [OF keeps_string_pass p] .
    then have e: "eip (cpu (count_down m2)) = eip (cpu m)" "eip (cpu m2) = eip (cpu m)"
      by (simp_all add: kept_def count_down_def)
    show ?thesis
      using Suc.prems False Suc.IH [of "count_down m2"] e
      by (auto simp: string_loop_cases p split: sum.splits if_splits)
  qed
qed

lemma count_down_ecx:
  "gpr (cpu m) 1 \<noteq> 0 \<Longrightarrow> gpr (cpu m1) 1 = gpr (cpu m) 1 \<Longrightarrow> unat (gpr (cpu (count_down m1)) 1) = unat (gpr (cpu m) 1) - 1"
  using unat_minus_one by (simp add: count_down_def)

lemma string_loop_ecx:
  assumes "repeated i" "string_loop gm i a k w sb db n m = (Inr (), m')" "eip (cpu m') \<noteq> eip (cpu m)"
  shows "n < unat (gpr (cpu m) 1) \<and> unat (gpr (cpu m') 1) = unat (gpr (cpu m) 1) - n \<and>
    eip (cpu m') = eip (cpu m) - ins_len32 i"
  using assms
proof (induction n arbitrary: m)
  case 0
  then show ?case
    by (cases "gpr (cpu m) 1 = 0") (auto simp: string_loop_cases unat_gt_0)
next
  case (Suc n)
  then have nz: "gpr (cpu m) 1 \<noteq> 0"
    by (auto simp: string_loop_done)
  then obtain u m1 where p: "string_pass gm a k w sb db m = (Inr u, m1)"
    using Suc.prems by (auto simp: string_loop_cases split: prod.splits sum.splits)
  have kept: "kept (cpu m) (cpu m1)"
    using keepsD [OF keeps_string_pass p] .
  then have e: "eip (cpu (count_down m1)) = eip (cpu m)"
    "unat (gpr (cpu (count_down m1)) 1) = unat (gpr (cpu m) 1) - 1"
    using count_down_ecx [OF nz, of m1] by (simp_all add: kept_def count_down_def)
  then have "string_loop gm i a k w sb db n (count_down m1) = (Inr (), m')"
    using Suc.prems nz by (auto simp: string_loop_cases p split: if_splits)
  from Suc.IH [OF Suc.prems(1) this] Suc.prems(3) e show ?case
    by (simp add: less_diff_conv)
qed

lemma string_loop_budget:
  assumes "repeated i" "ins_len32 i \<noteq> 0" "unat (gpr (cpu m) 1) \<le> n"
  shows "string_loop gm i a k w sb db n m = string_loop gm i a k w sb db (unat (gpr (cpu m) 1)) m"
proof -
  obtain r m1 where l: "string_loop gm i a k w sb db (unat (gpr (cpu m) 1)) m = (r, m1)"
    by fastforce
  have "\<not> (r = Inr () \<and> eip (cpu m1) \<noteq> eip (cpu m))"
    using string_loop_ecx [OF assms(1)] l by fastforce
  then show ?thesis
    using string_loop_split [OF assms(1,2) l, of "n - unat (gpr (cpu m) 1)"] assms(3) l by (auto simp del: One_nat_def)
qed

section \<open>An example\<close>

text \<open>\<^verbatim>\<open>rep lodsb\<close> with ECX = 2 over a memory of its own: byte \<open>n\<close> holds \<open>n\<close>.\<close>

definition counting_memory :: "unit guest_memory" where
  "counting_memory =
     \<lparr>gm_read = (\<lambda>a n. ret (map (\<lambda>k. ucast (a + word_of_nat k)) [0 ..< n])),
      gm_fetch = (\<lambda>a n. ret (map (\<lambda>k. ucast (a + word_of_nat k)) [0 ..< n])),
      gm_write = (\<lambda>a bs. throw (Unmapped a Write)), gm_page_table = (\<lambda>_. pt_new)\<rparr>"

definition rep_lodsb :: Instruction where
  "rep_lodsb = plain_instruction\<lparr>ins_mnemonic := ''Lodsb'', ins_len := 2, ins_has_rep_prefix := True,
                 ins_op_kind := (\<lambda>_. OpMemorySegESI)\<rparr>"

definition rep_machine :: "unit mach" where
  "rep_machine = \<lparr>cpu = set_gpr 6 0x10 (set_gpr 1 2 cpu_default), mem = ()\<rparr>"

definition rep_after :: "unit mach" where
  "rep_after = \<lparr>cpu = set_gpr 6 0x12 (set_gpr 1 0 (set_gpr 0 0x11 cpu_default)), mem = ()\<rparr>"

lemma string_loop_left:
  "repeated i \<Longrightarrow> gpr (cpu m) 1 \<noteq> 0 \<Longrightarrow> 0 < n \<Longrightarrow>
   string_loop gm i a k w sb db n m =
     (case string_pass gm a k w sb db m of
        (Inl e, m1) \<Rightarrow> (Inl e, m1)
      | (Inr _, m1) \<Rightarrow> if rep_exit i k (cpu m1) then (Inr (), count_down m1)
                     else string_loop gm i a k w sb db (n - 1) (count_down m1))"
  using string_loop_pass [of i m gm a k w sb db "n - 1"] by simp

lemma rep_run: "string_op counting_memory rep_lodsb 0 Lods B rep_machine = (Inr (), rep_after)"
  by (simp add: string_op_def MAX_REP_ITERATIONS_PER_STEP_def string_loop_left string_loop_done string_pass_def
      read_memory_def write_register_def register_slot_def on_mem_def counting_memory_def rep_exit_def count_down_def
      rep_lodsb_def plain_instruction_def rep_machine_def rep_after_def segment_base_def segment_def cpu_r_def cpu_g_def
      cpu_u_def advance_def string_delta_def width_bytes32_def from_le_bytes_def cpu_default_def set_gpr_def
      monad_simps fun_eq_iff)

section \<open>Long repetitions\<close>

text \<open>The instruction without the bound on the passes of one step: the loop with as many passes as ECX
  counts.\<close>

definition string_whole :: "'m guest_memory \<Rightarrow> Instruction \<Rightarrow> GuestVa \<Rightarrow> StringKind \<Rightarrow> Width \<Rightarrow> ('m, unit) exec" where
  "string_whole gm i address k w =
     (if \<not> string_operands_valid k i then unsupported address
      else bind_s (cpu_r (\<lambda>s. segment_base s (ins_memory_segment i) address)) (\<lambda>source_base.
           bind_s (cpu_g (\<lambda>s. seg_base (segment s Es))) (\<lambda>destination_base.
           bind_s (cpu_g (\<lambda>s. unat (gpr s 1)))
             (string_loop gm i address k w source_base destination_base))))"

lemma segment_base_cong: "segments s = segments t \<Longrightarrow> segment_base s r a = segment_base t r a"
  by (simp add: segment_base_def segment_def split: Register.splits)

text \<open>A step that ends without being cut has done the whole repetition.\<close>

lemma string_loop_uncut:
  assumes "repeated i" "ins_len32 i \<noteq> 0" and L: "string_loop gm i a k w sb db MAX_REP_ITERATIONS_PER_STEP m = (r, m1)"
    and uncut: "\<not> (r = Inr () \<and> eip (cpu m1) \<noteq> eip (cpu m))"
  shows "string_loop gm i a k w sb db (unat (gpr (cpu m) 1)) m = (r, m1)"
proof (cases "unat (gpr (cpu m) 1) \<le> MAX_REP_ITERATIONS_PER_STEP")
  case True
  then show ?thesis using string_loop_budget [OF assms(1,2) True] L by simp
next
  case False
  then show ?thesis
    using string_loop_split [OF assms(1,2) L, of "unat (gpr (cpu m) 1) - MAX_REP_ITERATIONS_PER_STEP"] uncut by simp
qed

text \<open>C17. A repeated string instruction runs at most \<^verbatim>\<open>MAX_REP_ITERATIONS_PER_STEP\<close> passes in one step.  Cutting
  it there is invisible: the instruction without the bound does from the start what it does from the
  state the bounded step leaves (with the pointer back on the instruction), for every memory, every
  string instruction and every prefix, faults included; and when the step was not cut it is already
  the whole instruction.\<close>

theorem rep_bound_invisible:
  assumes "repeated i" "ins_len32 i \<noteq> 0"
    and "string_op gm i a k w m = (r, m1)"
  shows "string_whole gm i a k w m =
    (if r = Inr () \<and> eip (cpu m1) \<noteq> eip (cpu m)
     then string_whole gm i a k w (m1\<lparr>cpu := advance_eip i (cpu m1)\<rparr>)
     else (r, m1))"
proof (cases "string_operands_valid k i \<and> (\<exists>sb. segment_base (cpu m) (ins_memory_segment i) a = Inr sb)")
  case False
  then show ?thesis
    using assms(3)
    by (auto simp: string_op_def string_whole_def unsupported_def cpu_r_def monad_simps split: sum.splits)
next
  case True
  then obtain sb where v: "string_operands_valid k i" "segment_base (cpu m) (ins_memory_segment i) a = Inr sb"
    by auto
  let ?db = "seg_base (segment (cpu m) Es)"
  let ?L = "string_loop gm i a k w sb ?db"
  have whole: "string_whole gm i a k w t = ?L (unat (gpr (cpu t) 1)) t"
    if "segments (cpu t) = segments (cpu m)" for t
    using v segment_base_cong [OF that] that
    by (simp add: string_whole_def cpu_r_def cpu_g_def segment_def monad_simps)
  have L: "?L MAX_REP_ITERATIONS_PER_STEP m = (r, m1)"
    using assms(3) v by (simp add: string_op_def cpu_r_def cpu_g_def monad_simps)
  have segs: "segments (cpu m1) = segments (cpu m)"
    using string_loop_frame [OF assms(1) L] by simp
  show ?thesis
  proof (cases "r = Inr () \<and> eip (cpu m1) \<noteq> eip (cpu m)")
    case True
    note held = string_loop_ecx [OF assms(1), of gm a k w sb ?db MAX_REP_ITERATIONS_PER_STEP m m1]
    define c where "c = unat (gpr (cpu m) 1)"
    have c: "MAX_REP_ITERATIONS_PER_STEP < c" "unat (gpr (cpu m1) 1) = c - MAX_REP_ITERATIONS_PER_STEP"
      "eip (cpu m1) = eip (cpu m) - ins_len32 i"
      using held True L by (simp_all add: c_def)
    have "?L c m = ?L (MAX_REP_ITERATIONS_PER_STEP + (c - MAX_REP_ITERATIONS_PER_STEP)) m"
      using c(1) by simp
    also have "\<dots> = ?L (c - MAX_REP_ITERATIONS_PER_STEP) (m1\<lparr>cpu := (cpu m1)\<lparr>eip := eip (cpu m)\<rparr>\<rparr>)"
      using string_loop_split [OF assms(1,2) L] True by simp
    also have "(cpu m1)\<lparr>eip := eip (cpu m)\<rparr> = advance_eip i (cpu m1)"
      using c(3) by (simp add: advance_eip_def)
    finally show ?thesis
      using True whole [of m] whole [of "m1\<lparr>cpu := advance_eip i (cpu m1)\<rparr>"] segs c(2)
      by (simp add: advance_eip_def c_def)
  next
    case False
    then show ?thesis
      using string_loop_uncut [OF assms(1,2) L] whole [of m] by auto
  qed
qed

theorem rep_bound_invisible_witness:
  "string_whole counting_memory rep_lodsb 0 Lods B rep_machine = (Inr (), rep_after)"
  using rep_bound_invisible [OF _ _ rep_run]
  by (simp add: rep_lodsb_def ins_len32_def rep_after_def rep_machine_def plain_instruction_def)

section \<open>Progress\<close>

definition moves_source :: "StringKind \<Rightarrow> bool" where
  "moves_source k \<longleftrightarrow> k \<in> {Movs, Lods, Cmps}"

definition moves_destination :: "StringKind \<Rightarrow> bool" where
  "moves_destination k \<longleftrightarrow> k \<in> {Movs, Stos, Scas, Cmps}"

lemma cpu_read_memory: "read_memory gm a w m = (r, m') \<Longrightarrow> cpu m' = cpu m"
  by (auto simp: read_memory_def on_mem_def bind_s_def ret_def split: prod.splits sum.splits)

lemma cpu_write_memory: "write_memory gm a w v m = (r, m') \<Longrightarrow> cpu m' = cpu m"
  by (auto simp: write_memory_def on_mem_def split: prod.splits sum.splits)

lemma cpu_get_register: "get_register q a m = (r, m') \<Longrightarrow> cpu m' = cpu m"
  by (auto simp: get_register_def cpu_r_def monad_simps)

lemma cpu_write_accumulator:
  "write_register (accumulator w) v a m = (r, m') \<Longrightarrow>
   gpr (cpu m') 6 = gpr (cpu m) 6 \<and> gpr (cpu m') 7 = gpr (cpu m) 7"
  by (cases w) (auto simp: write_register_def register_slot_def cpu_u_def monad_simps)

lemma gpr_advance: "gpr (advance r d s) i = (if i = r then gpr s r + d else gpr s i)"
  by (simp add: advance_def)

lemma gpr_merge_flags: "gpr (merge_flags d v s) = gpr s"
  by (simp add: merge_flags_def)

lemma string_pass_pointers:
  assumes "string_pass gm a k w sb db m = (Inr u, m')"
  shows "gpr (cpu m') 6 = gpr (cpu m) 6 + (if moves_source k then string_delta w (cpu m) else 0) \<and>
         gpr (cpu m') 7 = gpr (cpu m) 7 + (if moves_destination k then string_delta w (cpu m) else 0)"
  using assms
  by (cases k)
    (auto simp: string_pass_def moves_source_def moves_destination_def bind_s_Inr_iff cpu_g_def cpu_u_def gets_def
       modify_def gpr_advance gpr_merge_flags
     dest!: cpu_read_memory cpu_write_memory cpu_get_register cpu_write_accumulator)

lemma string_delta_kept: "kept s s' \<Longrightarrow> string_delta w s' = string_delta w s"
  by (simp add: string_delta_def kept_def)

lemma string_loop_progress:
  assumes "repeated i" "k \<notin> {Scas, Cmps}" "string_loop gm i a k w sb db n m = (Inr (), m')"
  shows "unat (gpr (cpu m') 1) = unat (gpr (cpu m) 1) - n \<and>
     eip (cpu m') = (if unat (gpr (cpu m) 1) \<le> n then eip (cpu m) else eip (cpu m) - ins_len32 i) \<and>
     gpr (cpu m') 6 = gpr (cpu m) 6 +
       (if moves_source k then of_nat (min n (unat (gpr (cpu m) 1))) * string_delta w (cpu m) else 0) \<and>
     gpr (cpu m') 7 = gpr (cpu m) 7 +
       (if moves_destination k then of_nat (min n (unat (gpr (cpu m) 1))) * string_delta w (cpu m) else 0)"
  using assms(3)
proof (induction n arbitrary: m)
  case 0
  then show ?case
    using assms(1) by (cases "gpr (cpu m) 1 = 0") (auto simp: string_loop_cases unat_eq_0)
next
  case (Suc n)
  show ?case
  proof (cases "gpr (cpu m) 1 = 0")
    case True
    then show ?thesis
      using assms(1) Suc.prems by (auto simp: string_loop_cases)
  next
    case False
    obtain u m1 where p: "string_pass gm a k w sb db m = (Inr u, m1)"
      using assms(1) Suc.prems False by (auto simp: string_loop_cases split: prod.splits sum.splits)
    have kept: "kept (cpu m) (cpu m1)" "kept (cpu m) ((cpu m1)\<lparr>gpr := (gpr (cpu m1))(1 := gpr (cpu m) 1)\<rparr>)"
      using keepsD [OF keeps_string_pass p] by (simp_all add: kept_def)
    have l: "string_loop gm i a k w sb db n (count_down m1) = (Inr (), m')"
      using assms(1,2) Suc.prems False by (auto simp: string_loop_cases p rep_exit_def)
    have c: "unat (gpr (cpu (count_down m1)) 1) = unat (gpr (cpu m) 1) - 1"
      using kept count_down_ecx [OF False, of m1] by (simp add: kept_def)
    have d: "string_delta w (cpu (count_down m1)) = string_delta w (cpu m)"
      using string_delta_kept [OF kept(1)] by (simp add: count_down_def string_delta_def)
    have e: "eip (cpu (count_down m1)) = eip (cpu m)" "gpr (cpu (count_down m1)) 6 = gpr (cpu m1) 6"
      "gpr (cpu (count_down m1)) 7 = gpr (cpu m1) 7"
      using kept by (simp_all add: kept_def count_down_def)
    have mm: "min (Suc n) (unat (gpr (cpu m) 1)) = Suc (min n (unat (gpr (cpu m) 1) - 1))"
      using False by (metis Suc_pred' min_Suc_Suc unat_gt_0)
    have le: "unat (gpr (cpu m) 1) - 1 \<le> n \<longleftrightarrow> unat (gpr (cpu m) 1) \<le> Suc n"
      by linarith
    show ?thesis
      using Suc.IH [OF l] string_pass_pointers [OF p] unfolding c d e mm le
      by (simp add: algebra_simps split: if_splits)
  qed
qed

text \<open>C18. Every step of a repeated move, store or load makes progress: a step that returns without a fault
  has done exactly the smaller of ECX and \<^verbatim>\<open>MAX_REP_ITERATIONS_PER_STEP\<close> passes, moved ESI and EDI by that many
  elements in the direction of the direction flag, and leaves the instruction pointer on the
  instruction exactly when ECX still counts something.\<close>

theorem rep_step_progress:
  assumes "repeated i" "k \<in> {Movs, Stos, Lods}" "string_op gm i a k w m = (Inr (), m')"
  shows "let passes = min MAX_REP_ITERATIONS_PER_STEP (unat (gpr (cpu m) 1));
             moved = of_nat passes * string_delta w (cpu m)
    in unat (gpr (cpu m') 1) = unat (gpr (cpu m) 1) - passes \<and>
       gpr (cpu m') 6 = gpr (cpu m) 6 + (if moves_source k then moved else 0) \<and>
       gpr (cpu m') 7 = gpr (cpu m) 7 + (if moves_destination k then moved else 0) \<and>
       eip (advance_eip i (cpu m')) = (if gpr (cpu m') 1 = 0 then eip (cpu m) + ins_len32 i else eip (cpu m))"
proof -
  obtain sb db where l: "string_loop gm i a k w sb db MAX_REP_ITERATIONS_PER_STEP m = (Inr (), m')"
    using assms(3) by (auto simp: string_op_def unsupported_def throw_def cpu_r_def cpu_g_def monad_simps
        split: if_splits sum.splits)
  have k: "k \<notin> {Scas, Cmps}"
    using assms(2) by auto
  note p = string_loop_progress [OF assms(1) k l]
  have "gpr (cpu m') 1 = 0 \<longleftrightarrow> unat (gpr (cpu m) 1) \<le> MAX_REP_ITERATIONS_PER_STEP"
    using p by (auto simp: unat_eq_0 [symmetric])
  then show ?thesis
    using p by (simp add: Let_def advance_eip_def min_def)
qed

theorem rep_step_progress_witness:
  "gpr (cpu rep_after) 1 = 0 \<and> gpr (cpu rep_after) 6 = gpr (cpu rep_machine) 6 + 2 \<and>
   eip (advance_eip rep_lodsb (cpu rep_after)) = 2"
  using rep_step_progress [OF _ _ rep_run]
  by (simp add: rep_lodsb_def ins_len32_def rep_after_def rep_machine_def plain_instruction_def cpu_default_def
      moves_source_def string_delta_def width_bytes32_def MAX_REP_ITERATIONS_PER_STEP_def)

end
