(* ===== verification/Exec_Faults.thy ===== *)
theory Exec_Faults
  imports Exec_Repeat Software_Space
begin

text \<open>
  What a failing instruction leaves behind.  An observer of the outside world is a function of the
  memory that neither a read nor a failing write changes; a computation is atomic when an error
  leaves the processor and every observation as they were.  The rules below follow the order in which
  the interpreter works: everything that can fail comes before the first change.
\<close>

unbundle bit_operations_syntax

section \<open>Atomic, quiet and safe computations\<close>

definition same :: "('m \<Rightarrow> 'o) \<Rightarrow> 'm mach \<Rightarrow> 'm mach \<Rightarrow> bool" where
  "same obs m m' \<longleftrightarrow> cpu m' = cpu m \<and> obs (mem m') = obs (mem m)"

definition quiet :: "('m \<Rightarrow> 'o) \<Rightarrow> ('m, 'a) exec \<Rightarrow> bool" where
  "quiet obs f \<longleftrightarrow> (\<forall>m r m'. f m = (r, m') \<longrightarrow> same obs m m')"

definition atomic :: "('m \<Rightarrow> 'o) \<Rightarrow> ('m, 'a) exec \<Rightarrow> bool" where
  "atomic obs f \<longleftrightarrow> (\<forall>m e m'. f m = (Inl e, m') \<longrightarrow> same obs m m')"

definition safe :: "('m, 'a) exec \<Rightarrow> bool" where
  "safe f \<longleftrightarrow> (\<forall>m e m'. f m \<noteq> (Inl e, m'))"

lemma same_refl [simp]: "same obs m m"
  by (simp add: same_def)

lemma same_trans: "same obs a b \<Longrightarrow> same obs b c \<Longrightarrow> same obs a c"
  by (simp add: same_def)

lemma quiet_atomic: "quiet obs f \<Longrightarrow> atomic obs f"
  by (simp add: quiet_def atomic_def)

lemma safe_atomic: "safe f \<Longrightarrow> atomic obs f"
  by (force simp: safe_def atomic_def)

lemma atomicD: "atomic obs f \<Longrightarrow> f m = (Inl e, m') \<Longrightarrow> same obs m m'"
  by (auto simp: atomic_def)

lemma quietD: "quiet obs f \<Longrightarrow> f m = (r, m') \<Longrightarrow> same obs m m'"
  by (auto simp: quiet_def)

lemma safeD: "safe f \<Longrightarrow> f m = (Inl e, m') \<Longrightarrow> False"
  by (auto simp: safe_def)

lemma quiet_bind:
  assumes "quiet obs f" "\<And>x. quiet obs (g x)"
  shows "quiet obs (bind_s f g)"
  unfolding quiet_def bind_s_def
  by (auto split: prod.splits sum.splits dest!: quietD [OF assms(1)] quietD [OF assms(2)] intro: same_trans)

lemma atomic_bind_quiet:
  assumes "quiet obs f" "\<And>x. atomic obs (g x)"
  shows "atomic obs (bind_s f g)"
  unfolding atomic_def bind_s_Inl_iff
  by (auto dest!: quietD [OF assms(1)] atomicD [OF assms(2)] intro: same_trans)

lemma atomic_bind_safe:
  assumes "atomic obs f" "\<And>x. safe (g x)"
  shows "atomic obs (bind_s f g)"
  unfolding atomic_def bind_s_Inl_iff
  by (auto dest!: atomicD [OF assms(1)] safeD [OF assms(2)])

lemma safe_bind:
  assumes "safe f" "\<And>x. safe (g x)"
  shows "safe (bind_s f g)"
  unfolding safe_def bind_s_Inl_iff by (auto dest!: safeD [OF assms(1)] safeD [OF assms(2)])

lemma quiet_prims [simp, intro]:
  "quiet obs (ret x)" "quiet obs (throw e)" "quiet obs (unsupported a)"
  "quiet obs (cpu_r f)" "quiet obs (cpu_g g)" "quiet obs (gets_r h)"
  by (auto simp: quiet_def unsupported_def cpu_r_def cpu_g_def monad_simps)

lemma quiet_getters [simp, intro]:
  "quiet obs (get_width i n a)" "quiet obs (get_operand i n a)" "quiet obs (get_register r a)"
  "quiet obs (get_address i a b)" "quiet obs get_carry"
  by (simp_all add: get_width_def get_operand_def get_register_def get_address_def get_carry_def)

lemma safe_prims [simp, intro]: "safe (ret x)" "safe (cpu_u f)" "safe (cpu_g g)" "safe (modify h)"
  by (auto simp: safe_def cpu_u_def cpu_g_def monad_simps)

lemma safe_set_eip [simp, intro]: "safe (set_eip v)"
  by (simp add: set_eip_def)

lemma safe_jump_if [simp, intro]: "safe (jump_if i t)"
  by (simp add: jump_if_def safe_bind)

lemma atomic_if: "(c \<Longrightarrow> atomic obs f) \<Longrightarrow> (\<not> c \<Longrightarrow> atomic obs g) \<Longrightarrow> atomic obs (if c then f else g)"
  by simp

lemma safe_if: "(c \<Longrightarrow> safe f) \<Longrightarrow> (\<not> c \<Longrightarrow> safe g) \<Longrightarrow> safe (if c then f else g)"
  by simp

lemma quiet_if: "(c \<Longrightarrow> quiet obs f) \<Longrightarrow> (\<not> c \<Longrightarrow> quiet obs g) \<Longrightarrow> quiet obs (if c then f else g)"
  by simp

lemma prod_intros:
  "(\<And>a b. atomic obs (f a b)) \<Longrightarrow> atomic obs (case p of (a, b) \<Rightarrow> f a b)"
  "(\<And>a b. quiet obs (f a b)) \<Longrightarrow> quiet obs (case p of (a, b) \<Rightarrow> f a b)"
  "(\<And>a b. safe (g a b)) \<Longrightarrow> safe (case p of (a, b) \<Rightarrow> g a b)"
  by (simp_all add: case_prod_beta)

lemmas atomic_rules = quiet_bind atomic_bind_quiet atomic_bind_safe safe_bind quiet_atomic safe_atomic
  atomic_if safe_if quiet_if prod_intros

lemma atomic_write_register [simp, intro]: "atomic obs (write_register r v a)"
  by (auto simp: write_register_def intro: quiet_atomic safe_atomic split: option.splits)

lemma safe_write_register: "register_slot r \<noteq> None \<Longrightarrow> safe (write_register r v a)"
  by (auto simp: write_register_def)

lemma safe_write_accumulator [simp, intro]: "safe (write_register (accumulator w) v a)"
  by (rule safe_write_register) (cases w; simp add: register_slot_def)

text \<open>What a successful resolution says about the operands.\<close>

lemma atomic_bind_result:
  assumes "quiet obs f" "\<And>m x m'. f m = (Inr x, m') \<Longrightarrow> atomic obs (g x)"
  shows "atomic obs (bind_s f g)"
  unfolding atomic_def bind_s_Inl_iff
  by (metis assms(1) assms(2) atomicD quietD same_trans)

lemma get_width_result: "get_width i n a m = (Inr w, m') \<Longrightarrow> ins_op_kind i n \<in> {OpRegister, OpMemory}"
  by (auto simp: get_width_def operand_width_def monad_simps split: OpKind.splits)

lemma get_operand_result:
  "get_operand i n a m = (Inr x, m') \<Longrightarrow> ins_op_kind i n = OpRegister \<Longrightarrow> x = RegOp (ins_op_register i n)"
  "get_operand i n a m = (Inr x, m') \<Longrightarrow> ins_op_kind i n = OpMemory \<Longrightarrow> \<exists>l. x = MemOp l"
  by (auto simp: get_operand_def cpu_r_def operand_def monad_simps map_r_Inr_iff)

lemma read_operand_result: "read_operand gm (RegOp r) w m = (Inr v, m') \<Longrightarrow> register_slot r \<noteq> None"
  by (auto simp: read_operand_def cpu_r_def read_register_def ok_or_def monad_simps map_r_Inr_iff split: option.splits)

lemma safe_write_slot: "register_slot r \<noteq> None \<Longrightarrow> safe (write_operand gm (RegOp r) w v)"
  by (simp add: write_operand_def safe_bind safe_write_register)

section \<open>Classes of instructions\<close>

text \<open>The exchanges with memory have their register as second operand.\<close>

definition exchange_decoded :: "Instruction \<Rightarrow> bool" where
  "exchange_decoded i \<longleftrightarrow> (ins_mnemonic i \<in> {''Xchg'', ''Xadd''} \<longrightarrow> ins_op_kind i 1 = OpRegister)"

text \<open>An integer instruction is one that neither the floating-point nor the vector unit owns.\<close>

definition integer_instruction :: "'m exec_unit \<Rightarrow> 'm exec_unit \<Rightarrow> Instruction \<Rightarrow> GuestVa \<Rightarrow> bool" where
  "integer_instruction x87_execute sse_execute i a \<longleftrightarrow> x87_execute i a = None \<and> sse_execute i a = None"

definition string_mnemonics :: "Mnemonic list" where
  "string_mnemonics =
     [''Movsb'', ''Movsw'', ''Movsd'', ''Stosb'', ''Stosw'', ''Stosd'', ''Lodsb'', ''Lodsw'', ''Lodsd'',
      ''Scasb'', ''Scasw'', ''Scasd'', ''Cmpsb'', ''Cmpsw'', ''Cmpsd'']"

definition operand_mnemonics :: "Mnemonic list" where
  "operand_mnemonics =
     [''Mov'', ''Movzx'', ''Movsx'', ''Lea'', ''Xchg'', ''Xadd'', ''Cmpxchg'', ''Cmpxchg8b'',
      ''Add'', ''Adc'', ''Sub'', ''Sbb'', ''And'', ''Or'', ''Xor'', ''Cmp'', ''Test'', ''Inc'',
      ''Dec'', ''Neg'', ''Not'', ''Shl'', ''Sal'', ''Shr'', ''Sar'', ''Rol'', ''Ror'', ''Rcl'',
      ''Rcr'', ''Shld'', ''Shrd'', ''Mul'', ''Imul'', ''Div'', ''Idiv'', ''Bswap'', ''Bt'', ''Bts'',
      ''Btr'', ''Btc'', ''Bsf'', ''Bsr'', ''Push'', ''Pop'', ''Pushad'', ''Popad'', ''Pushfd'',
      ''Popfd'', ''Fldcw'', ''Leave'']"

lemma operand_table_names: "map fst (operand_table gm i a) = operand_mnemonics"
  by (simp add: operand_table_def operand_mnemonics_def)

lemma string_mnemonics_apart: "set string_mnemonics \<inter> set (''Out'' # ''In'' # operand_mnemonics) = {}"
  by code_simp

lemma string_table_names: "fst ` set (string_table gm i a) = set string_mnemonics"
  by (simp add: string_table_def string_mnemonics_def)

section \<open>Branches and ports\<close>

lemma atomic_bind_option:
  assumes "atomic obs f" "\<And>m m'. f m = (Inr None, m') \<Longrightarrow> m' = m" "atomic obs g"
  shows "atomic obs (bind_s f (\<lambda>r. case r of Some x \<Rightarrow> ret x | None \<Rightarrow> g))"
  unfolding atomic_def bind_s_Inl_iff
  using assms(2) by (fastforce dest: atomicD [OF assms(1)] atomicD [OF assms(3)] simp: monad_simps split: option.splits)

lemma some_flow_None: "some_flow f m \<noteq> (Inr None, m')"
  by (auto simp: some_flow_def bind_s_Inr_iff ret_def)

lemma branch_None: "branch gm i a m = (Inr None, m') \<Longrightarrow> m' = m"
  by (auto simp: branch_def some_flow_None branch_jcc_def Let_def unsupported_def bind_s_Inr_iff ret_def throw_def
      split: if_splits)

lemma safe_on_port [simp]: "safe (on_port f)"
  by (auto simp: safe_def on_port_def split: prod.splits)

lemma quiet_port_number [simp]: "quiet obs (port_number i n a)"
  by (simp add: port_number_def)

lemma atomic_port_io: "atomic obs (execute_port_io ports i a)"
  by (simp add: execute_port_io_def Let_def atomic_rules)

section \<open>The shape of a failing step\<close>

lemma decode_at_result:
  assumes "decode_at gm decode ip a m = (Inr i, m')"
  shows "\<exists>bytes. i = fst (decode bytes ip)"
proof -
  have round: "\<exists>bytes. i = fst (decode bytes ip)"
    if "decode_round decode ip a bs f t = (Inr i, u)" "\<And>t u. f t = (Inr i, u) \<Longrightarrow> \<exists>bytes. i = fst (decode bytes ip)"
    for bs f t u
    using that unfolding decode_round_def Let_def ret_def throw_def
    by (cases "decode bs ip") (auto split: if_splits, metis fst_conv)
  show ?thesis
    using assms unfolding decode_at_def Let_def bind_s_Inr_iff
    by (auto simp: bind_s_Inr_iff throw_def elim!: round)
qed

lemma step_error_cases:
  assumes "step_with_ports gm decode ports x87_execute sse_execute m = (Inl e, m')"
  obtains "decode_at gm decode (eip (cpu m)) (eip (cpu m)) m = (Inl e, m')"
    | bytes m1 where "decode_at gm decode (eip (cpu m)) (eip (cpu m)) m = (Inr (fst (decode bytes (eip (cpu m)))), m1)"
      "step_decoded gm ports x87_execute sse_execute (fst (decode bytes (eip (cpu m)))) (eip (cpu m)) m1 = (Inl e, m')"
  using assms decode_at_result
  by (fastforce simp: step_with_ports_def bind_s_Inl_iff cpu_g_def gets_def)

section \<open>Observers of memory\<close>

locale fault_observer =
  fixes gm :: "'m guest_memory"
    and obs :: "'m \<Rightarrow> 'o"
  assumes obs_read: "gm_read gm a n w = (r, w') \<Longrightarrow> obs w' = obs w"
    and obs_fetch: "gm_fetch gm a n w = (r, w') \<Longrightarrow> obs w' = obs w"
    and obs_write_error: "gm_write gm a bs w = (Inl e, w') \<Longrightarrow> obs w' = obs w"
begin

lemma quiet_mem_read [simp, intro]: "quiet obs (on_mem (gm_read gm a n))"
  by (auto simp: quiet_def same_def on_mem_def split: prod.splits sum.splits dest: obs_read)

lemma quiet_mem_fetch [simp, intro]: "quiet obs (on_mem (gm_fetch gm a n))"
  by (auto simp: quiet_def same_def on_mem_def split: prod.splits sum.splits dest: obs_fetch)

lemma atomic_mem_write [simp, intro]: "atomic obs (on_mem (gm_write gm a bs))"
  by (auto simp: atomic_def same_def on_mem_def split: prod.splits sum.splits dest: obs_write_error)

lemma quiet_read_memory [simp, intro]: "quiet obs (read_memory gm a w)"
  unfolding read_memory_def by (intro quiet_bind quiet_mem_read quiet_prims)

lemma quiet_read_operand [simp, intro]: "quiet obs (read_operand gm op w)"
  by (cases op) (simp_all add: read_operand_def)

lemma atomic_write_memory [simp, intro]: "atomic obs (write_memory gm a w v)"
  by (simp add: write_memory_def)

lemma atomic_write_operand [simp, intro]: "atomic obs (write_operand gm op w v)"
  by (cases op) (auto simp: write_operand_def intro: atomic_bind_quiet quiet_atomic)

lemma atomic_families:
  "atomic obs (binary_alu gm i a k)" "atomic obs (step_by_one gm i a b)" "atomic obs (neg gm i a)"
  "atomic obs (not_op gm i a)" "atomic obs (mov gm i a)" "atomic obs (widen gm i a b)" "atomic obs (lea i a)"
  "atomic obs (cmpxchg8b gm i a)"
  by (simp_all add: atomic_rules Let_def binary_alu_def step_by_one_def neg_def not_op_def mov_def widen_def
        lea_def cmpxchg8b_def)

lemma quiet_shift_count [simp]: "quiet obs (shift_count i n a)"
  by (simp add: shift_count_def atomic_rules)

lemma atomic_arith:
  "atomic obs (shift gm i a sk)" "atomic obs (double_shift gm i a left)" "atomic obs (mul gm i a)"
  "atomic obs (imul gm i a)" "atomic obs (div_op gm i a is_signed)" "atomic obs (bswap i a)"
  "atomic obs (bit_scan gm i a fwd)"
  by (simp_all add: atomic_rules Let_def shift_def double_shift_def mul_def imul_def div_op_def bswap_def
        bit_scan_def)

lemma quiet_bit_location [simp]: "quiet obs (bit_location gm i a w)"
  by (simp add: atomic_rules Let_def bit_location_def)

lemma atomic_bit_test: "atomic obs (bit_test gm i a op)"
  by (cases op) (simp_all add: atomic_rules Let_def bit_test_def)

lemma quiet_push_source [simp]: "quiet obs (push_source gm i a)"
  by (cases "ins_op_kind i 0") (simp_all add: push_source_def atomic_rules)

lemma atomic_push_value [simp]: "atomic obs (push_value gm w v)"
  by (simp add: push_value_def atomic_rules)

lemma atomic_pop_value [simp]: "atomic obs (pop_value gm w)"
  by (simp add: pop_value_def atomic_rules)

lemma atomic_stack:
  "atomic obs (push gm i a)" "atomic obs (pushad gm)" "atomic obs (popad gm)" "atomic obs (leave gm i a)"
  "atomic obs (popfd gm)" "atomic obs (fldcw gm i a)" "atomic obs (bind_s (cpu_g eflags) (push_value gm D))"
  by (simp_all add: atomic_rules push_def pushad_def popad_def leave_def popfd_def fldcw_def)

lemma atomic_cmpxchg: "atomic obs (cmpxchg gm i a)"
  by (simp add: atomic_rules Let_def cmpxchg_def case_prod_beta)

lemma atomic_xadd:
  assumes "ins_op_kind i 1 = OpRegister"
  shows "atomic obs (xadd gm i a)"
  unfolding xadd_def Let_def
proof ((rule atomic_bind_result, rule quiet_getters quiet_read_operand)+, goal_cases)
  case (1 m0 w m0' m1 dst m1' m2 src m2' m3 av m3' m4 bv m4')
  have src: "src = RegOp (ins_op_register i 1)" "register_slot (ins_op_register i 1) \<noteq> None"
    using get_operand_result(1) [OF 1(3) assms] read_operand_result 1(5) by metis+
  have "(\<exists>l. dst = MemOp l) \<or> (\<exists>r. dst = RegOp r \<and> register_slot r \<noteq> None)"
    using get_width_result [OF 1(1)] get_operand_result [OF 1(2)] 1(4)
    by (auto dest!: read_operand_result)
  then show ?case
    by (auto simp: src safe_write_slot atomic_rules simp del: One_nat_def)
qed

lemma atomic_xchg:
  assumes "ins_op_kind i 1 = OpRegister"
  shows "atomic obs (xchg gm i a)"
  unfolding xchg_def
proof ((rule atomic_bind_result, rule quiet_getters quiet_read_operand)+, goal_cases)
  case (1 m0 w m0' m1 dst m1' m2 src m2' m3 av m3' m4 bv m4')
  have "src = RegOp (ins_op_register i 1)" "register_slot (ins_op_register i 1) \<noteq> None"
    using get_operand_result(1) [OF 1(3) assms] read_operand_result 1(5) by metis+
  then show ?case
    by (intro atomic_bind_safe atomic_write_operand) (simp add: safe_write_slot)
qed

lemma pop_undo:
  assumes "on_error (bind_s (get_operand i 0 a) (\<lambda>dst. write_operand gm dst w v))
             (\<lambda>m. m\<lparr>cpu := set_gpr 4 (gpr s 4) (cpu m)\<rparr>) m = (Inl e, m')" "cpu m = set_gpr 4 x s"
  shows "cpu m' = s \<and> obs (mem m') = obs (mem m)"
proof -
  have "atomic obs (bind_s (get_operand i 0 a) (\<lambda>dst. write_operand gm dst w v))"
    by (simp add: atomic_rules)
  then show ?thesis
    using assms by (auto simp: on_error_def same_def set_gpr_def split: prod.splits sum.splits dest!: atomicD)
qed

lemma atomic_pop: "atomic obs (pop gm i a)"
  unfolding atomic_def pop_def bind_s_Inl_iff
  by (auto simp: same_def cpu_g_def cpu_u_def monad_simps
      dest!: quietD [OF quiet_getters(1), of _ _ _ _ _ _ obs] quietD [OF quiet_read_memory] pop_undo)

lemma quiet_branch_target [simp]: "quiet obs (branch_target gm i a)"
  by (cases "ins_op_kind i 0") (simp_all add: branch_target_def atomic_rules)

lemma atomic_branch: "atomic obs (branch gm i a)"
  by (simp add: atomic_rules Let_def branch_def some_flow_def branch_jmp_def branch_call_def branch_ret_def
      branch_loop_def branch_jecxz_def branch_jcc_def)

lemma atomic_conditional: "atomic obs (conditional gm i a)"
  by (auto simp: conditional_def atomic_rules split: option.splits ConditionalClass.splits)

lemma atomic_operand_table:
  assumes "exchange_decoded i" "map_of (operand_table gm i a) (ins_mnemonic i) = Some f"
  shows "atomic obs f"
proof -
  have "\<forall>(n, f) \<in> set (operand_table gm i a). n \<notin> {''Xchg'', ''Xadd''} \<longrightarrow> atomic obs f"
    unfolding operand_table_def
    by (simp add: atomic_families atomic_arith atomic_bit_test atomic_stack atomic_cmpxchg atomic_pop)
  moreover have "(ins_mnemonic i, f) \<in> set (operand_table gm i a)"
    using assms(2) by (rule map_of_SomeD)
  moreover have "atomic obs f" if "ins_mnemonic i = ''Xchg''"
    using assms that atomic_xchg [of i a] by (simp add: operand_table_def exchange_decoded_def)
  moreover have "atomic obs f" if "ins_mnemonic i = ''Xadd''"
    using assms that atomic_xadd [of i a] by (simp add: operand_table_def exchange_decoded_def)
  ultimately show ?thesis
    by blast
qed

lemma atomic_straightline:
  assumes "exchange_decoded i" "ins_mnemonic i \<notin> set string_mnemonics"
  shows "atomic obs (execute_straightline gm i a)"
proof -
  have "map_of (string_table gm i a) (ins_mnemonic i) = None"
    using assms(2) by (simp add: map_of_eq_None_iff string_table_names)
  then show ?thesis
    using assms(1) unfolding execute_straightline_def
    by (auto simp: atomic_conditional atomic_rules intro: atomic_operand_table split: option.splits)
qed

lemma atomic_execute:
  assumes "exchange_decoded i" "ins_mnemonic i \<notin> set string_mnemonics"
    "integer_instruction x87_execute sse_execute i a"
  shows "atomic obs (execute gm x87_execute sse_execute i a)"
  unfolding execute_def
proof (rule atomic_bind_option [OF atomic_branch])
  show "branch gm i a m = (Inr None, m') \<Longrightarrow> m' = m" for m m'
    by (rule branch_None)
  show "atomic obs (case x87_execute i a of
          Some f \<Rightarrow> bind_s f (\<lambda>_. ret Next)
        | None \<Rightarrow> (case sse_execute i a of
            Some f \<Rightarrow> bind_s f (\<lambda>_. ret Next)
          | None \<Rightarrow> bind_s (execute_straightline gm i a) (\<lambda>_. ret Next)))"
    using assms(3) atomic_straightline [OF assms(1,2)]
    by (simp add: integer_instruction_def atomic_bind_safe)
qed

lemma quiet_decode_at: "quiet obs (decode_at gm decode ip a)"
  by (auto simp: decode_at_def decode_round_def Let_def atomic_rules case_prod_beta)

lemma atomic_step_decoded:
  assumes "exchange_decoded i" "ins_mnemonic i \<notin> set string_mnemonics"
    "integer_instruction x87_execute sse_execute i a"
  shows "atomic obs (step_decoded gm ports x87_execute sse_execute i a)"
  using atomic_execute [OF assms] unfolding step_decoded_def
  by (simp add: atomic_rules atomic_port_io)

lemma step_error:
  assumes "step_with_ports gm decode ports x87_execute sse_execute m = (Inl e, m')"
    and "\<forall>i m1. decode_at gm decode (eip (cpu m)) (eip (cpu m)) m = (Inr i, m1) \<longrightarrow>
           exchange_decoded i \<and> integer_instruction x87_execute sse_execute i (eip (cpu m)) \<and>
           ins_mnemonic i \<notin> set string_mnemonics"
  shows "same obs m m'"
  using assms(1)
proof (cases rule: step_error_cases)
  case 1
  then show ?thesis
    by (rule quietD [OF quiet_decode_at])
next
  case (2 bytes m1)
  show ?thesis
    using quietD [OF quiet_decode_at 2(1)] assms(2) 2(1) atomicD [OF atomic_step_decoded 2(2)] same_trans by blast
qed

end

section \<open>String instructions\<close>

lemma string_op_error:
  assumes "string_op gm i a k w m = (Inl e, m')"
  shows "eip (cpu m') = eip (cpu m) \<and> tsc (cpu m') = tsc (cpu m)"
proof (cases "string_operands_valid k i \<and> (\<exists>sb. segment_base (cpu m) (ins_memory_segment i) a = Inr sb)")
  case False
  then show ?thesis
    using assms by (auto simp: string_op_def unsupported_def cpu_r_def monad_simps split: if_splits sum.splits)
next
  case True
  then obtain sb where sb: "string_operands_valid k i" "segment_base (cpu m) (ins_memory_segment i) a = Inr sb"
    by auto
  let ?db = "seg_base (segment (cpu m) Es)"
  have L: "string_loop gm i a k w sb ?db MAX_REP_ITERATIONS_PER_STEP m = (Inl e, m')"
    using assms sb by (simp add: string_op_def cpu_r_def cpu_g_def monad_simps)
  show ?thesis
  proof (cases "ins_has_rep_prefix i \<or> ins_has_repne_prefix i")
    case True
    then show ?thesis
      using string_loop_frame [OF _ L] by auto
  next
    case False
    then have "string_pass gm a k w sb ?db m = (Inl e, m')"
      using L unfolding MAX_REP_Suc string_loop_once [OF False] by (auto split: prod.splits sum.splits)
    then show ?thesis
      using keepsD [OF keeps_string_pass] by (fastforce simp: kept_def)
  qed
qed

lemma string_table_error:
  assumes "map_of (string_table gm i a) n = Some f" "f m = (Inl e, m')"
  shows "eip (cpu m') = eip (cpu m) \<and> tsc (cpu m') = tsc (cpu m)"
proof -
  have "\<exists>k w. f = string_op gm i a k w"
    using map_of_SomeD [OF assms(1)] by (auto simp: string_table_def)
  then show ?thesis
    using string_op_error assms(2) by blast
qed

section \<open>A faulting step\<close>

interpretation any_memory: fault_observer gm "\<lambda>_. ()" for gm :: "'m guest_memory"
  by unfold_locales simp_all

interpretation sas_faults: fault_observer sas_memory "id :: SoftwareAddressSpace \<Rightarrow> SoftwareAddressSpace"
  by unfold_locales (auto dest: sas.read_state sas.fetch_state sas.write_error)

lemma string_mnemonic_tables:
  assumes "ins_mnemonic i \<in> set string_mnemonics"
  shows "ins_mnemonic i \<notin> {''Out'', ''In''}" "map_of (operand_table gm i a) (ins_mnemonic i) = None"
    "\<exists>f. map_of (string_table gm i a) (ins_mnemonic i) = Some f"
proof -
  have "ins_mnemonic i \<notin> set (''Out'' # ''In'' # operand_mnemonics)"
    using assms string_mnemonics_apart by blast
  then show "ins_mnemonic i \<notin> {''Out'', ''In''}" "map_of (operand_table gm i a) (ins_mnemonic i) = None"
    by (simp_all add: map_of_eq_None_iff operand_table_names [of gm i a, symmetric])
  show "\<exists>f. map_of (string_table gm i a) (ins_mnemonic i) = Some f"
    using assms by (metis map_of_eq_None_iff not_None_eq string_table_names)
qed

lemma execute_error:
  assumes "execute gm x87_execute sse_execute i a m = (Inl e, m')"
  obtains "branch gm i a m = (Inl e, m')"
    | f where "f m = (Inl e, m')" "x87_execute i a = Some f \<or> sse_execute i a = Some f"
    | "execute_straightline gm i a m = (Inl e, m')"
proof -
  consider "branch gm i a m = (Inl e, m')" | "branch gm i a m = (Inr None, m)"
      "(case x87_execute i a of
           Some f \<Rightarrow> bind_s f (\<lambda>_. ret Next)
         | None \<Rightarrow>
        (case sse_execute i a of
           Some f \<Rightarrow> bind_s f (\<lambda>_. ret Next)
         | None \<Rightarrow> bind_s (execute_straightline gm i a) (\<lambda>_. ret Next))) m = (Inl e, m')"
    using assms branch_None [of gm i a m]
    by (auto simp: execute_def bind_s_Inl_iff ret_def split: option.splits)
  then show thesis
    using that by cases (auto simp: bind_s_Inl_iff ret_def split: option.splits)
qed

lemma step_decoded_error:
  assumes "exchange_decoded i" "integer_instruction x87_execute sse_execute i a"
    and "step_decoded gm ports x87_execute sse_execute i a m = (Inl e, m')"
  shows "eip (cpu m') = eip (cpu m) \<and> tsc (cpu m') = tsc (cpu m)"
proof (cases "ins_mnemonic i \<in> set string_mnemonics")
  case False
  then show ?thesis
    using any_memory.atomic_step_decoded [OF assms(1) _ assms(2)] assms(3) atomicD
    by (fastforce simp: same_def)
next
  case True
  let ?S = "execute_straightline gm i a"
  note tables = string_mnemonic_tables [OF True]
  obtain f where f: "map_of (string_table gm i a) (ins_mnemonic i) = Some f"
    using tables(3) by blast
  have S: "eip (cpu m') = eip (cpu m) \<and> tsc (cpu m') = tsc (cpu m)" if "?S m = (Inl e, m')"
    using that string_table_error [OF f] by (simp add: execute_straightline_def tables(2) f)
  have "execute gm x87_execute sse_execute i a m = (Inl e, m')"
    using assms(3) tables(1)
    by (auto simp: step_decoded_def bind_s_Inl_iff cpu_u_def modify_def ret_def split: if_splits)
  then show ?thesis
  proof (cases rule: execute_error)
    case 1
    then show ?thesis
      using atomicD [OF any_memory.atomic_branch] by (fastforce simp: same_def)
  next
    case (2 f)
    with assms(2) show ?thesis by (simp add: integer_instruction_def)
  qed (rule S)
qed

text \<open>C15. A fault leaves the processor as it was.  For every guest memory, with devices behind it or not, every
  port bus and every decoder: if a step returns an error, whether the fetch failed, the bytes do not decode
  or the decoded instruction failed, and that instruction is an integer instruction (the floating-point
  and vector units do not own it) and not an exchange with a memory second operand, which the decoder never gives,
  then the instruction pointer and the time-stamp counter have not moved; and unless the decoded instruction
  is a string instruction the whole processor is exactly as it was.\<close>

theorem fault_leaves_cpu:
  assumes "step_with_ports gm decode ports x87_execute sse_execute m = (Inl e, m')"
    and "\<forall>i m1. decode_at gm decode (eip (cpu m)) (eip (cpu m)) m = (Inr i, m1) \<longrightarrow>
           exchange_decoded i \<and> integer_instruction x87_execute sse_execute i (eip (cpu m))"
  shows "eip (cpu m') = eip (cpu m) \<and> tsc (cpu m') = tsc (cpu m) \<and>
    ((\<forall>i m1. decode_at gm decode (eip (cpu m)) (eip (cpu m)) m = (Inr i, m1) \<longrightarrow>
        ins_mnemonic i \<notin> set string_mnemonics) \<longrightarrow> cpu m' = cpu m)"
proof -
  have "cpu m' = cpu m" if "\<forall>i m1. decode_at gm decode (eip (cpu m)) (eip (cpu m)) m = (Inr i, m1) \<longrightarrow>
      ins_mnemonic i \<notin> set string_mnemonics"
    using any_memory.step_error [OF assms(1)] assms(2) that by (simp add: same_def)
  moreover have "eip (cpu m') = eip (cpu m) \<and> tsc (cpu m') = tsc (cpu m)"
    using assms(1)
  proof (cases rule: step_error_cases)
    case 1
    then show ?thesis
      using quietD [OF any_memory.quiet_decode_at 1] by (simp add: same_def)
  next
    case (2 bytes m1)
    then show ?thesis
      using step_decoded_error [OF _ _ 2(2)] assms(2) quietD [OF any_memory.quiet_decode_at 2(1)]
      by (auto simp: same_def)
  qed
  ultimately show ?thesis by blast
qed

section \<open>Faults over the software address space\<close>

text \<open>C16. Over the software address space the whole machine is restored: a step that returns an error and whose
  decoded instruction, if the fetch got that far, is an integer instruction other than a string instruction
  leaves the processor and all of memory (RAM, page table, allocator, generations) exactly as they
  were, so it can be retried once the cause is repaired.\<close>

theorem fault_leaves_machine:
  assumes "step_with_ports sas_memory decode ports x87_execute sse_execute m = (Inl e, m')"
    and "\<forall>i m1. decode_at sas_memory decode (eip (cpu m)) (eip (cpu m)) m = (Inr i, m1) \<longrightarrow>
           exchange_decoded i \<and> integer_instruction x87_execute sse_execute i (eip (cpu m)) \<and>
           ins_mnemonic i \<notin> set string_mnemonics"
  shows "m' = m"
  using sas_faults.step_error [OF assms] by (simp add: same_def)

text \<open>A division by zero, a string instruction and a floating-point instruction, told apart by their first byte.\<close>

definition div_ecx :: Instruction where
  "div_ecx = plain_instruction\<lparr>ins_mnemonic := ''Div'', ins_len := 2, ins_op_count := 1,
               ins_op_kind := (\<lambda>_. OpRegister), ins_op_register := (\<lambda>_. ECX), ins_op_register_size := (\<lambda>_. 4)\<rparr>"

definition three_way :: decoder where
  "three_way bytes ip =
     (if hd bytes = 0xAC then rep_lodsb
      else if hd bytes = 0xD8 then plain_instruction\<lparr>ins_mnemonic := ''Fadd''\<rparr> else div_ecx, False)"

text \<open>A unit that owns its mnemonic and fails after a change.\<close>

definition fadd_unit :: "'m exec_unit" where
  "fadd_unit i a = (if ins_mnemonic i = ''Fadd''
     then Some (bind_s (cpu_u (set_gpr 0 1)) (\<lambda>_. throw (ExecUnsupported a))) else None)"

lemma cpu_default_eip: "eip cpu_default = 0"
  by (simp add: cpu_default_def)

lemma div_ecx_steps:
  "step_decoded gm ports fadd_unit fadd_unit div_ecx a \<lparr>cpu = cpu_default, mem = w\<rparr> =
     (Inl (Divide a), \<lparr>cpu = cpu_default, mem = w\<rparr>)"
  by (simp add: step_decoded_def execute_def branch_def branch_jcc_def execute_straightline_def operand_table_def fadd_unit_def
      div_ecx_def plain_instruction_def div_op_def get_width_def operand_width_def from_bytes_def get_operand_def operand_def
      read_operand_def read_register_def register_slot_def cpu_r_def cpu_default_def ok_or_def Let_def monad_simps)

lemma div_ecx_class [simp]:
  "exchange_decoded div_ecx" "ins_mnemonic div_ecx \<notin> set string_mnemonics" "ins_is_invalid div_ecx = False"
  "integer_instruction fadd_unit fadd_unit div_ecx a"
  by (simp_all add: exchange_decoded_def div_ecx_def plain_instruction_def string_mnemonics_def integer_instruction_def
      fadd_unit_def)

lemma three_way_div:
  assumes "\<exists>bs. gm_fetch gm 0 15 w = (Inr (0 # bs), w)"
  shows "decode_at gm three_way 0 0 \<lparr>cpu = c, mem = w\<rparr> = (Inr div_ecx, \<lparr>cpu = c, mem = w\<rparr>)"
  using assms
  by (auto simp: decode_at_def decode_round_def on_mem_def three_way_def to_page_end_def MAX_INSTRUCTION_LEN_def monad_simps)

lemma three_way_step:
  assumes "\<exists>bs. gm_fetch gm 0 15 w = (Inr (0 # bs), w)"
  shows "step_with_ports gm three_way no_ports fadd_unit fadd_unit \<lparr>cpu = cpu_default, mem = w\<rparr> =
    (Inl (Divide 0), \<lparr>cpu = cpu_default, mem = w\<rparr>)"
  using three_way_div [OF assms, of cpu_default]
  by (simp add: step_with_ports_def cpu_g_def cpu_default_eip div_ecx_steps monad_simps)

theorem fault_leaves_cpu_witness:
  "\<exists>m'. step_with_ports counting_memory three_way no_ports fadd_unit fadd_unit
      \<lparr>cpu = cpu_default, mem = ()\<rparr> = (Inl (Divide 0), m') \<and> cpu m' = cpu_default"
proof -
  let ?m = "\<lparr>cpu = cpu_default, mem = ()\<rparr>"
  have f: "\<exists>bs. gm_fetch counting_memory 0 15 () = (Inr (0 # bs), ())"
    by (simp add: counting_memory_def upt_conv_Cons)
  note run = three_way_step [of counting_memory, OF f]
  show ?thesis
    using fault_leaves_cpu [OF run] three_way_div [of counting_memory, OF f] run by (simp add: cpu_default_eip)
qed

text \<open>A space whose first page is executable and holds zeros.\<close>

definition zero_page :: SoftwareAddressSpace where
  "zero_page = two_views\<lparr>table := (table two_views)\<lparr>entries := \<lambda>i. if i = 0 then desc_ram 2 (READ OR EXECUTE) 0 else 0\<rparr>\<rparr>"

lemma zero_page_fetch: "\<exists>bs. gm_fetch sas_memory 0 15 zero_page = (Inr (0 # bs), zero_page)"
proof -
  have page: "va_page (0 + word_of_nat i) = 0" "unat (page_offset (0 + word_of_nat i)) = i" if "i < 15" for i
    using same_page [where i = i and g = 0] that by (simp_all add: va_page_def page_offset_def)
  have "pt_get (table zero_page) 0 = desc_ram 2 (READ OR EXECUTE) 0"
    by (simp add: zero_page_def pt_get_def page_index_def)
  then have "accessible (table zero_page) (physical_len zero_page) Execute 0 15"
    using page by (simp add: accessible_def granted_def paddr_def desc_ram_fields perm_contains_def zero_page_def)
  then have "sas_access_read Execute 0 15 zero_page = (Inr (load_bytes (table zero_page) 0 15 (ram zero_page)), zero_page)"
    by (intro sas_access_read_ok) (simp_all add: in_space_def)
  then show ?thesis
    by (simp add: sas_memory_def load_bytes_def upt_conv_Cons) (simp add: zero_page_def two_views_def)
qed

theorem fault_leaves_machine_witness:
  "\<exists>m'. step_with_ports sas_memory three_way no_ports fadd_unit fadd_unit
      \<lparr>cpu = cpu_default, mem = zero_page\<rparr> = (Inl (Divide 0), m') \<and> m' = \<lparr>cpu = cpu_default, mem = zero_page\<rparr>"
proof -
  note run = three_way_step [OF zero_page_fetch]
  show ?thesis
    using fault_leaves_machine [OF run] three_way_div [OF zero_page_fetch] run by (simp add: cpu_default_eip)
qed

end
