(* ===== verification/Exec_Results.thy ===== *)
theory Exec_Results
  imports Exec_Step
begin

text \<open>
  What the interpreter's instructions compute, against arithmetic on integers: the views of the
  register file, multiplication and division, shifts and rotates.
\<close>

unbundle bit_operations_syntax

section \<open>Register views\<close>

fun slot_index :: "RegisterSlot \<Rightarrow> nat" where
  "slot_index (Low8 i) = i" | "slot_index (High8 i) = i" | "slot_index (Wide16 i) = i" | "slot_index (Wide32 i) = i"

fun slot_low :: "RegisterSlot \<Rightarrow> nat" where
  "slot_low (High8 i) = 8" | "slot_low _ = 0"

fun slot_size :: "RegisterSlot \<Rightarrow> nat" where
  "slot_size (Low8 i) = 8" | "slot_size (High8 i) = 8" | "slot_size (Wide16 i) = 16" | "slot_size (Wide32 i) = 32"

lemma mask_bits:
  "(0xFF :: u32) = mask 8" "(0xFFFF :: u32) = mask 16"
  "(0xFFFFFF00 :: u32) = NOT (mask 8)" "(0xFFFF0000 :: u32) = NOT (mask 16)"
  "(0xFFFF00FF :: u32) = NOT (push_bit 8 (mask 8))"
  by (simp_all add: mask_eq_decr_exp)

lemma write_slot_bits:
  "bit (gpr (write_slot slot v s) r) n \<longleftrightarrow>
     (if r = slot_index slot \<and> slot_low slot \<le> n \<and> n < slot_low slot + slot_size slot
      then bit v (n - slot_low slot) else bit (gpr s r) n)"
  by (cases slot) (auto simp: mask_bits bit_simps dest: bit_imp_le_length)

lemma read_slot_bits:
  "bit (read_slot s slot) n \<longleftrightarrow> n < slot_size slot \<and> bit (gpr s (slot_index slot)) (slot_low slot + n)"
  by (cases slot) (auto simp: mask_bits bit_simps add.commute dest: bit_imp_le_length)

lemma write_slot_frame: "write_slot slot v s = s\<lparr>gpr := gpr (write_slot slot v s)\<rparr>"
  by (cases slot) (simp_all add: set_gpr_def)

text \<open>The register names in the order of their machine encoding, and the window of the \<open>k\<close>-th name of a size: its
  register, lowest bit and number of bits.\<close>

fun register_names :: "Width \<Rightarrow> Register list" where
  "register_names B = [AL, CL, DL, BL, AH, CH, DH, BH]"
| "register_names W = [AX, CX, DX, BX, SP, BP, SI, DI]"
| "register_names D = [EAX, ECX, EDX, EBX, ESP, EBP, ESI, EDI]"

fun name_window :: "Width \<Rightarrow> nat \<Rightarrow> nat \<times> nat \<times> nat" where
  "name_window B k = (k mod 4, 8 * (k div 4), 8)"
| "name_window W k = (k, 0, 16)"
| "name_window D k = (k, 0, 32)"

lemma slot_of_name:
  assumes "k < 8"
  shows "\<exists>slot. register_slot (register_names w ! k) = Some slot \<and> name_window w k = (slot_index slot, slot_low slot, slot_size slot)"
proof -
  have "k \<in> {0, 1, 2, 3, 4, 5, 6, 7}" using assms by auto
  then show ?thesis by (cases w) (auto simp: register_slot_def)
qed

text \<open>C26. The register file: each of the 24 register names is a window of bits of one of the eight 32-bit
  registers, the \<open>k\<close>-th byte name a byte of register \<open>k mod 4\<close> (the low one for AL to BL, the next for AH to BH), the
  \<open>k\<close>-th word and doubleword name the low 16 bits and the whole of register \<open>k\<close>.  Writing through a name
  changes exactly the bits of its window and nothing else of the machine, and reading through a name gives
  exactly the bits of its window, so overlapping names such as AH and EAX see each other's writes and disjoint
  ones such as AL and AH do not.\<close>

theorem register_windows:
  assumes "k < 8" and "name_window w k = (index, low, len)"
  shows "\<exists>m'. write_register (register_names w ! k) v a m = (Inr (), m') \<and> m' = m\<lparr>cpu := (cpu m)\<lparr>gpr := gpr (cpu m')\<rparr>\<rparr> \<and>
    (\<forall>r n. bit (gpr (cpu m') r) n \<longleftrightarrow>
       (if r = index \<and> low \<le> n \<and> n < low + len then bit v (n - low) else bit (gpr (cpu m) r) n)) \<and>
    (\<exists>x. read_register (cpu m) (register_names w ! k) a = Inr x \<and>
       (\<forall>n. bit x n \<longleftrightarrow> n < len \<and> bit (gpr (cpu m) index) (low + n)))"
proof -
  obtain slot where slot: "register_slot (register_names w ! k) = Some slot"
    and win: "index = slot_index slot" "low = slot_low slot" "len = slot_size slot"
    using slot_of_name [OF assms(1), of w] assms(2) by auto
  let ?m = "m\<lparr>cpu := write_slot slot v (cpu m)\<rparr>"
  have "write_register (register_names w ! k) v a m = (Inr (), ?m)"
    using slot by (simp add: write_register_def cpu_u_def)
  moreover have "?m = m\<lparr>cpu := (cpu m)\<lparr>gpr := gpr (cpu ?m)\<rparr>\<rparr>"
    using write_slot_frame [of slot v "cpu m"] by simp
  moreover have "read_register (cpu m) (register_names w ! k) a = Inr (read_slot (cpu m) slot)"
    using slot by (simp add: read_register_def)
  ultimately show ?thesis
    unfolding win by (intro exI [of _ ?m]) (simp add: write_slot_bits read_slot_bits)
qed

theorem register_windows_witness:
  "\<exists>m'. write_register AH 0x7F 0 \<lparr>cpu = cpu_default, mem = ()\<rparr> = (Inr (), m') \<and> bit (gpr (cpu m') 0) 8"
proof -
  have "name_window B 4 = (0, 8, 8)" by simp
  from register_windows [OF _ this, of "0x7F" 0 "\<lparr>cpu = cpu_default, mem = ()\<rparr>"] show ?thesis
    by (auto simp: bit_simps)
qed

section \<open>Multiplication\<close>

text \<open>The register pair that holds a product or a dividend: AX, DX:AX or EDX:EAX.\<close>

fun pair :: "Width \<Rightarrow> CpuState \<Rightarrow> nat" where
  "pair B s = unat (gpr s 0) mod 2 ^ 16"
| "pair W s = (unat (gpr s 2) mod 2 ^ 16) * 2 ^ 16 + unat (gpr s 0) mod 2 ^ 16"
| "pair D s = unat (gpr s 2) * 2 ^ 32 + unat (gpr s 0)"

lemma unat_low16: "unat (low16 old v) mod 2 ^ 16 = unat v mod 2 ^ 16"
proof -
  have "take_bit 16 (low16 old v) = take_bit 16 v"
    by (rule bit_eqI) (auto simp: low16_def mask_bits bit_simps)
  then show ?thesis
    by (metis unsigned_take_bit_eq take_bit_eq_mod)
qed

lemma unat_and_low:
  "unat (x AND 0xFF :: u32) = unat x mod 2 ^ 8" "unat (x AND 0xFFFF :: u32) = unat x mod 2 ^ 16"
  by (simp_all add: mask_bits unat_and_mask)

lemma overflow_flags_simps [simp]:
  "gpr (overflow_flags b s) = gpr s" "eip (overflow_flags b s) = eip s"
  "bit (eflags (overflow_flags b s)) n \<longleftrightarrow> (if n \<in> {0, 11} then b else bit (eflags s) n)"
  by (auto simp: overflow_flags_def merge_flags_def from_bool_def bit_simps Let_def dest: bit_imp_le_length)

lemma product_fits: "a < 2 ^ 32 \<Longrightarrow> b < 2 ^ 32 \<Longrightarrow> a * b < (2 ^ 64 :: nat)"
  using mult_strict_mono [of a "2 ^ 32" b "2 ^ 32"] by simp

lemma unat_product:
  fixes a b :: u64
  assumes "unat a < 2 ^ 32" "unat b < 2 ^ 32"
  shows "unat (a * b) = unat a * unat b"
  using product_fits [OF assms] by (simp add: unat_word_ariths)

lemma and_full: "x AND 0xFFFFFFFF = (x :: u32)"
proof -
  have "(0xFFFFFFFF :: u32) = - 1"
    by simp
  then show ?thesis
    by (simp only: and.right_neutral)
qed

lemma unat_lt_2p64: "unat (p :: u64) < 2 ^ 64"
  by (rule order.strict_trans2 [OF unsigned_less]) simp

lemma unat_product_parts:
  fixes p :: u64
  shows "unat (ucast p AND 0xFFFF :: u32) = unat p mod 2 ^ 16"
    "unat (ucast (drop_bit 16 p) AND 0xFFFF :: u32) = unat p div 2 ^ 16 mod 2 ^ 16"
    "unat (ucast p :: u32) = unat p mod 2 ^ 32"
    "unat (ucast (drop_bit 32 p) :: u32) = unat p div 2 ^ 32"
proof -
  show c: "unat (ucast q :: u32) = unat q mod 2 ^ 32" for q :: u64
    by (simp add: unsigned_ucast_eq take_bit_eq_mod)
  show "unat (ucast p AND 0xFFFF :: u32) = unat p mod 2 ^ 16"
    using mod_mod_cancel [of "2 ^ 16" "2 ^ 32" "unat p"] by (simp add: unat_and_low c)
  show "unat (ucast (drop_bit 16 p) AND 0xFFFF :: u32) = unat p div 2 ^ 16 mod 2 ^ 16"
    using mod_mod_cancel [of "2 ^ 16" "2 ^ 32" "unat p div 2 ^ 16"]
    by (simp add: unat_and_low c unat_drop_bit)
  have "unat p div 2 ^ 32 < 2 ^ 32"
    using unat_lt_2p64 [of p] by (simp add: less_mult_imp_div_less)
  then show "unat (ucast (drop_bit 32 p) :: u32) = unat p div 2 ^ 32"
    by (simp add: c unat_drop_bit)
qed

lemma mul_product:
  fixes b :: u64 and s :: CpuState
  assumes "unat b < 2 ^ width_bits w"
  defines "product \<equiv> ucast (gpr s 0 AND width_mask w) * b"
  shows "unat product = (unat (gpr s 0) mod 2 ^ width_bits w) * unat b"
    and "unat product < 2 ^ (2 * width_bits w)"
proof -
  define a where "a = unat (gpr s 0) mod 2 ^ width_bits w"
  have "unat (gpr s 0 AND width_mask w) = a"
    by (cases w) (simp_all add: unat_and_low and_full a_def)
  then have a: "unat (ucast (gpr s 0 AND width_mask w) :: u64) = a"
    using unsigned_less [of "gpr s 0 AND width_mask w", where 'a = nat]
    by (simp add: unsigned_ucast_eq take_bit_nat_eq_self_iff)
  have small: "a < 2 ^ width_bits w" "2 ^ width_bits w \<le> (2 ^ 32 :: nat)"
    by (simp add: a_def) (cases w; simp)
  then show "unat product = a * unat b" unfolding product_def
    using unat_product [of "ucast (gpr s 0 AND width_mask w)" b] assms(1) a by simp
  then show "unat product < 2 ^ (2 * width_bits w)"
    using mult_strict_mono [OF small(1) assms(1)] by (simp add: mult_2 power_add)
qed

lemma mul_result_product:
  fixes s :: CpuState
  assumes "unat b < 2 ^ width_bits w"
  shows "pair w (mul_result w b s) = (unat (gpr s 0) mod 2 ^ width_bits w) * unat b"
    "bit (eflags (mul_result w b s)) 0 \<longleftrightarrow> 2 ^ width_bits w \<le> pair w (mul_result w b s)"
proof -
  define p where "p = (ucast (gpr s 0 AND width_mask w) :: u64) * b"
  have p: "unat p = (unat (gpr s 0) mod 2 ^ width_bits w) * unat b" "unat p < 2 ^ (2 * width_bits w)"
    using mul_product [OF assms, of s] by (simp_all add: p_def)
  have pair: "pair w (mul_result w b s) = unat p"
  proof (cases w)
    case B
    then have "mul_result B b s = overflow_flags (p > 0xFF) (set_gpr 0 (low16 (gpr s 0) (ucast p AND 0xFFFF)) s)"
      by (simp add: p_def Let_def)
    then show ?thesis
      using p(2) B by (simp add: unat_low16 [simplified] unat_product_parts)
  next
    case W
    then have "gpr (mul_result W b s) =
        (gpr s)(0 := low16 (gpr s 0) (ucast p AND 0xFFFF), 2 := low16 (gpr s 2) (ucast (drop_bit 16 p) AND 0xFFFF))"
      by (simp add: p_def Let_def)
    moreover have "unat p div 2 ^ 16 < 2 ^ 16"
      using p(2) W by (simp add: less_mult_imp_div_less)
    ultimately show ?thesis
      using W by (simp add: unat_low16 [simplified] unat_product_parts unat_drop_bit div_mult_mod_eq)
  next
    case D
    then have "gpr (mul_result D b s) = (gpr s)(0 := ucast p, 2 := ucast (drop_bit 32 p))"
      by (simp add: p_def Let_def and_full)
    moreover have "unat p div 2 ^ 32 < 2 ^ 32"
      using p(2) D by (simp add: less_mult_imp_div_less)
    ultimately show ?thesis
      using D by (simp add: unat_product_parts unat_drop_bit div_mult_mod_eq)
  qed
  show "pair w (mul_result w b s) = (unat (gpr s 0) mod 2 ^ width_bits w) * unat b"
    using pair p(1) by simp
  show "bit (eflags (mul_result w b s)) 0 \<longleftrightarrow> 2 ^ width_bits w \<le> pair w (mul_result w b s)"
    unfolding pair by (cases w) (auto simp: p_def Let_def word_less_nat_alt and_full)
qed

text \<open>C20. \<^verbatim>\<open>mul\<close> is exact at every width: the register pair holds the full product of the accumulator and the
  operand, and carry and overflow are set exactly when the product does not fit the lower half.\<close>

theorem mul_exact:
  assumes "unat b < 2 ^ width_bits w"
  shows "let s' = mul_result w b s in
    pair w s' = (unat (gpr s 0) mod 2 ^ width_bits w) * unat b \<and>
    (bit (eflags s') 0 \<longleftrightarrow> 2 ^ width_bits w \<le> pair w s') \<and> (bit (eflags s') 11 \<longleftrightarrow> bit (eflags s') 0) \<and>
    (\<forall>n. n \<notin> {0, 11} \<longrightarrow> (bit (eflags s') n \<longleftrightarrow> bit (eflags s) n)) \<and>
    (\<forall>r. r \<notin> {0, 2} \<longrightarrow> gpr s' r = gpr s r)"
proof -
  have "(bit (eflags (mul_result w b s)) 11 \<longleftrightarrow> bit (eflags (mul_result w b s)) 0) \<and>
    (\<forall>n. n \<notin> {0, 11} \<longrightarrow> (bit (eflags (mul_result w b s)) n \<longleftrightarrow> bit (eflags s) n)) \<and>
    (\<forall>r. r \<notin> {0, 2} \<longrightarrow> gpr (mul_result w b s) r = gpr s r)"
    by (cases w) (simp_all add: Let_def)
  then show ?thesis
    using mul_result_product [OF assms] unfolding Let_def by blast
qed

theorem mul_exact_witness:
  "pair D (mul_result D 0x10 (set_gpr 0 0xF0000001 cpu_default)) = 0xF0000001 * 0x10"
  using mul_exact [where b = "0x10" and w = D and s = "set_gpr 0 0xF0000001 cpu_default"] unfolding Let_def by simp

section \<open>Division\<close>

fun div_quotient :: "Width \<Rightarrow> CpuState \<Rightarrow> nat" where
  "div_quotient B s = unat (gpr s 0) mod 2 ^ 8"
| "div_quotient W s = unat (gpr s 0) mod 2 ^ 16"
| "div_quotient D s = unat (gpr s 0)"

fun div_remainder :: "Width \<Rightarrow> CpuState \<Rightarrow> nat" where
  "div_remainder B s = unat (gpr s 0) div 2 ^ 8 mod 2 ^ 8"
| "div_remainder W s = unat (gpr s 2) mod 2 ^ 16"
| "div_remainder D s = unat (gpr s 2)"

lemma bit_below:
  fixes q :: "'a::len word"
  assumes "unat q < 2 ^ k" "bit q n"
  shows "n < k"
proof (rule ccontr)
  assume "\<not> n < k"
  then have "unat q < 2 ^ n"
    using assms(1) by (meson leI less_le_trans one_le_numeral power_increasing)
  then have "\<not> bit (unat q) n"
    by (simp add: bit_iff_odd)
  then show False
    using assms(2) by (simp add: bit_unsigned_iff)
qed

lemma unat_packed:
  fixes p q :: "'a::len word"
  assumes "unat q < 2 ^ k" "unat p * 2 ^ k + unat q < 2 ^ LENGTH('a)"
  shows "unat (push_bit k p OR q) = unat p * 2 ^ k + unat q"
proof -
  have "push_bit k p AND q = 0"
    by (rule bit_eqI) (auto simp: bit_simps dest: bit_below [OF assms(1)])
  then have "push_bit k p OR q = push_bit k p + q"
    by (simp add: disjunctive_add_eq_or)
  moreover have "unat (push_bit k p) = unat p * 2 ^ k"
    using assms(2) by (simp add: unsigned_push_bit_eq push_bit_eq_mult [where 'a = nat] take_bit_nat_eq_self_iff)
  ultimately show ?thesis
    using assms(2) by (simp add: unat_plus_no_overflow)
qed

lemma unat_packed8:
  fixes q r x :: u32
  assumes "unat q < 2 ^ 8" "unat r < 2 ^ 8"
  shows "unat ((x AND 0xFFFF0000) OR push_bit 8 r OR q) mod 2 ^ 8 = unat q"
    "unat ((x AND 0xFFFF0000) OR push_bit 8 r OR q) div 2 ^ 8 mod 2 ^ 8 = unat r"
proof -
  let ?v = "(x AND 0xFFFF0000) OR push_bit 8 r OR q"
  have "?v AND mask 8 = q"
    by (rule bit_eqI) (auto simp: mask_bits bit_simps dest: bit_below [OF assms(1)])
  then show "unat ?v mod 2 ^ 8 = unat q"
    by (metis unat_and_mask)
  have "drop_bit 8 ?v AND mask 8 = r"
    by (rule bit_eqI)
      (auto simp: mask_bits bit_simps dest: bit_below [OF assms(1)] bit_below [OF assms(2)] bit_imp_le_length)
  then show "unat ?v div 2 ^ 8 mod 2 ^ 8 = unat r"
    by (metis unat_and_mask unat_drop_bit)
qed

lemma pair_word:
  "pair B s = unat (gpr s 0 AND 0xFFFF)"
  "pair W s = unat (push_bit 16 (gpr s 2 AND 0xFFFF) OR (gpr s 0 AND 0xFFFF))"
  "pair D s = unat (push_bit 32 (ucast (gpr s 2)) OR ucast (gpr s 0) :: u64)"
proof -
  show "pair B s = unat (gpr s 0 AND 0xFFFF)"
    by (simp add: unat_and_low)
  have "unat (gpr s 0) mod 2 ^ 16 < 2 ^ 16" "unat (gpr s 2) mod 2 ^ 16 < 2 ^ 16"
    by simp_all
  then show "pair W s = unat (push_bit 16 (gpr s 2 AND 0xFFFF) OR (gpr s 0 AND 0xFFFF))"
    by (subst unat_packed) (simp_all add: unat_and_low)
  have u: "unat (ucast x :: u64) = unat x" for x :: u32
    by (simp add: unsigned_ucast_eq take_bit_nat_eq_self_iff order.strict_trans [OF unat_lt_2p32])
  show "pair D s = unat (push_bit 32 (ucast (gpr s 2)) OR ucast (gpr s 0) :: u64)"
    using unat_lt_2p32 [of "gpr s 0"] unat_lt_2p32 [of "gpr s 2"]
    by (subst unat_packed) (simp_all add: u del: unat_lt_2p32)
qed

lemma div_put_results:
  assumes "unat q < 2 ^ width_bits w" "unat r < 2 ^ width_bits w"
  shows "div_quotient w (div_put w q r s) = unat q" "div_remainder w (div_put w q r s) = unat r"
  using assms unat_packed8 [of q r "gpr s 0"] by (cases w; simp add: unat_low16 [simplified])+

lemma unat_wide: "unat (ucast x :: u64) = unat (x :: u32)"
  by (simp add: unsigned_ucast_eq take_bit_nat_eq_self_iff order.strict_trans [OF unat_lt_2p32])

text \<open>The word that holds the dividend, and what both its quotient and its remainder are.\<close>

lemma unat_narrow: "unat y < 2 ^ 32 \<Longrightarrow> unat (ucast (y :: u64) :: u32) = unat y"
  by (simp add: unsigned_ucast_eq take_bit_nat_eq_self_iff)

lemma unsigned_div_result:
  fixes d :: u32
  assumes "unat d < 2 ^ width_bits w" "d \<noteq> 0"
  shows "case div_result w False d s of
      None \<Rightarrow> 2 ^ width_bits w \<le> pair w s div unat d
    | Some s' \<Rightarrow> div_quotient w s' = pair w s div unat d \<and> div_remainder w s' = pair w s mod unat d"
proof -
  have r: "n mod unat d < 2 ^ width_bits w" for n
    using assms by (meson less_trans mod_less_divisor unat_gt_0)
  show ?thesis
  proof (cases w)
    case B
    define x where "x = gpr s 0 AND 0xFFFF"
    show ?thesis
      using r [of "unat x"] div_put_results [of "x div d" B "x mod d" s]
      unfolding B pair_word div_result.simps x_def [symmetric]
      by (auto simp: Let_def word_less_nat_alt unat_div unat_mod not_less simp del: div_put.simps div_quotient.simps div_remainder.simps)
  next
    case W
    define x where "x = push_bit 16 (gpr s 2 AND 0xFFFF) OR (gpr s 0 AND 0xFFFF)"
    show ?thesis
      using r [of "unat x"] div_put_results [of "x div d" W "x mod d" s]
      unfolding W pair_word div_result.simps x_def [symmetric]
      by (auto simp: Let_def word_less_nat_alt unat_div unat_mod not_less simp del: div_put.simps div_quotient.simps div_remainder.simps)
  next
    case D
    define x :: u64 where "x = push_bit 32 (ucast (gpr s 2)) OR ucast (gpr s 0)"
    show ?thesis
      using r [of "unat x"] div_put_results [of "ucast (x div ucast d)" D "ucast (x mod ucast d)" s]
      unfolding D pair_word div_result.simps x_def [symmetric]
      by (auto simp: Let_def word_less_nat_alt unat_div unat_mod not_less unat_wide unat_narrow
          simp del: div_put.simps div_quotient.simps div_remainder.simps)
  qed
qed

text \<open>The signed reading of an operand and of the register pair.\<close>

definition signed_of :: "Width \<Rightarrow> nat \<Rightarrow> int" where
  "signed_of w v = signed_take_bit (width_bits w - 1) (int v)"

definition signed_pair :: "Width \<Rightarrow> CpuState \<Rightarrow> int" where
  "signed_pair w s = signed_take_bit (2 * width_bits w - 1) (int (pair w s))"

definition fits :: "Width \<Rightarrow> int \<Rightarrow> bool" where
  "fits w z \<longleftrightarrow> - (2 ^ (width_bits w - 1)) \<le> z \<and> z < 2 ^ (width_bits w - 1)"

lemma int_unat_masked: "int (unat (word_of_int z AND width_mask w :: u32)) = take_bit (width_bits w) z"
proof -
  have "(word_of_int z AND width_mask w :: u32) = take_bit (width_bits w) (word_of_int z)"
    by (cases w) (simp_all add: mask_bits and_full word_and_mask_take_bit take_bit_word_eq_self)
  moreover have "uint (take_bit (width_bits w) (word_of_int z :: u32)) = take_bit (width_bits w) z"
    by (cases w) (simp_all add: unsigned_take_bit_eq uint_word_of_int_eq take_bit_take_bit)
  ultimately show ?thesis
    by simp
qed

lemma signed_masked: "fits w z \<Longrightarrow> signed_of w (unat (word_of_int z AND width_mask w)) = z"
  unfolding signed_of_def int_unat_masked fits_def
  by (cases w) (simp_all add: signed_take_bit_take_bit signed_take_bit_int_eq_self)

lemma masked_less: "unat (v AND width_mask w) < 2 ^ width_bits w"
  by (cases w) (simp_all add: unat_and_low and_full)

lemma signed_of_word:
  "signed_of B (unat d) = sint (ucast (d :: u32) :: u8)"
  "signed_of W (unat d) = sint (ucast d :: u16)"
  "signed_of D (unat d) = sint d"
  by (simp_all add: signed_of_def sint_uint unsigned_ucast_eq signed_take_bit_take_bit)

lemma wrapping_div_eq:
  "wrapping_div32 a b = signed_take_bit 31 (a sdiv b)" "wrapping_div64 a b = signed_take_bit 63 (a sdiv b)"
  by (simp_all add: wrapping_div32_def wrapping_div64_def sint_sbintrunc')

lemma signed_pair_word:
  "signed_pair B s = sint (ucast (gpr s 0 AND 0xFFFF) :: u16)"
  "signed_pair W s = sint (push_bit 16 (gpr s 2 AND 0xFFFF) OR (gpr s 0 AND 0xFFFF))"
  "signed_pair D s = sint (push_bit 32 (ucast (gpr s 2)) OR ucast (gpr s 0) :: u64)"
  unfolding signed_pair_def pair_word
  by (simp_all add: sint_uint unsigned_ucast_eq signed_take_bit_take_bit del: pair.simps)

lemma signed_pair_range: "- (2 ^ (2 * width_bits w - 1)) \<le> signed_pair w s" "signed_pair w s < 2 ^ (2 * width_bits w - 1)"
  by (simp_all add: signed_pair_def signed_take_bit_int_greater_eq_minus_exp signed_take_bit_int_less_exp)

lemma wrapped_quotient:
  assumes "- (2 ^ k) \<le> z" "z \<le> (2 ^ k :: int)" "h < k"
  shows "signed_take_bit k z > 2 ^ h - 1 \<or> signed_take_bit k z < - (2 ^ h) \<longleftrightarrow> \<not> (- (2 ^ h) \<le> z \<and> z < 2 ^ h)"
    "- (2 ^ h) \<le> z \<Longrightarrow> z < 2 ^ h \<Longrightarrow> signed_take_bit k z = z"
proof -
  have p: "(2 :: int) ^ h < 2 ^ k"
    using assms(3) by simp
  show in_range: "signed_take_bit k z = z" if "- (2 ^ h) \<le> z" "z < 2 ^ h"
    by (rule signed_take_bit_int_eq_self) (use that p in linarith)+
  show "signed_take_bit k z > 2 ^ h - 1 \<or> signed_take_bit k z < - (2 ^ h) \<longleftrightarrow> \<not> (- (2 ^ h) \<le> z \<and> z < 2 ^ h)"
  proof (cases "z = 2 ^ k")
    case True
    have "signed_take_bit k (2 ^ k :: int) = - (2 ^ k)"
      by (simp add: signed_take_bit_eq_take_bit_shift flip: mult_2 power_Suc)
    then show ?thesis
      using True p by simp
  next
    case False
    then have "signed_take_bit k z = z"
      using assms by (intro signed_take_bit_int_eq_self) auto
    then show ?thesis
      by auto
  qed
qed

lemma signed_of_range: "fits w (signed_of w v)"
  by (simp add: fits_def signed_of_def signed_take_bit_int_greater_eq_minus_exp signed_take_bit_int_less_exp)

lemma signed_of_nonzero:
  assumes "v < 2 ^ width_bits w" "v \<noteq> 0"
  shows "signed_of w v \<noteq> 0"
proof -
  have "take_bit (width_bits w) (signed_of w v) = take_bit (width_bits w) (int v)"
    by (cases w) (simp_all add: signed_of_def take_bit_signed_take_bit)
  also have "\<dots> = int v"
    using assms(1) by (simp add: take_bit_int_eq_self_iff)
  finally show ?thesis
    using assms(2) by auto
qed

lemma remainder_fits:
  assumes "fits w e" "e \<noteq> 0"
  shows "fits w (n smod e)"
  using smod_int_range [OF assms(2), of n] assms(1) by (auto simp: fits_def)

lemma div_signed_shape:
  "div_result w True d s =
     (let z = signed_take_bit (if w = D then 63 else 31) (signed_pair w s sdiv signed_of w (unat d)) in
      if z > 2 ^ (width_bits w - 1) - 1 \<or> z < - (2 ^ (width_bits w - 1)) then None
      else Some (div_put w (word_of_int z AND width_mask w)
                  (word_of_int (signed_pair w s smod signed_of w (unat d)) AND width_mask w) s))"
  by (cases w)
    (simp_all add: Let_def wrapping_div_eq and_full signed_of_word signed_pair_word del: div_put.simps)

lemma signed_div_result:
  fixes d :: u32 and s :: CpuState
  assumes "unat d < 2 ^ width_bits w" "d \<noteq> 0"
  defines "n \<equiv> signed_pair w s" and "e \<equiv> signed_of w (unat d)"
  shows "case div_result w True d s of
      None \<Rightarrow> \<not> fits w (n sdiv e)
    | Some s' \<Rightarrow> signed_of w (div_quotient w s') = n sdiv e \<and> signed_of w (div_remainder w s') = n smod e"
proof -
  let ?k = "if w = D then 63 else 31 :: nat"
  let ?z = "n sdiv e"
  have "- (2 ^ ?k) \<le> n" "n \<le> 2 ^ ?k"
    using signed_pair_range [of w s] by (cases w; simp add: n_def)+
  then have z: "- (2 ^ ?k) \<le> ?z" "?z \<le> 2 ^ ?k"
    using sdiv_int_range [of n e] by auto
  have h: "width_bits w - 1 < ?k"
    by (cases w) simp_all
  note wrapped = wrapped_quotient [OF z h]
  have e: "e \<noteq> 0" "fits w e"
    using signed_of_nonzero [OF assms(1)] signed_of_range assms(2) by (simp_all add: e_def unat_eq_zero)
  show ?thesis
  proof (cases "fits w ?z")
    case False
    then have "div_result w True d s = None"
      using wrapped(1) by (simp add: div_signed_shape fits_def Let_def flip: n_def e_def)
    then show ?thesis
      using False by simp
  next
    case True
    then have "div_result w True d s =
        Some (div_put w (word_of_int ?z AND width_mask w) (word_of_int (n smod e) AND width_mask w) s)"
      using wrapped by (simp add: div_signed_shape fits_def Let_def flip: n_def e_def)
    then show ?thesis
      using True signed_masked [OF True] signed_masked [OF remainder_fits [OF e(2,1)]]
      by (simp add: div_put_results [OF masked_less masked_less])
  qed
qed

text \<open>C19. \<^verbatim>\<open>div\<close> and \<^verbatim>\<open>idiv\<close> are exact at every width: for a divisor that is not zero the divide error comes
  exactly when the quotient does not fit the destination (including the quotient of the most negative
  dividend by minus one), and otherwise the two destinations hold the quotient and the remainder of
  the register pair, truncated towards zero in the signed case.\<close>

theorem div_exact:
  assumes "unat d < 2 ^ width_bits w" "d \<noteq> 0"
  shows "(case div_result w False d s of
      None \<Rightarrow> 2 ^ width_bits w \<le> pair w s div unat d
    | Some s' \<Rightarrow> div_quotient w s' = pair w s div unat d \<and> div_remainder w s' = pair w s mod unat d) \<and>
   (case div_result w True d s of
      None \<Rightarrow> \<not> fits w (signed_pair w s sdiv signed_of w (unat d))
    | Some s' \<Rightarrow> signed_of w (div_quotient w s') = signed_pair w s sdiv signed_of w (unat d) \<and>
                signed_of w (div_remainder w s') = signed_pair w s smod signed_of w (unat d))"
  using unsigned_div_result [OF assms] signed_div_result [OF assms] by (rule conjI)

theorem div_exact_witness:
  "\<exists>s'. div_result D False 10 (set_gpr 0 1234 cpu_default) = Some s' \<and> div_quotient D s' = 123 \<and> div_remainder D s' = 4"
proof -
  have "div_result D False 10 (set_gpr 0 1234 cpu_default) \<noteq> None"
    by (simp add: cpu_default_def set_gpr_def Let_def)
  then show ?thesis
    using div_exact [of 10 D "set_gpr 0 1234 cpu_default"]
    by (auto simp: cpu_default_def split: option.splits)
qed

end
