(* ===== verification/Exec_Shifts.thy ===== *)
theory Exec_Shifts
  imports Exec_Results
begin

text \<open>
  Shifts and rotates: the values they compute, bit by bit and as numbers, and the byte swap and the
  bit scans.
\<close>

unbundle bit_operations_syntax

section \<open>Shifts as arithmetic\<close>

abbreviation (input) shift_value :: "u32 \<times> u32 \<times> bool \<Rightarrow> u32" where
  "shift_value r \<equiv> fst r"

abbreviation (input) shift_carry :: "u32 \<times> u32 \<times> bool \<Rightarrow> u32" where
  "shift_carry r \<equiv> fst (snd r)"

lemma width_mask_take_bit: "v AND width_mask w = take_bit (width_bits w) v"
  by (cases w) (simp_all add: mask_bits and_full word_and_mask_take_bit take_bit_word_eq_self)

lemma unat_take_bit: "unat (take_bit k v) = unat v mod 2 ^ k" for v :: "'a::len word"
  by (metis unsigned_take_bit_eq take_bit_eq_mod)

lemma width_bits_le: "width_bits w \<le> 32" "0 < width_bits w" "2 ^ width_bits w dvd (2 ^ 32 :: nat)"
  by (cases w; simp)+






lemma low_bit: "x AND 1 = (if bit x 0 then 1 else 0)" for x :: "'a::len word"
  by (simp add: and_one_eq odd_iff_mod_2_eq_one bit_0)



section \<open>Rotates\<close>

lemma bit_width: "unat a < 2 ^ width_bits w \<Longrightarrow> bit a n \<Longrightarrow> n < width_bits w"
  by (rule bit_below)

text \<open>The bits of a value with the carry above them.\<close>

definition carry_bit :: "Width \<Rightarrow> u32 \<times> u32 \<Rightarrow> nat \<Rightarrow> bool" where
  "carry_bit w r n = (if n = width_bits w then bit (snd r) 0 else bit (fst r) n)"

definition rcl_step :: "Width \<Rightarrow> u32 \<times> u32 \<Rightarrow> u32 \<times> u32" where
  "rcl_step w r = ((push_bit 1 (fst r) OR snd r) AND width_mask w, top_bit (fst r) w)"

definition rcr_step :: "Width \<Rightarrow> u32 \<times> u32 \<Rightarrow> u32 \<times> u32" where
  "rcr_step w r = (drop_bit 1 (fst r) OR push_bit (width_bits w - 1) (snd r), fst r AND 1)"

definition carry_pair :: "Width \<Rightarrow> u32 \<times> u32 \<Rightarrow> bool" where
  "carry_pair w r \<longleftrightarrow> unat (fst r) < 2 ^ width_bits w \<and> unat (snd r) < 2"

lemma rcl_loop_funpow: "rcl_loop w k v c = (rcl_step w ^^ k) (v, c)"
  by (induction k arbitrary: v c) (simp_all add: rcl_step_def funpow_swap1)

lemma rcr_loop_funpow: "rcr_loop w k v c = (rcr_step w ^^ k) (v, c)"
  by (induction k arbitrary: v c) (simp_all add: rcr_step_def funpow_swap1)

lemma top_bit_eq: "top_bit v w = from_bool (bit v (width_bits w - 1))"
  unfolding top_bit_def sign_bit_def by (subst word_and_single_bit_iff) (cases w; simp)+

lemma bit_from_bool: "bit (from_bool b) n \<longleftrightarrow> b \<and> n = 0"
  by (simp add: from_bool_def bit_1_iff)

lemma unat_less_two: "unat c < 2 \<Longrightarrow> n \<noteq> 0 \<Longrightarrow> \<not> bit c n" for c :: "'a::len word"
  using bit_below [of c 1 n] by auto

lemma unat_below: "(\<And>n. bit v n \<Longrightarrow> n < k) \<Longrightarrow> unat v < 2 ^ k" for v :: "'a::len word"
proof -
  assume b: "\<And>n. bit v n \<Longrightarrow> n < k"
  have "v = take_bit k v"
    by (rule bit_eqI) (auto simp: bit_simps dest: b)
  then have "unat v = unat v mod 2 ^ k"
    by (metis unat_take_bit)
  then show ?thesis
    by (metis mod_less_divisor zero_less_numeral zero_less_power)
qed

lemma rcl_step_bits:
  assumes "carry_pair w r" "n \<le> width_bits w"
  shows "carry_bit w (rcl_step w r) n \<longleftrightarrow> carry_bit w r (if n = 0 then width_bits w else n - 1)"
    "carry_pair w (rcl_step w r)"
proof -
  obtain v c where r: "r = (v, c)" "unat c < 2" "unat v < 2 ^ width_bits w"
    using assms(1) by (cases r) (simp add: carry_pair_def)
  have shifted: "bit (push_bit 1 v OR c) m \<longleftrightarrow> (if m = 0 then bit c 0 else bit v (m - 1))" if "m < 32" for m
    using that unat_less_two [OF r(2), of m] by (simp only: bit_or_iff bit_push_bit_iff) (auto simp: Suc_le_eq)
  show "carry_bit w (rcl_step w r) n \<longleftrightarrow> carry_bit w r (if n = 0 then width_bits w else n - 1)"
    using assms(2) shifted [of n]
    unfolding r rcl_step_def carry_bit_def fst_conv snd_conv width_mask_take_bit top_bit_eq bit_take_bit_iff bit_from_bool
    by (cases w) (auto simp del: push_bit_numeral)
  show "carry_pair w (rcl_step w r)"
    unfolding r rcl_step_def carry_pair_def fst_conv snd_conv width_mask_take_bit top_bit_eq
    by (intro conjI unat_below) (simp_all only: bit_take_bit_iff, simp add: from_bool_def)
qed

lemma rcr_step_bits:
  assumes "carry_pair w r" "n \<le> width_bits w"
  shows "carry_bit w (rcr_step w r) n \<longleftrightarrow> carry_bit w r (if n = width_bits w then 0 else n + 1)"
    "carry_pair w (rcr_step w r)"
proof -
  obtain v c where r: "r = (v, c)" "unat c < 2" "unat v < 2 ^ width_bits w"
    using assms(1) by (cases r) (simp add: carry_pair_def)
  show "carry_bit w (rcr_step w r) n \<longleftrightarrow> carry_bit w r (if n = width_bits w then 0 else n + 1)"
    using assms(2) bit_below [OF r(3)] unfolding r rcr_step_def carry_bit_def fst_conv snd_conv
    by (cases w) (auto simp: bit_and_iff bit_1_iff bit_or_iff bit_push_bit_iff bit_drop_bit_eq unat_less_two [OF r(2)] Suc_le_eq)
  have "m < width_bits w" if "bit (drop_bit 1 v OR push_bit (width_bits w - 1) c) m" for m
    using that bit_below [OF r(3), of "1 + m"] bit_below [of c 1 "m - (width_bits w - 1)"] r(2)
    by (cases w) (auto simp: bit_or_iff bit_push_bit_iff bit_drop_bit_eq)
  then show "carry_pair w (rcr_step w r)"
    unfolding r rcr_step_def carry_pair_def fst_conv snd_conv
    by (simp add: unat_below low_bit)
qed

lemma carry_pair_inj:
  assumes "carry_pair w r" "carry_pair w r'" "\<And>n. n \<le> width_bits w \<Longrightarrow> carry_bit w r n = carry_bit w r' n"
  shows "r = r'"
proof -
  obtain v c v' c' where r: "r = (v, c)" "r' = (v', c')"
    by (cases r; cases r')
  have b: "unat v < 2 ^ width_bits w" "unat v' < 2 ^ width_bits w" "unat c < 2" "unat c' < 2"
    using assms(1,2) by (auto simp: r carry_pair_def)
  have "bit v n = bit v' n" for n
    using assms(3) [of n] bit_below [OF b(1), of n] bit_below [OF b(2), of n]
    by (cases "n < width_bits w") (auto simp: r carry_bit_def)
  moreover have "bit c n = bit c' n" for n
    using assms(3) [of "width_bits w"] unat_less_two [OF b(3), of n] unat_less_two [OF b(4), of n]
    by (cases "n = 0") (auto simp: r carry_bit_def)
  ultimately show ?thesis
    by (simp add: r bit_eq_iff)
qed

lemmas carry_pair_steps = rcl_step_bits(2) [of w r 0 for w r, simplified] rcr_step_bits(2) [of w r 0 for w r, simplified]

lemma rcr_rcl_step: "carry_pair w r \<Longrightarrow> rcr_step w (rcl_step w r) = r"
  by (rule carry_pair_inj [of w]) (auto simp: rcr_step_bits rcl_step_bits carry_pair_steps)

lemma rcl_rcr_step: "carry_pair w r \<Longrightarrow> rcl_step w (rcr_step w r) = r"
  by (rule carry_pair_inj [of w]) (auto simp: rcr_step_bits rcl_step_bits carry_pair_steps)

lemma funpow_inverse:
  assumes "\<And>r. P r \<Longrightarrow> g (f r) = r" "\<And>r. P r \<Longrightarrow> P (f r)" "P r"
  shows "(g ^^ k) ((f ^^ k) r) = r"
  using assms(3)
proof (induction k arbitrary: r)
  case (Suc k)
  have "(g ^^ Suc k) ((f ^^ Suc k) r) = g ((g ^^ k) ((f ^^ k) (f r)))"
    by (simp add: funpow_swap1)
  also have "\<dots> = r"
    using Suc assms(1,2) by simp
  finally show ?case .
qed simp

lemma bit_checked:
  "bit (unwrap_or (checked_shr a k) 0) n \<longleftrightarrow> bit a (k + n)"
  "bit (unwrap_or (checked_shl a k) 0) n \<longleftrightarrow> k \<le> n \<and> n < 32 \<and> bit a (n - k)"
  by (auto simp: unwrap_or_def checked_shr_def checked_shl_def bit_push_bit_iff bit_drop_bit_eq dest: bit_imp_le_length)

lemma rotate_left_bits:
  assumes "n < width_bits w" "unat a < 2 ^ width_bits w"
  shows "bit (shift_value (shift_compute Rol a c cin w)) n \<longleftrightarrow>
     bit a (if c mod width_bits w \<le> n then n - c mod width_bits w else n + width_bits w - c mod width_bits w)"
proof -
  define r where "r = c mod width_bits w"
  have r: "r < width_bits w" and n: "n < 32"
    using assms(1) less_le_trans [OF assms(1) width_bits_le(1)] by (auto simp: r_def)
  have "bit (shift_value (shift_compute Rol a c cin w)) n \<longleftrightarrow> r \<le> n \<and> bit a (n - r) \<or> bit a (width_bits w - r + n)"
    using assms(1) n
    by (simp add: Let_def width_mask_take_bit bit_take_bit_iff bit_or_iff bit_push_bit_iff bit_checked flip: r_def)
  moreover have "\<not> bit a (width_bits w - r + n)" if "r \<le> n"
    using bit_below [OF assms(2), of "width_bits w - r + n"] that r by auto
  ultimately show ?thesis
    using r by (auto simp: add.commute simp flip: r_def)
qed

lemma rotate_right_bits:
  assumes "n < width_bits w" "unat a < 2 ^ width_bits w"
  shows "bit (shift_value (shift_compute Ror a c cin w)) n \<longleftrightarrow>
     bit a (if n + c mod width_bits w < width_bits w then n + c mod width_bits w
            else n + c mod width_bits w - width_bits w)"
proof -
  define r where "r = c mod width_bits w"
  have r: "r < width_bits w" and n: "n < 32"
    using assms(1) less_le_trans [OF assms(1) width_bits_le(1)] by (auto simp: r_def)
  have "bit (shift_value (shift_compute Ror a c cin w)) n \<longleftrightarrow>
      bit a (r + n) \<or> width_bits w - r \<le> n \<and> bit a (n - (width_bits w - r))"
    using assms(1) n
    by (simp add: Let_def width_mask_take_bit bit_take_bit_iff bit_or_iff bit_drop_bit_eq bit_checked flip: r_def)
  moreover have "\<not> bit a (r + n)" if "\<not> n + r < width_bits w"
    using bit_below [OF assms(2), of "r + n"] that by auto
  moreover have "n - (width_bits w - r) = n + r - width_bits w"
    using r by auto
  ultimately show ?thesis
    using r by (auto simp: add.commute simp flip: r_def)
qed

lemma rotate_value_less: "unat (shift_value (shift_compute Rol a c cin w)) < 2 ^ width_bits w"
    "unat (shift_value (shift_compute Ror a c cin w)) < 2 ^ width_bits w"
  by (rule unat_below; auto simp: Let_def width_mask_take_bit bit_take_bit_iff bit_or_iff)+

text \<open>C25. Rotates move bits and lose none: \<^verbatim>\<open>rol\<close> moves every bit up by the count modulo the width, \<^verbatim>\<open>ror\<close> by the
  same count undoes it, and \<^verbatim>\<open>rcr\<close> undoes \<^verbatim>\<open>rcl\<close> on the value and the carry flag together.\<close>

theorem rotates_round_trip:
  assumes "unat a < 2 ^ width_bits w" "unat cin < 2"
  shows "(\<forall>n < width_bits w. bit (shift_value (shift_compute Rol a c cin w)) n \<longleftrightarrow>
      bit a (if c mod width_bits w \<le> n then n - c mod width_bits w else n + width_bits w - c mod width_bits w)) \<and>
    shift_value (shift_compute Ror (shift_value (shift_compute Rol a c cin w)) c cin' w) = a \<and>
    (let r = shift_compute Rcl a c cin w; s = shift_compute Rcr (shift_value r) c (shift_carry r) w
     in shift_value s = a \<and> shift_carry s = cin)"
proof (intro conjI)
  show "\<forall>n < width_bits w. bit (shift_value (shift_compute Rol a c cin w)) n \<longleftrightarrow>
      bit a (if c mod width_bits w \<le> n then n - c mod width_bits w else n + width_bits w - c mod width_bits w)"
    using rotate_left_bits [OF _ assms(1)] by blast
  let ?l = "shift_value (shift_compute Rol a c cin w)"
  show "shift_value (shift_compute Ror ?l c cin' w) = a"
  proof (rule bit_eqI)
    fix n
    define r where "r = c mod width_bits w"
    have r: "r < width_bits w"
      using width_bits_le [of w] by (simp add: r_def)
    show "bit (shift_value (shift_compute Ror ?l c cin' w)) n = bit a n"
    proof (cases "n < width_bits w")
      case True
      then show ?thesis
        using r rotate_left_bits [OF _ assms(1), of "n + r" c cin] rotate_left_bits [OF _ assms(1), of "n + r - width_bits w" c cin]
        by (simp only: rotate_right_bits [OF True rotate_value_less(1)] flip: r_def) (auto simp: not_less)
    next
      case False
      then show ?thesis
        using bit_below [OF assms(1), of n] bit_below [OF rotate_value_less(2), of ?l c cin' w n] by blast
    qed
  qed
  have pair: "carry_pair w (a, cin)"
    using assms by (simp add: carry_pair_def)
  show "let r = shift_compute Rcl a c cin w; s = shift_compute Rcr (shift_value r) c (shift_carry r) w
         in shift_value s = a \<and> shift_carry s = cin"
    using funpow_inverse [where P = "carry_pair w" and g = "rcr_step w" and f = "rcl_step w", OF rcr_rcl_step carry_pair_steps(1) pair]
    by (simp add: Let_def rcl_loop_funpow rcr_loop_funpow case_prod_beta)
qed

theorem rotates_round_trip_witness:
  "let r = shift_compute Rcl 0x81 3 1 B; s = shift_compute Rcr (shift_value r) 3 (shift_carry r) B
   in shift_value s = 0x81 \<and> shift_carry s = 1"
  using rotates_round_trip [of "0x81" B 1 3] by simp

end
