(* ===== verification/Register_Subset.thy ===== *)
theory Register_Subset
  imports Exec_Results
begin

text \<open>
  The register-only subset, \<^verbatim>\<open>exbawks-cpu/src/subset.rs\<close>, and its interpreter, \<^verbatim>\<open>exbawks-cpu/src/interpret.rs\<close>,
  which is the flag oracle of the direct emitter.  The interpreter is shown to agree with the full one.
\<close>

unbundle bit_operations_syntax

section \<open>Classification\<close>

datatype AluOp = AluAdd | AluSub | AluAnd | AluOr | AluXor

datatype RegisterOperand = SrcGpr Gpr | SrcImmediate u32

datatype RegisterOp =
    NopOp
  | MovOp Gpr RegisterOperand
  | AluRegOp AluOp Gpr RegisterOperand

definition gpr_from_register :: "Register \<Rightarrow> Gpr option" where
  "gpr_from_register r =
     (case r of EAX \<Rightarrow> Some Eax | ECX \<Rightarrow> Some Ecx | EDX \<Rightarrow> Some Edx | EBX \<Rightarrow> Some Ebx
      | ESP \<Rightarrow> Some Esp | EBP \<Rightarrow> Some Ebp | ESI \<Rightarrow> Some Esi | EDI \<Rightarrow> Some Edi | _ \<Rightarrow> None)"

definition gpr32 :: "Instruction \<Rightarrow> nat \<Rightarrow> Gpr option" where
  "gpr32 i n = (if ins_op_kind i n \<noteq> OpRegister then None else gpr_from_register (ins_op_register i n))"

definition source :: "Instruction \<Rightarrow> RegisterOperand option" where
  "source i =
     (if ins_op_count i \<noteq> 2 then None
      else case ins_op_kind i 1 of
             OpRegister \<Rightarrow> map_option SrcGpr (gpr_from_register (ins_op_register i 1))
           | OpImmediate32 \<Rightarrow> Some (SrcImmediate (ins_immediate32 i))
           | OpImmediate8to32 \<Rightarrow> Some (SrcImmediate (ins_immediate8to32 i))
           | _ \<Rightarrow> None)"

definition alu_op :: "AluOp \<Rightarrow> Instruction \<Rightarrow> RegisterOp option" where
  "alu_op op i = Option.bind (gpr32 i 0) (\<lambda>dst. Option.bind (source i) (\<lambda>src. Some (AluRegOp op dst src)))"

definition classify_register_op :: "Instruction \<Rightarrow> RegisterOp option" where
  "classify_register_op i =
     (if ins_mnemonic i = ''Nop'' \<and> ins_op_count i = 0 then Some NopOp
      else if ins_mnemonic i = ''Mov''
      then Option.bind (gpr32 i 0) (\<lambda>dst. Option.bind (source i) (\<lambda>src. Some (MovOp dst src)))
      else if ins_mnemonic i = ''Add'' then alu_op AluAdd i
      else if ins_mnemonic i = ''Sub'' then alu_op AluSub i
      else if ins_mnemonic i = ''And'' then alu_op AluAnd i
      else if ins_mnemonic i = ''Or'' then alu_op AluOr i
      else if ins_mnemonic i = ''Xor'' then alu_op AluXor i
      else None)"

definition indirect_call_slot :: "Instruction \<Rightarrow> GuestVa option" where
  "indirect_call_slot i =
     (if ins_code i \<noteq> Call_rm32 \<or> ins_op_kind i 0 \<noteq> OpMemory then None
      else if ins_memory_base i \<noteq> RegNone \<or> ins_memory_index i \<noteq> RegNone then None
      else u32_try_from (unat (ins_memory_displacement64 i)))"

section \<open>Interpretation\<close>

datatype InterpretError = InterpretUnsupported GuestVa

definition read_source :: "CpuState \<Rightarrow> RegisterOperand \<Rightarrow> u32" where
  "read_source s src = (case src of SrcGpr r \<Rightarrow> cpu_get s r | SrcImmediate v \<Rightarrow> v)"

definition result_flags :: "u32 \<Rightarrow> u32" where
  "result_flags result =
     flag_if (result = 0) ZERO OR
     flag_if (result AND 0x80000000 \<noteq> 0) SIGN OR
     flag_if (even (count_ones (ucast result :: u8))) PARITY"

definition add_flags :: "u32 \<Rightarrow> u32 \<Rightarrow> u32 \<Rightarrow> u32" where
  "add_flags a b result =
     result_flags result OR
     flag_if (result < a) CARRY OR
     flag_if ((a XOR b XOR result) AND 0x10 \<noteq> 0) AUXILIARY OR
     flag_if ((a XOR result) AND (b XOR result) AND 0x80000000 \<noteq> 0) OVERFLOW"

definition sub_flags :: "u32 \<Rightarrow> u32 \<Rightarrow> u32 \<Rightarrow> u32" where
  "sub_flags a b result =
     result_flags result OR
     flag_if (a < b) CARRY OR
     flag_if ((a XOR b XOR result) AND 0x10 \<noteq> 0) AUXILIARY OR
     flag_if ((a XOR b) AND (a XOR result) AND 0x80000000 \<noteq> 0) OVERFLOW"

definition logic :: "u32 \<Rightarrow> u32 \<times> u32 \<times> u32" where
  "logic result = (result, LOGIC_DEFINED, result_flags result)"

fun alu_apply :: "AluOp \<Rightarrow> u32 \<Rightarrow> u32 \<Rightarrow> u32 \<times> u32 \<times> u32" where
  "alu_apply AluAdd a b = (a + b, ARITHMETIC, add_flags a b (a + b))"
| "alu_apply AluSub a b = (a - b, ARITHMETIC, sub_flags a b (a - b))"
| "alu_apply AluAnd a b = logic (a AND b)"
| "alu_apply AluOr a b = logic (a OR b)"
| "alu_apply AluXor a b = logic (a XOR b)"

fun apply_op :: "RegisterOp \<Rightarrow> CpuState \<Rightarrow> CpuState" where
  "apply_op NopOp s = s"
| "apply_op (MovOp dst src) s = cpu_set dst (read_source s src) s"
| "apply_op (AluRegOp op dst src) s =
     (let (result, defined, vals) = alu_apply op (cpu_get s dst) (read_source s src);
          s' = cpu_set dst result s
      in s'\<lparr>eflags := (eflags s' AND NOT defined) OR (vals AND defined)\<rparr>)"

definition ip_address :: "Instruction \<Rightarrow> GuestVa" where
  "ip_address i = (case u32_try_from (unat (ins_ip i)) of Some a \<Rightarrow> a | None \<Rightarrow> 0xFFFFFFFF)"

definition step_register_only :: "Instruction \<Rightarrow> CpuState \<Rightarrow> InterpretError + CpuState" where
  "step_register_only i s =
     bind_r (ok_or (classify_register_op i) (InterpretUnsupported (ip_address i))) (\<lambda>op.
     Inr (advance_eip i (apply_op op s)))"

section \<open>The flag oracle and the interpreter agree\<close>

lemma sign_bit_D: "sign_bit D = 0x80000000"
  by (simp add: sign_bit_def)

lemma result_flags_eq: "result_bits r D = result_flags r"
  by (simp add: result_bits_def result_flags_def and_full sign_bit_D)

lemma unat_wide_sum: "unat ((ucast a :: u64) + ucast b) = unat a + unat b" for a b :: u32
  using unat_lt_2p32 [of a] unat_lt_2p32 [of b]
  by (subst unat_plus_no_overflow) (simp_all add: unat_wide del: unat_lt_2p32)

lemma sum_D:
  fixes a b :: u32
  shows "ucast ((ucast a :: u64) + ucast b) = a + b"
    "(ucast a :: u64) + ucast b > 0xFFFFFFFF \<longleftrightarrow> a + b < a"
proof -
  show "ucast ((ucast a :: u64) + ucast b) = a + b"
    by (rule unat_inj_iff [THEN iffD1], simp only: unat_product_parts(3) unat_wide_sum) (simp add: unat_word_ariths)
  have "unat (a + b) = (if unat a + unat b < 2 ^ 32 then unat a + unat b else unat a + unat b - 2 ^ 32)"
    using unat_lt_2p32 [of a] unat_lt_2p32 [of b] by (simp add: unat_plus_if_size word_size)
  then show "(ucast a :: u64) + ucast b > 0xFFFFFFFF \<longleftrightarrow> a + b < a"
    unfolding word_less_nat_alt unat_wide_sum using unat_lt_2p32 [of b] by (auto simp del: unat_lt_2p32 split: if_splits)
qed

lemma add_bits_D: "add_bits a b 0 D = (a + b, add_flags a b (a + b))"
  by (simp add: add_bits_def add_flags_def Let_def and_full sign_bit_D result_flags_eq sum_D [simplified])

lemma sub_bits_D: "sub_bits a b 0 D = (a - b, sub_flags a b (a - b))"
  by (simp add: sub_bits_def sub_flags_def Let_def and_full sign_bit_D result_flags_eq word_less_nat_alt unat_wide)

fun alu_kind :: "AluOp \<Rightarrow> AluKind" where
  "alu_kind AluAdd = KAdd" | "alu_kind AluSub = KSub" | "alu_kind AluAnd = KAnd" | "alu_kind AluOr = KOr"
| "alu_kind AluXor = KXor"

lemma alu_compute_apply:
  "alu_compute (alu_kind op) a b c D = (case alu_apply op a b of (r, d, v) \<Rightarrow> (r, d, v, True))"
  by (cases op) (simp_all add: add_bits_D sub_bits_D logic_def logic_bits_def result_flags_eq)

text \<open>What the decoder says of a 32-bit register: its size is four bytes.\<close>

definition sizes_decoded :: "Instruction \<Rightarrow> bool" where
  "sizes_decoded i \<longleftrightarrow> (\<forall>n. gpr_from_register (ins_op_register i n) \<noteq> None \<longrightarrow> ins_op_register_size i n = 4)"

lemma slot_of_gpr: "gpr_from_register r = Some g \<Longrightarrow> register_slot r = Some (Wide32 (gpr_code g))"
  by (cases r) (auto simp: gpr_from_register_def register_slot_def)

lemma read_gpr: "gpr_from_register r = Some g \<Longrightarrow> read_operand gm (RegOp r) w m = (Inr (cpu_get (cpu m) g), m)"
  by (simp add: read_operand_def cpu_r_def read_register_def slot_of_gpr cpu_get_def monad_simps)

lemma write_gpr:
  "gpr_from_register r = Some g \<Longrightarrow>
   write_operand gm (RegOp r) D v m = (Inr (), m\<lparr>cpu := cpu_set g v (cpu m)\<rparr>)"
  by (simp add: write_operand_def write_register_def slot_of_gpr cpu_g_def cpu_u_def and_full cpu_set_def monad_simps)

lemma gpr32_operand:
  assumes "gpr32 i n = Some g" "sizes_decoded i"
  shows "get_width i n a m = (Inr D, m)" "get_operand i n a m = (Inr (RegOp (ins_op_register i n)), m)"
    "gpr_from_register (ins_op_register i n) = Some g"
  using assms
  by (auto simp: gpr32_def sizes_decoded_def get_width_def operand_width_def from_bytes_def get_operand_def cpu_r_def
      operand_def monad_simps split: if_splits)

lemma source_operand:
  assumes "source i = Some src"
  shows "\<exists>x. get_operand i 1 a m = (Inr x, m) \<and> (\<forall>m. read_operand gm x D m = (Inr (read_source (cpu m) src), m))"
  using assms
  by (auto simp: source_def get_operand_def operand_def cpu_r_def read_source_def read_gpr monad_simps and_full
      split: if_splits OpKind.splits) (simp add: read_operand_def and_full ret_def)+

lemma register_op_cases:
  assumes "classify_register_op i = Some op"
  obtains (nop) "ins_mnemonic i = ''Nop''" "op = NopOp"
    | (mov) dst src where "ins_mnemonic i = ''Mov''" "gpr32 i 0 = Some dst" "source i = Some src" "op = MovOp dst src"
    | (alu) k dst src where "gpr32 i 0 = Some dst" "source i = Some src" "op = AluRegOp k dst src"
        "(ins_mnemonic i, k) \<in> {(''Add'', AluAdd), (''Sub'', AluSub), (''And'', AluAnd), (''Or'', AluOr), (''Xor'', AluXor)}"
  using assms
  by (auto simp: classify_register_op_def alu_op_def bind_eq_Some_conv split: if_splits)

lemma operand_table_lookup:
  "map_of (operand_table gm i a) ''Mov'' = Some (mov gm i a)"
  "(n, k) \<in> {(''Add'', AluAdd), (''Sub'', AluSub), (''And'', AluAnd), (''Or'', AluOr), (''Xor'', AluXor)} \<Longrightarrow>
   map_of (operand_table gm i a) n = Some (binary_alu gm i a (alu_kind k))"
  "map_of (operand_table gm i a) ''Nop'' = None" "map_of (string_table gm i a) ''Nop'' = None"
  "map_of fixed_table ''Nop'' = Some id"
proof -
  show "map_of (operand_table gm i a) n = Some (binary_alu gm i a (alu_kind k))"
    if "(n, k) \<in> {(''Add'', AluAdd), (''Sub'', AluSub), (''And'', AluAnd), (''Or'', AluOr), (''Xor'', AluXor)}"
    using that unfolding insert_iff prod.inject empty_iff
    by (elim disjE conjE FalseE) (simp_all add: operand_table_def)
qed (simp_all add: operand_table_def string_table_def fixed_table_def)

lemma straightline_register_op:
  assumes op: "classify_register_op i = Some op" and sizes: "sizes_decoded i"
  shows "execute_straightline gm i a m = (Inr (), m\<lparr>cpu := apply_op op (cpu m)\<rparr>)"
  using op
proof (cases rule: register_op_cases)
  case nop
  then show ?thesis
    by (simp add: execute_straightline_def operand_table_lookup cpu_u_def monad_simps)
next
  case (mov dst src)
  note d = gpr32_operand [OF mov(2) sizes]
  obtain x where x: "get_operand i 1 a m = (Inr x, m)" "\<And>m. read_operand gm x D m = (Inr (read_source (cpu m) src), m)"
    using source_operand [OF mov(3)] by blast
  have "Exec_Families.mov gm i a m = (Inr (), m\<lparr>cpu := apply_op op (cpu m)\<rparr>)"
    unfolding mov_def by (simp add: d x write_gpr mov(4) del: One_nat_def)
  then show ?thesis
    by (simp add: execute_straightline_def operand_table_lookup mov(1))
next
  case (alu k dst src)
  note d = gpr32_operand [OF alu(1) sizes]
  obtain x where x: "get_operand i 1 a m = (Inr x, m)" "\<And>m. read_operand gm x D m = (Inr (read_source (cpu m) src), m)"
    using source_operand [OF alu(2)] by blast
  have "binary_alu gm i a (alu_kind k) m = (Inr (), m\<lparr>cpu := apply_op op (cpu m)\<rparr>)"
    unfolding binary_alu_def
    by (simp add: d x read_gpr write_gpr alu(3) get_carry_def cpu_g_def cpu_u_def alu_compute_apply case_prod_beta Let_def
        merge_flags_def monad_simps del: One_nat_def)
  then show ?thesis
    by (simp add: execute_straightline_def operand_table_lookup(2) [OF alu(4)])
qed

text \<open>C30. The register-only interpreter, which is the oracle of the translator, agrees with the full interpreter:
  on every instruction of the subset, over every memory and port bus, a step of the full interpreter
  succeeds, leaves memory alone, and makes of the processor exactly what \<^verbatim>\<open>step_register_only\<close> makes of
  it, apart from counting the time-stamp counter.\<close>

theorem register_step_agrees:
  assumes "classify_register_op i = Some op" "sizes_decoded i" "ins_condition_code i = CcNone"
    and "x87_execute i a = None" "sse_execute i a = None"
  shows "\<exists>s'. step_register_only i (cpu m) = Inr s' \<and>
    step_decoded gm ports x87_execute sse_execute i a m = (Inr (), m\<lparr>cpu := tick s'\<rparr>)"
proof -
  have plain: "ins_mnemonic i \<notin> {''Out'', ''In'', ''Jmp'', ''Call'', ''Ret'', ''Loop'', ''Loope'', ''Loopne'', ''Jecxz''}"
    using assms(1) by (cases rule: register_op_cases) auto
  then have "execute gm x87_execute sse_execute i a m = (Inr Next, m\<lparr>cpu := apply_op op (cpu m)\<rparr>)"
    using assms(3-5) straightline_register_op [OF assms(1,2), of gm a m]
    by (simp add: execute_def branch_def branch_jcc_def Let_def)
  then show ?thesis
    using plain assms(1)
    by (simp add: step_decoded_def step_register_only_def cpu_u_def monad_simps)
qed

definition add_eax_5 :: Instruction where
  "add_eax_5 = plain_instruction\<lparr>ins_mnemonic := ''Add'', ins_len := 3, ins_op_count := 2,
     ins_op_kind := (\<lambda>n. if n = 0 then OpRegister else OpImmediate8to32),
     ins_op_register := (\<lambda>_. EAX), ins_op_register_size := (\<lambda>_. 4), ins_immediate8to32 := 5\<rparr>"

theorem register_step_agrees_witness:
  "\<forall>gm :: unit guest_memory. \<exists>s'. step_register_only add_eax_5 cpu_default = Inr s' \<and>
     step_decoded gm no_ports (\<lambda>_ _. None) (\<lambda>_ _. None) add_eax_5 0 \<lparr>cpu = cpu_default, mem = ()\<rparr> =
       (Inr (), \<lparr>cpu = tick s', mem = ()\<rparr>)"
proof
  fix gm :: "unit guest_memory"
  have "classify_register_op add_eax_5 = Some (AluRegOp AluAdd Eax (SrcImmediate 5))" "sizes_decoded add_eax_5"
    "ins_condition_code add_eax_5 = CcNone"
    by (simp_all add: add_eax_5_def plain_instruction_def classify_register_op_def alu_op_def gpr32_def source_def
      gpr_from_register_def sizes_decoded_def)
  from register_step_agrees [OF this, of "\<lambda>_ _. None" 0 "\<lambda>_ _. None" "\<lparr>cpu = cpu_default, mem = ()\<rparr>" gm no_ports]
  show "\<exists>s'. step_register_only add_eax_5 cpu_default = Inr s' \<and>
     step_decoded gm no_ports (\<lambda>_ _. None) (\<lambda>_ _. None) add_eax_5 0 \<lparr>cpu = cpu_default, mem = ()\<rparr> =
       (Inr (), \<lparr>cpu = tick s', mem = ()\<rparr>)"
    by simp
qed

end
