(* ===== verification/Block_Decoder.thy ===== *)
theory Block_Decoder
  imports Register_Subset
begin

text \<open>
  Decoding one guest basic block, \<^verbatim>\<open>exbawks-cpu/src/decode.rs\<close>.  The disassembler library is a parameter:
  a function from the bytes at the current position and the current address to the instruction it
  decodes there.  What the decoder relies on of it is \<open>stream_ok\<close>.
\<close>

type_synonym stream_decoder = "u8 list \<Rightarrow> u64 \<Rightarrow> Instruction"

record DecodeConfig =
  max_instructions :: nat
  max_bytes :: nat

definition decode_config_default :: DecodeConfig where
  "decode_config_default = \<lparr>max_instructions = 256, max_bytes = 4096\<rparr>"

datatype BlockStop =
    ControlFlow FlowControl
  | EndOfInput
  | InstructionLimit
  | ByteLimit

record DecodedBlock =
  block_start :: GuestVa
  instructions :: "Instruction list"
  byte_len :: nat
  stop :: BlockStop

datatype BlockDecodeError =
    InvalidConfiguration string
  | BlockInvalidInstruction GuestVa

definition block_end :: "DecodedBlock \<Rightarrow> GuestVa option" where
  "block_end b = Option.bind (u32_try_from (byte_len b)) (va_checked_add (block_start b))"

text \<open>
  The loop of \<^verbatim>\<open>decode\<close>, counting down the instructions the limit still allows, at the position \<open>pos\<close> of
  the window.  It gives the instructions decoded from there on, the final position and the stop.
\<close>

fun decode_loop ::
    "stream_decoder \<Rightarrow> u8 list \<Rightarrow> nat \<Rightarrow> nat \<Rightarrow> u64 \<Rightarrow> BlockDecodeError + (Instruction list \<times> nat \<times> BlockStop)" where
  "decode_loop decoder window 0 pos ip =
     (if pos < length window then Inr ([], pos, InstructionLimit) else Inr ([], pos, EndOfInput))"
| "decode_loop decoder window (Suc left) pos ip =
     (if pos < length window then
        let i = decoder (drop pos window) ip in
        if ins_is_invalid i then Inl (BlockInvalidInstruction (ip_address i))
        else if ins_flow_control i \<noteq> FlowNext then
          Inr ([i], pos + ins_len i, ControlFlow (ins_flow_control i))
        else bind_r (decode_loop decoder window left (pos + ins_len i) (ip + word_of_nat (ins_len i)))
               (\<lambda>(is, pos', stop'). Inr (i # is, pos', stop'))
      else Inr ([], pos, EndOfInput))"

definition decode_block ::
    "stream_decoder \<Rightarrow> DecodeConfig \<Rightarrow> GuestVa \<Rightarrow> u8 list \<Rightarrow> BlockDecodeError + DecodedBlock" where
  "decode_block decoder config start bytes =
     (if max_instructions config = 0 then Inl (InvalidConfiguration ''max_instructions must not be zero'')
      else if max_bytes config = 0 then Inl (InvalidConfiguration ''max_bytes must not be zero'')
      else
        let window_len = min (length bytes) (max_bytes config) in
        bind_r (decode_loop decoder (take window_len bytes) (max_instructions config) 0 (ucast start))
          (\<lambda>(is, pos, stop').
            Inr \<lparr>block_start = start, instructions = is, byte_len = pos,
                 stop = if stop' = EndOfInput \<and> window_len < length bytes then ByteLimit else stop'\<rparr>))"

section \<open>What a decoded block is\<close>

text \<open>The library consumes at least one byte and none outside its input, and records the address.\<close>

definition stream_ok :: "stream_decoder \<Rightarrow> bool" where
  "stream_ok decoder \<longleftrightarrow> (\<forall>bytes ip. bytes \<noteq> [] \<longrightarrow>
     0 < ins_len (decoder bytes ip) \<and> ins_len (decoder bytes ip) \<le> length bytes \<and> ins_ip (decoder bytes ip) = ip)"

text \<open>A list of instructions is the linear decoding of a window from a position up to another one.\<close>

fun linear :: "stream_decoder \<Rightarrow> u8 list \<Rightarrow> nat \<Rightarrow> u64 \<Rightarrow> Instruction list \<Rightarrow> nat \<Rightarrow> bool" where
  "linear decoder window pos ip [] upto' \<longleftrightarrow> upto' = pos"
| "linear decoder window pos ip (i # is) upto' \<longleftrightarrow>
     pos < length window \<and> i = decoder (drop pos window) ip \<and> \<not> ins_is_invalid i \<and>
     linear decoder window (pos + ins_len i) (ip + word_of_nat (ins_len i)) is upto'"

definition block_flow :: "Instruction list \<Rightarrow> BlockStop \<Rightarrow> bool" where
  "block_flow is st \<longleftrightarrow>
     (\<forall>i \<in> set (butlast is). ins_flow_control i = FlowNext) \<and>
     (is \<noteq> [] \<longrightarrow> (case st of ControlFlow f \<Rightarrow> f \<noteq> FlowNext \<and> ins_flow_control (last is) = f
                              | _ \<Rightarrow> ins_flow_control (last is) = FlowNext))"

lemma decode_loop_result:
  assumes "decode_loop decoder window left pos ip = Inr (is, p, st)" "stream_ok decoder" "pos \<le> length window"
  shows "linear decoder window pos ip is p \<and> length is \<le> left \<and> p \<le> length window \<and> block_flow is st \<and>
    p = pos + sum_list (map ins_len is) \<and> st \<noteq> ByteLimit \<and>
    (st = InstructionLimit \<longleftrightarrow> length is = left \<and> p < length window \<and> (\<forall>f. st \<noteq> ControlFlow f)) \<and>
    (st = EndOfInput \<longrightarrow> p = length window) \<and> (\<forall>f. st = ControlFlow f \<longrightarrow> is \<noteq> [])"
  using assms
proof (induction decoder window left pos ip arbitrary: "is" p st rule: decode_loop.induct)
  case (2 decoder window left pos ip)
  show ?case
  proof (cases "pos < length window")
    case True
    let ?i = "decoder (drop pos window) ip"
    have i: "0 < ins_len ?i" "pos + ins_len ?i \<le> length window"
      using "2.prems"(2) True by (auto simp: stream_ok_def dest!: spec [of _ "drop pos window"] spec [of _ ip])
    have v: "\<not> ins_is_invalid ?i"
      using "2.prems"(1) True by (auto simp: Let_def)
    show ?thesis
    proof (cases "ins_flow_control ?i = FlowNext")
      case True
      then obtain js where "decode_loop decoder window left (pos + ins_len ?i) (ip + word_of_nat (ins_len ?i)) = Inr (js, p, st)"
        "is = ?i # js"
        using "2.prems"(1) \<open>pos < length window\<close> v by (auto simp: Let_def bind_r_Inr_iff)
      moreover have "block_flow (?i # js) st" if "block_flow js st" "js = [] \<longrightarrow> (\<forall>f. st \<noteq> ControlFlow f)"
        using that True by (auto simp: block_flow_def split: BlockStop.splits)
      ultimately show ?thesis
        using "2.IH" [OF \<open>pos < length window\<close> refl v] True i v "2.prems"(2) \<open>pos < length window\<close> by auto
    next
      case False
      then show ?thesis
        using "2.prems"(1) \<open>pos < length window\<close> i v by (auto simp: Let_def block_flow_def)
    qed
  next
    case False
    then show ?thesis
      using "2.prems" by (auto simp: block_flow_def)
  qed
qed (auto simp: block_flow_def split: if_splits)

lemma decode_block_linear:
  assumes "decode_block decoder config start bytes = Inr b" "stream_ok decoder"
  shows "linear decoder (take (max_bytes config) bytes) 0 (ucast start) (instructions b) (byte_len b) \<and>
    block_start b = start \<and>
    byte_len b = sum_list (map ins_len (instructions b)) \<and>
    length (instructions b) \<le> max_instructions config \<and> byte_len b \<le> min (length bytes) (max_bytes config) \<and>
    block_flow (instructions b) (stop b) \<and>
    (stop b = InstructionLimit \<longrightarrow> length (instructions b) = max_instructions config \<and> byte_len b < length bytes) \<and>
    (stop b = EndOfInput \<longrightarrow> byte_len b = length bytes) \<and>
    (stop b = ByteLimit \<longrightarrow> byte_len b = max_bytes config \<and> byte_len b < length bytes)"
proof -
  let ?w = "take (max_bytes config) bytes"
  obtain st where loop: "decode_loop decoder ?w (max_instructions config) 0 (ucast start) = Inr (instructions b, byte_len b, st)"
    and b: "block_start b = start"
      "stop b = (if st = EndOfInput \<and> min (length bytes) (max_bytes config) < length bytes then ByteLimit else st)"
    using assms(1)
    by (auto simp: decode_block_def Let_def bind_r_Inr_iff min_def split: if_splits)
  from decode_loop_result [OF loop assms(2)] show ?thesis
    using b by (auto simp: min_def block_flow_def split: if_splits BlockStop.splits)
qed

text \<open>C33. A decoded block is the linear decoding of its bytes within the configured limits: every instruction is
  what the library decodes at the sum of the lengths before it, valid, inside the window; at most
  \<open>max_instructions\<close> of them, taking at most \<open>max_bytes\<close> bytes; only the last may leave straight-line
  flow; and the stop says why decoding ended: an instruction limit means that many
  instructions with bytes left over, the end of input that all bytes are used, and a byte limit that the window
  is used up and bytes were cut off.\<close>

theorem block_is_linear:
  assumes "decode_block decoder config start bytes = Inr b" "stream_ok decoder"
  shows "linear decoder (take (max_bytes config) bytes) 0 (ucast start) (instructions b) (byte_len b) \<and>
    block_start b = start \<and>
    byte_len b = sum_list (map ins_len (instructions b)) \<and>
    length (instructions b) \<le> max_instructions config \<and> byte_len b \<le> min (length bytes) (max_bytes config) \<and>
    block_flow (instructions b) (stop b) \<and>
    (stop b = InstructionLimit \<longrightarrow> length (instructions b) = max_instructions config \<and> byte_len b < length bytes) \<and>
    (stop b = EndOfInput \<longrightarrow> byte_len b = length bytes) \<and>
    (stop b = ByteLimit \<longrightarrow> byte_len b = max_bytes config \<and> byte_len b < length bytes)"
  by (rule decode_block_linear [OF assms])

text \<open>A decoder that knows the return and takes every other byte for a one-byte instruction.\<close>

definition sample_decoder :: stream_decoder where
  "sample_decoder bytes ip = plain_instruction\<lparr>ins_ip := ip, ins_len := 1,
     ins_flow_control := (if hd bytes = 0xC3 then FlowOther 3 else FlowNext)\<rparr>"

lemma sample_decoder_ok: "stream_ok sample_decoder"
  by (auto simp: stream_ok_def sample_decoder_def Suc_le_eq)

lemma sample_decoder_fields:
  "ins_len (sample_decoder bytes ip) = 1" "\<not> ins_is_invalid (sample_decoder bytes ip)"
  "ins_flow_control (sample_decoder bytes ip) = (if hd bytes = 0xC3 then FlowOther 3 else FlowNext)"
  by (simp_all add: sample_decoder_def plain_instruction_def)

theorem block_is_linear_witness:
  "\<exists>b. decode_block sample_decoder \<lparr>max_instructions = Suc (Suc (Suc (Suc 0))), max_bytes = 4\<rparr> 0x1000 [0x90, 0x40, 0xC3, 0x90] = Inr b \<and>
     linear sample_decoder (take 4 [0x90, 0x40, 0xC3, 0x90]) 0 (ucast (0x1000 :: u32)) (instructions b) (byte_len b) \<and>
     byte_len b = 3 \<and> stop b = ControlFlow (FlowOther 3)"
proof -
  define b where "b = \<lparr>block_start = 0x1000,
    instructions = [sample_decoder [0x90, 0x40, 0xC3, 0x90] 0x1000, sample_decoder [0x40, 0xC3, 0x90] 0x1001,
      sample_decoder [0xC3, 0x90] 0x1002],
    byte_len = 3, stop = ControlFlow (FlowOther 3)\<rparr>"
  have "decode_block sample_decoder \<lparr>max_instructions = Suc (Suc (Suc (Suc 0))), max_bytes = 4\<rparr> 0x1000 [0x90, 0x40, 0xC3, 0x90] = Inr b"
    by (simp add: decode_block_def b_def sample_decoder_fields Let_def)
  from this block_is_linear [OF this sample_decoder_ok] show ?thesis
    by (auto simp: b_def)
qed

end
