(* ===== verification/Source_Map.thy ===== *)
theory Source_Map
  imports Guest_Types
begin

text \<open>
  Source and fault metadata of translated blocks, \<^verbatim>\<open>exbawks-debug/src/source_map.rs\<close>.  The metadata is
  sorted and validated once; lookups search the sorted slices.  The unstable sort is modelled by a
  stable one: where the two could differ, two ranges start at the same offset, and every such input
  is rejected.
\<close>

record SourceRange =
  host_start :: u32
  host_end :: u32
  range_guest_ip :: GuestVa
  guest_len :: u32

record FaultSite =
  host_offset :: u32
  host_len :: u32
  fault_guest_ip :: GuestVa
  fault_access :: AccessKind
  fault_width :: u8
  fault_register :: u8
  resume_offset :: u32
  slow_stub_offset :: u32

datatype SourceMapError =
    EmptyRange GuestVa
  | OverlappingRanges GuestVa
  | DuplicateFaultSite u32

record BlockSourceMap =
  map_ranges :: "SourceRange list"
  map_faults :: "FaultSite list"

text \<open>The loop over the sorted ranges, with the range in front of the current one.\<close>

fun check_ranges :: "SourceRange option \<Rightarrow> SourceRange list \<Rightarrow> SourceMapError + unit" where
  "check_ranges prev [] = Inr ()"
| "check_ranges prev (r # rs) =
     (if host_start r \<ge> host_end r then Inl (EmptyRange (range_guest_ip r))
      else case prev of
             Some p \<Rightarrow> if host_end p > host_start r then Inl (OverlappingRanges (range_guest_ip r))
                      else check_ranges (Some r) rs
           | None \<Rightarrow> check_ranges (Some r) rs)"

fun check_faults :: "FaultSite list \<Rightarrow> SourceMapError + unit" where
  "check_faults (f # g # fs) =
     (if host_offset f = host_offset g then Inl (DuplicateFaultSite (host_offset g)) else check_faults (g # fs))"
| "check_faults _ = Inr ()"

definition source_map_new :: "SourceRange list \<Rightarrow> FaultSite list \<Rightarrow> SourceMapError + BlockSourceMap" where
  "source_map_new ranges faults =
     (let rs = sort_key host_start ranges; fs = sort_key host_offset faults in
      bind_r (check_ranges None rs) (\<lambda>_.
      bind_r (check_faults fs) (\<lambda>_.
      Inr \<lparr>map_ranges = rs, map_faults = fs\<rparr>)))"

definition partition_point :: "('a \<Rightarrow> bool) \<Rightarrow> 'a list \<Rightarrow> nat" where
  "partition_point p xs = length (takeWhile p xs)"

definition source_for_host_offset :: "BlockSourceMap \<Rightarrow> u32 \<Rightarrow> SourceRange option" where
  "source_for_host_offset m offset =
     (let candidate = partition_point (\<lambda>r. host_start r \<le> offset) (map_ranges m) in
      if candidate = 0 then None
      else let r = map_ranges m ! (candidate - 1) in
           if offset < host_end r then Some r else None)"

text \<open>\<^verbatim>\<open>binary_search_by_key\<close> finds an element with the key when there is one.\<close>

definition fault_for_host_offset :: "BlockSourceMap \<Rightarrow> u32 \<Rightarrow> FaultSite option" where
  "fault_for_host_offset m offset = find (\<lambda>f. host_offset f = offset) (map_faults m)"

section \<open>Validated metadata\<close>

lemma check_ranges_sorted:
  assumes "check_ranges prev rs = Inr ()" "sorted (map host_start rs)"
  shows "(\<forall>r \<in> set rs. host_start r < host_end r) \<and>
    sorted_wrt (\<lambda>p r. host_end p \<le> host_start r) rs \<and>
    (case prev of None \<Rightarrow> True | Some p \<Rightarrow> host_start p < host_end p \<longrightarrow> (\<forall>r \<in> set rs. host_end p \<le> host_start r))"
  using assms
proof (induction prev rs rule: check_ranges.induct)
  case (2 prev r rs)
  have r: "host_start r < host_end r" and rest: "check_ranges (Some r) rs = Inr ()"
    and prev: "\<forall>p. prev = Some p \<longrightarrow> host_end p \<le> host_start r"
    using "2.prems"(1) by (auto simp: not_le not_less split: if_splits option.splits)
  have IH: "(\<forall>q \<in> set rs. host_start q < host_end q) \<and> sorted_wrt (\<lambda>p r. host_end p \<le> host_start r) rs \<and>
      (\<forall>q \<in> set rs. host_end r \<le> host_start q)"
    using "2.IH" "2.prems" r prev by (cases prev) (auto simp: not_le not_less split: if_splits)
  then show ?case
    using r prev by (auto split: option.splits intro: order.trans less_imp_le)
qed (simp split: option.splits)

lemma check_faults_distinct:
  assumes "check_faults fs = Inr ()" "sorted (map host_offset fs)"
  shows "distinct (map host_offset fs)"
  using assms
proof (induction fs rule: check_faults.induct)
  case (1 f g fs)
  then have "host_offset f \<noteq> host_offset g" "distinct (map host_offset (g # fs))"
    by (auto split: if_splits)
  moreover have "host_offset f < host_offset h" if "h \<in> set (g # fs)" for h
    using that 1(3) \<open>host_offset f \<noteq> host_offset g\<close> by (auto simp: less_le)
  ultimately show ?case
    by (fastforce simp: less_le)
qed simp_all

lemma find_distinct: "distinct (map k xs) \<Longrightarrow> find (\<lambda>y. k y = x) xs = Some z \<longleftrightarrow> z \<in> set xs \<and> k z = x"
  by (induction xs) auto

text \<open>Ranges that follow each other.\<close>

abbreviation (input) disjoint_ranges :: "SourceRange list \<Rightarrow> bool" where
  "disjoint_ranges rs \<equiv> sorted_wrt (\<lambda>p r. host_end p \<le> host_start r) rs"

lemma nth_partition_point: "partition_point P xs \<noteq> 0 \<Longrightarrow> xs ! (partition_point P xs - 1) = last (takeWhile P xs)"
  by (simp add: partition_point_def last_conv_nth takeWhile_nth)

lemma last_range_before:
  assumes "\<forall>r \<in> set rs. host_start r < host_end r" "disjoint_ranges rs" "r \<in> set rs" "host_start r \<le> x" "x < host_end r"
  shows "takeWhile (\<lambda>r. host_start r \<le> x) rs \<noteq> [] \<and> last (takeWhile (\<lambda>r. host_start r \<le> x) rs) = r"
  using assms
proof (induction rs)
  case (Cons q rs)
  show ?case
  proof (cases "r = q")
    case True
    have "takeWhile (\<lambda>r. host_start r \<le> x) rs = []"
      using Cons.prems True by (cases rs) (auto simp: not_le)
    then show ?thesis
      using True Cons.prems(4) by simp
  next
    case False
    then have "r \<in> set rs" "host_start q \<le> x"
      using Cons.prems by (auto intro: order.trans less_imp_le)
    then show ?thesis
      using Cons by auto
  qed
qed simp

lemma source_lookup:
  assumes "\<forall>r \<in> set (map_ranges m). host_start r < host_end r" "disjoint_ranges (map_ranges m)"
  shows "source_for_host_offset m x = Some r \<longleftrightarrow> r \<in> set (map_ranges m) \<and> host_start r \<le> x \<and> x < host_end r"
proof -
  let ?P = "\<lambda>r. host_start r \<le> x"
  let ?t = "takeWhile ?P (map_ranges m)"
  have "source_for_host_offset m x = (if ?t \<noteq> [] \<and> x < host_end (last ?t) then Some (last ?t) else None)"
    using nth_partition_point [of ?P "map_ranges m"]
    by (auto simp: source_for_host_offset_def Let_def partition_point_def)
  moreover have "last ?t \<in> set (map_ranges m) \<and> host_start (last ?t) \<le> x" if "?t \<noteq> []"
    using last_in_set [OF that] set_takeWhileD by fastforce
  ultimately show ?thesis
    using last_range_before [OF assms] by auto
qed

text \<open>C34. Source lookup is exact: whenever the metadata of a block is accepted, the lookup at a host offset
  gives a range exactly when that range was supplied and contains the offset, and the fault lookup
  gives a site exactly when that site was supplied and starts there; in particular at most one does.\<close>

theorem source_map_lookup:
  assumes "source_map_new ranges faults = Inr m"
  shows "(source_for_host_offset m x = Some r \<longleftrightarrow> r \<in> set ranges \<and> host_start r \<le> x \<and> x < host_end r) \<and>
    (fault_for_host_offset m x = Some f \<longleftrightarrow> f \<in> set faults \<and> host_offset f = x)"
proof -
  let ?rs = "sort_key host_start ranges" and ?fs = "sort_key host_offset faults"
  have m: "map_ranges m = ?rs" "map_faults m = ?fs"
    and ok: "check_ranges None ?rs = Inr ()" "check_faults ?fs = Inr ()"
    using assms by (auto simp: source_map_new_def Let_def bind_r_Inr_iff)
  have "distinct (map host_offset ?fs)"
    by (rule check_faults_distinct [OF ok(2)]) simp
  then have "(find (\<lambda>f. host_offset f = x) ?fs = Some f) \<longleftrightarrow> f \<in> set ?fs \<and> host_offset f = x"
    by (rule find_distinct)
  moreover have "source_for_host_offset m x = Some r \<longleftrightarrow> r \<in> set (map_ranges m) \<and> host_start r \<le> x \<and> x < host_end r"
    using check_ranges_sorted [OF ok(1)] by (intro source_lookup) (simp_all add: m)
  ultimately show ?thesis
    by (simp add: fault_for_host_offset_def m)
qed

abbreviation sample_range :: "u32 \<Rightarrow> u32 \<Rightarrow> u32 \<Rightarrow> SourceRange" where
  "sample_range a b ip \<equiv> \<lparr>host_start = a, host_end = b, range_guest_ip = ip, guest_len = 2\<rparr>"

abbreviation sample_fault :: "u32 \<Rightarrow> FaultSite" where
  "sample_fault at \<equiv> \<lparr>host_offset = at, host_len = 4, fault_guest_ip = 0x1002, fault_access = Read, fault_width = 4,
     fault_register = 0, resume_offset = 20, slow_stub_offset = 40\<rparr>"

theorem source_map_lookup_witness:
  "\<exists>m. source_map_new [sample_range 8 20 0x1002, sample_range 0 8 0x1000] [sample_fault 12] = Inr m \<and>
    source_for_host_offset m 7 = Some (sample_range 0 8 0x1000) \<and>
    source_for_host_offset m 8 = Some (sample_range 8 20 0x1002) \<and>
    fault_for_host_offset m 12 = Some (sample_fault 12)"
proof -
  let ?rs = "[sample_range 8 20 0x1002, sample_range 0 8 0x1000]" and ?fs = "[sample_fault 12]"
  let ?m = "\<lparr>map_ranges = rev ?rs, map_faults = ?fs\<rparr>"
  have m: "source_map_new ?rs ?fs = Inr ?m"
    by code_simp
  show ?thesis
    using m source_map_lookup [OF m, of 7 "sample_range 0 8 0x1000"] source_map_lookup [OF m, of 8 "sample_range 8 20 0x1002"]
      source_map_lookup [OF m, of 12 _ "sample_fault 12"]
    by (intro exI [of _ ?m]) simp
qed

end
