(* ===== verification/Code_Memory.thy ===== *)
theory Code_Memory
  imports Page_Table
begin

text \<open>
  Host code buffers with separate write and execute phases, \<^verbatim>\<open>exbawks-platform/src/code_memory.rs\<close>.  The
  operating system's calls are a parameter; a buffer holds the bytes of its pages and their
  protection.
\<close>

text \<open>The calls the Windows build makes, each giving its result or the code of \<^verbatim>\<open>GetLastError\<close>.\<close>

record win_api =
  VirtualAlloc :: "nat \<Rightarrow> u32 + nat"
  VirtualProtect :: "nat \<Rightarrow> nat \<Rightarrow> u32 \<Rightarrow> u32 + unit"
  FlushInstructionCache :: "nat \<Rightarrow> nat \<Rightarrow> u32 + unit"

datatype code_host = WindowsHost win_api | OtherHost

definition PAGE_READWRITE :: u32 where "PAGE_READWRITE = 0x04"

definition PAGE_EXECUTE_READ :: u32 where "PAGE_EXECUTE_READ = 0x20"

record CodeAllocation =
  alloc_base :: nat
  capacity :: nat
  pages_bytes :: "u8 list"
  protection :: u32

record CodeBuffer =
  imp :: CodeAllocation
  code_len :: nat

definition code_allocation_new :: "code_host \<Rightarrow> nat \<Rightarrow> PlatformError + CodeAllocation" where
  "code_allocation_new host n =
     (case host of
        WindowsHost api \<Rightarrow>
          bind_r (map_err (Win32 ''VirtualAlloc'') (VirtualAlloc api n)) (\<lambda>base.
          Inr \<lparr>alloc_base = base, capacity = n, pages_bytes = replicate n 0, protection = PAGE_READWRITE\<rparr>)
      | OtherHost \<Rightarrow> Inl (Unsupported ''code buffers require Windows''))"

definition write_at :: "code_host \<Rightarrow> nat \<Rightarrow> u8 list \<Rightarrow> CodeAllocation \<Rightarrow> PlatformError + CodeAllocation" where
  "write_at host offset bytes a =
     (case host of
        WindowsHost api \<Rightarrow>
          bind_r (ok_or (usize_checked_add offset (length bytes)) (InvalidArgument ''code buffer write overflows'')) (\<lambda>upto'.
          if upto' > capacity a then Inl (InvalidArgument ''code buffer write exceeds capacity'')
          else Inr (a\<lparr>pages_bytes := take offset (pages_bytes a) @ bytes @ drop upto' (pages_bytes a)\<rparr>))
      | OtherHost \<Rightarrow> Inl (Unsupported ''code buffers require Windows''))"

definition seal_allocation :: "code_host \<Rightarrow> CodeAllocation \<Rightarrow> PlatformError + CodeAllocation" where
  "seal_allocation host a =
     (case host of
        WindowsHost api \<Rightarrow>
          bind_r (map_err (Win32 ''VirtualProtect'') (VirtualProtect api (alloc_base a) (capacity a) PAGE_EXECUTE_READ)) (\<lambda>_.
          bind_r (map_err (Win32 ''FlushInstructionCache'') (FlushInstructionCache api (alloc_base a) (capacity a))) (\<lambda>_.
          Inr (a\<lparr>protection := PAGE_EXECUTE_READ\<rparr>)))
      | OtherHost \<Rightarrow> Inl (Unsupported ''code buffers require Windows''))"

definition buffer_new :: "code_host \<Rightarrow> nat \<Rightarrow> PlatformError + CodeBuffer" where
  "buffer_new host n =
     (if n = 0 then Inl (InvalidArgument ''code buffer capacity must not be zero'')
      else bind_r (code_allocation_new host n) (\<lambda>a. Inr \<lparr>imp = a, code_len = 0\<rparr>))"

definition buffer_push :: "code_host \<Rightarrow> u8 list \<Rightarrow> (CodeBuffer, PlatformError, nat) st" where
  "buffer_push host bytes =
     bind_s (gets code_len) (\<lambda>offset.
     bind_s (gets_r (\<lambda>_. ok_or (usize_checked_add offset (length bytes)) (InvalidArgument ''code buffer write overflows''))) (\<lambda>upto'.
     bind_s (gets (\<lambda>b. capacity (imp b))) (\<lambda>cap.
     if upto' > cap then throw (InvalidArgument ''code buffer capacity is exhausted'')
     else
       bind_s (gets_r (\<lambda>b. write_at host offset bytes (imp b))) (\<lambda>a.
       bind_s (modify (\<lambda>b. b\<lparr>imp := a, code_len := upto'\<rparr>)) (\<lambda>_.
       ret offset)))))"

definition buffer_seal :: "code_host \<Rightarrow> CodeBuffer \<Rightarrow> PlatformError + CodeBuffer" where
  "buffer_seal host b = bind_r (seal_allocation host (imp b)) (\<lambda>a. Inr \<lparr>imp = a, code_len = code_len b\<rparr>)"

definition buffer_is_empty :: "CodeBuffer \<Rightarrow> bool" where
  "buffer_is_empty b \<longleftrightarrow> code_len b = 0"

section \<open>What a buffer holds\<close>

definition code_bytes :: "CodeBuffer \<Rightarrow> u8 list" where
  "code_bytes b = take (code_len b) (pages_bytes (imp b))"

definition buffer_ok :: "CodeBuffer \<Rightarrow> bool" where
  "buffer_ok b \<longleftrightarrow> length (pages_bytes (imp b)) = capacity (imp b) \<and> code_len b \<le> capacity (imp b) \<and>
     capacity (imp b) < 2 ^ 64 \<and> protection (imp b) \<in> {PAGE_READWRITE, PAGE_EXECUTE_READ}"

lemma buffer_new_ok:
  "buffer_new host n = Inr b \<Longrightarrow> n < 2 ^ 64 \<Longrightarrow>
   buffer_ok b \<and> code_bytes b = [] \<and> capacity (imp b) = n \<and> protection (imp b) = PAGE_READWRITE \<and> n \<noteq> 0"
  by (auto simp: buffer_new_def code_allocation_new_def buffer_ok_def code_bytes_def bind_r_Inr_iff split: if_splits code_host.splits)

lemma buffer_seal_iff:
  "buffer_seal host b = Inr b' \<Longrightarrow>
   code_bytes b' = code_bytes b \<and> protection (imp b') = PAGE_EXECUTE_READ \<and> code_len b' = code_len b \<and> (buffer_ok b \<longrightarrow> buffer_ok b')"
  by (auto simp: buffer_seal_def seal_allocation_def code_bytes_def buffer_ok_def bind_r_Inr_iff split: code_host.splits)

lemma write_at_windows:
  assumes "buffer_ok b" "code_len b + length bytes \<le> capacity (imp b)"
  shows "write_at (WindowsHost api) (code_len b) bytes (imp b) =
    Inr ((imp b)\<lparr>pages_bytes := take (code_len b) (pages_bytes (imp b)) @ bytes @
           drop (code_len b + length bytes) (pages_bytes (imp b))\<rparr>)"
  using assms by (simp add: write_at_def buffer_ok_def usize_checked_add_def)

lemma push_windows:
  assumes "buffer_ok b"
  shows "case buffer_push (WindowsHost api) bytes b of
      (Inr at', b') \<Rightarrow> at' = code_len b \<and> code_bytes b' = code_bytes b @ bytes \<and> code_len b' = code_len b + length bytes \<and>
        buffer_ok b' \<and> protection (imp b') = protection (imp b) \<and> capacity (imp b') = capacity (imp b) \<and>
        code_len b + length bytes \<le> capacity (imp b)
    | (Inl e, b') \<Rightarrow> b' = b \<and> capacity (imp b) < code_len b + length bytes"
proof (cases "code_len b + length bytes \<le> capacity (imp b)")
  case True
  have "usize_checked_add (code_len b) (length bytes) = Some (code_len b + length bytes)"
    using True assms by (simp add: usize_checked_add_def buffer_ok_def)
  then show ?thesis
    using True write_at_windows [OF assms True] assms
    by (simp add: buffer_push_def monad_simps gets_r_def gets_def code_bytes_def buffer_ok_def)
next
  case False
  then show ?thesis
    by (auto simp: buffer_push_def monad_simps gets_r_def gets_def usize_checked_add_def ok_or_def)
qed

text \<open>C35. A code buffer goes through its two phases without ever being writable and executable: after its
  allocation and any two appended pieces of code that fit, sealing gives a buffer that holds exactly
  the appended bytes in order, with its pages execute-read, and until then they are read-write; a
  piece that does not fit is refused and leaves the buffer as it was.\<close>

theorem code_buffer_phases:
  assumes "buffer_new (WindowsHost api) n = Inr b0" "n < 2 ^ 64"
  shows "let b1 = snd (buffer_push (WindowsHost api) xs b0); b2 = snd (buffer_push (WindowsHost api) ys b1) in
    protection (imp b0) = PAGE_READWRITE \<and> protection (imp b1) = PAGE_READWRITE \<and>
    code_bytes b1 = (if length xs \<le> n then xs else []) \<and> (n < length xs \<longrightarrow> b1 = b0) \<and>
    protection (imp b2) = PAGE_READWRITE \<and>
    code_bytes b2 = (if code_len b1 + length ys \<le> n then code_bytes b1 @ ys else code_bytes b1) \<and>
    (\<forall>b3. buffer_seal (WindowsHost api) b2 = Inr b3 \<longrightarrow>
       code_bytes b3 = code_bytes b2 \<and> protection (imp b3) = PAGE_EXECUTE_READ)"
proof -
  note b0 = buffer_new_ok [OF assms]
  have len: "code_len b0 = 0"
    using assms(1) by (auto simp: buffer_new_def bind_r_Inr_iff split: if_splits)
  let ?b1 = "snd (buffer_push (WindowsHost api) xs b0)"
  let ?b2 = "snd (buffer_push (WindowsHost api) ys ?b1)"
  have b1: "buffer_ok ?b1 \<and> protection (imp ?b1) = PAGE_READWRITE \<and> capacity (imp ?b1) = n \<and>
      code_bytes ?b1 = (if length xs \<le> n then xs else []) \<and> (n < length xs \<longrightarrow> ?b1 = b0)"
    using push_windows [of b0 xs api] b0 len by (auto split: prod.splits sum.splits)
  have "protection (imp ?b2) = PAGE_READWRITE \<and>
      code_bytes ?b2 = (if code_len ?b1 + length ys \<le> n then code_bytes ?b1 @ ys else code_bytes ?b1)"
    using push_windows [of ?b1 ys api] b1 by (auto split: prod.splits sum.splits)
  then show ?thesis
    using b0 b1 buffer_seal_iff by (auto simp: Let_def)
qed

definition sample_api :: win_api where
  "sample_api = \<lparr>VirtualAlloc = (\<lambda>_. Inr 0x10000), VirtualProtect = (\<lambda>_ _ _. Inr ()), FlushInstructionCache = (\<lambda>_ _. Inr ())\<rparr>"

theorem code_buffer_phases_witness:
  "\<exists>b0. buffer_new (WindowsHost sample_api) 3 = Inr b0 \<and>
     code_bytes (snd (buffer_push (WindowsHost sample_api) [0x90, 0xC3] b0)) = [0x90, 0xC3]"
proof -
  have "buffer_new (WindowsHost sample_api) 3 =
      Inr \<lparr>imp = \<lparr>alloc_base = 0x10000, capacity = 3, pages_bytes = [0, 0, 0], protection = PAGE_READWRITE\<rparr>, code_len = 0\<rparr>"
    by (simp add: buffer_new_def code_allocation_new_def sample_api_def numeral_3_eq_3)
  from this code_buffer_phases [OF this, of "[0x90, 0xC3]" "[]"] show ?thesis
    by (auto simp: Let_def)
qed

end
