(* ===== verification/Jit_Emitter.thy ===== *)
theory Jit_Emitter
  imports Block_Decoder Source_Map Code_Memory
begin

text \<open>
  The direct translator, \<^verbatim>\<open>exbawks-jit/src/\<close>: the planner (\<^verbatim>\<open>plan.rs\<close>), the emitter of register-only blocks
  (\<^verbatim>\<open>emit.rs\<close>), the exits of generated code (\<^verbatim>\<open>exit.rs\<close>, \<^verbatim>\<open>dispatch.rs\<close>) and the backends
  (\<^verbatim>\<open>backend.rs\<close>).  An assembler method is the list of bytes it appends.
\<close>

unbundle bit_operations_syntax

section \<open>Exits and errors\<close>

datatype BlockExit =
    DirectSuccessor | ConditionalSuccessor | IndirectSuccessor | KernelCall | MemorySlowPath
  | UnsupportedInstruction | BudgetExhausted

definition from_raw :: "u64 \<Rightarrow> BlockExit option" where
  "from_raw v =
     (if v > 6 then None
      else Some (if v = 0 then DirectSuccessor else if v = 1 then ConditionalSuccessor else if v = 2 then IndirectSuccessor
                 else if v = 3 then KernelCall else if v = 4 then MemorySlowPath else if v = 5 then UnsupportedInstruction
                 else BudgetExhausted))"

fun to_raw :: "BlockExit \<Rightarrow> u32" where
  "to_raw DirectSuccessor = 0" | "to_raw ConditionalSuccessor = 1" | "to_raw IndirectSuccessor = 2"
| "to_raw KernelCall = 3" | "to_raw MemorySlowPath = 4" | "to_raw UnsupportedInstruction = 5"
| "to_raw BudgetExhausted = 6"

datatype BackendKind = DirectRewrite | Cranelift

datatype JitError =
    BackendUnavailable BackendKind string
  | EmptyBlock
  | BlockEndOverflow GuestVa
  | MalformedExit u64
  | MetadataOverflow GuestVa
  | Metadata SourceMapError
  | Platform PlatformError

section \<open>The block assembler\<close>

text \<open>The layout of \<^verbatim>\<open>CpuState\<close>: the registers first, then EIP and EFLAGS, each four bytes.\<close>

definition gpr_offset :: "Gpr \<Rightarrow> nat" where
  "gpr_offset r = gpr_code r * 4"

definition EIP_OFFSET :: nat where "EIP_OFFSET = 32"

definition EFLAGS_OFFSET :: nat where "EFLAGS_OFFSET = 36"

definition gpr_disp :: "Gpr \<Rightarrow> u8" where
  "gpr_disp r = word_of_nat (gpr_offset r)"

definition eip_disp :: u8 where
  "eip_disp = word_of_nat EIP_OFFSET"

definition eflags_disp :: u8 where
  "eflags_disp = word_of_nat EFLAGS_OFFSET"

fun alu_register_opcode :: "AluOp \<Rightarrow> u8" where
  "alu_register_opcode AluAdd = 0x01" | "alu_register_opcode AluOr = 0x09" | "alu_register_opcode AluAnd = 0x21"
| "alu_register_opcode AluSub = 0x29" | "alu_register_opcode AluXor = 0x31"

fun alu_immediate_modrm :: "AluOp \<Rightarrow> u8" where
  "alu_immediate_modrm AluAdd = 0xC0" | "alu_immediate_modrm AluOr = 0xC8" | "alu_immediate_modrm AluAnd = 0xE0"
| "alu_immediate_modrm AluSub = 0xE8" | "alu_immediate_modrm AluXor = 0xF0"

fun defined_flags :: "AluOp \<Rightarrow> u32" where
  "defined_flags AluAdd = ARITHMETIC" | "defined_flags AluSub = ARITHMETIC"
| "defined_flags AluAnd = LOGIC_DEFINED" | "defined_flags AluOr = LOGIC_DEFINED" | "defined_flags AluXor = LOGIC_DEFINED"

definition load_gpr_eax :: "Gpr \<Rightarrow> u8 list" where
  "load_gpr_eax r = [0x8B, 0x41, gpr_disp r]"

definition load_gpr_edx :: "Gpr \<Rightarrow> u8 list" where
  "load_gpr_edx r = [0x8B, 0x51, gpr_disp r]"

definition store_gpr_eax :: "Gpr \<Rightarrow> u8 list" where
  "store_gpr_eax r = [0x89, 0x41, gpr_disp r]"

fun load_eax :: "RegisterOperand \<Rightarrow> u8 list" where
  "load_eax (SrcGpr r) = load_gpr_eax r"
| "load_eax (SrcImmediate v) = 0xB8 # to_le_bytes v"

definition asm_merge_flags :: "u32 \<Rightarrow> u8 list" where
  "asm_merge_flags m =
     [0x5A] @
     [0x81, 0xE2] @ to_le_bytes m @
     [0x8B, 0x41, eflags_disp] @
     [0x25] @ to_le_bytes (NOT m) @
     [0x09, 0xD0] @
     [0x89, 0x41, eflags_disp]"

fun register_op :: "RegisterOp \<Rightarrow> u8 list" where
  "register_op NopOp = [0x90]"
| "register_op (MovOp dst src) = load_eax src @ store_gpr_eax dst"
| "register_op (AluRegOp op dst src) =
     load_gpr_eax dst @
     (case src of
        SrcGpr r \<Rightarrow> load_gpr_edx r @ [alu_register_opcode op, 0xD0]
      | SrcImmediate v \<Rightarrow> [0x81, alu_immediate_modrm op] @ to_le_bytes v) @
     [0x9C] @ store_gpr_eax dst @ asm_merge_flags (defined_flags op)"

definition epilogue :: "GuestVa \<Rightarrow> BlockExit \<Rightarrow> u8 list" where
  "epilogue exit_eip' exit =
     [0xC7, 0x41, eip_disp] @ to_le_bytes exit_eip' @
     [0xB8] @ to_le_bytes (to_raw exit) @
     [0xC3]"

section \<open>The emitter\<close>

record EmittedBlock =
  code :: CodeBuffer
  machine_code :: "u8 list"
  guest_start :: GuestVa
  exit_eip :: GuestVa
  static_exit :: BlockExit
  translated_instructions :: nat
  source_map :: BlockSourceMap

definition host_offset_of :: "GuestVa \<Rightarrow> nat \<Rightarrow> JitError + u32" where
  "host_offset_of start v = ok_or (u32_try_from v) (MetadataOverflow start)"

record emit_state =
  asm :: "u8 list"
  emit_ranges :: "SourceRange list"
  emit_translated :: nat
  emit_exit :: BlockExit
  emit_eip :: GuestVa

fun emit_loop :: "GuestVa \<Rightarrow> Instruction list \<Rightarrow> emit_state \<Rightarrow> JitError + emit_state" where
  "emit_loop start [] e = Inr e"
| "emit_loop start (i # is) e =
     (case classify_register_op i of
        None \<Rightarrow> Inr (e\<lparr>emit_exit := UnsupportedInstruction, emit_eip := ip_address i\<rparr>)
      | Some op \<Rightarrow>
          bind_r (host_offset_of start (length (asm e))) (\<lambda>host_start'.
          let bytes = asm e @ register_op op in
          bind_r (host_offset_of start (length bytes)) (\<lambda>host_end'.
          bind_r (host_offset_of start (ins_len i)) (\<lambda>len.
          emit_loop start is
            (e\<lparr>asm := bytes,
               emit_ranges := emit_ranges e @ [\<lparr>host_start = host_start', host_end = host_end', range_guest_ip = ip_address i, guest_len = len\<rparr>],
               emit_translated := emit_translated e + 1\<rparr>)))))"

definition emit :: "code_host \<Rightarrow> DecodedBlock \<Rightarrow> JitError + EmittedBlock" where
  "emit host b =
     (if instructions b = [] then Inl EmptyBlock
      else
        bind_r (ok_or (block_end b) (BlockEndOverflow (block_start b))) (\<lambda>end_va.
        bind_r (emit_loop (block_start b) (instructions b)
                  \<lparr>asm = [], emit_ranges = [], emit_translated = 0, emit_exit = DirectSuccessor, emit_eip = end_va\<rparr>) (\<lambda>e.
        let bytes = asm e @ epilogue (emit_eip e) (emit_exit e) in
        bind_r (map_err Metadata (source_map_new (emit_ranges e) [])) (\<lambda>smap.
        bind_r (map_err Platform (buffer_new host (length bytes))) (\<lambda>b0.
        let pushed = buffer_push host bytes b0 in
        bind_r (map_err Platform (fst pushed)) (\<lambda>_.
        bind_r (map_err Platform (buffer_seal host (snd pushed))) (\<lambda>sealed.
        Inr \<lparr>code = sealed, machine_code = bytes, guest_start = block_start b, exit_eip = emit_eip e,
             static_exit = emit_exit e, translated_instructions = emit_translated e, source_map = smap\<rparr>)))))))"

text \<open>
  Entering generated code.  The entry point is a parameter: the machine code at the base of the
  buffer, run on a processor state; \<open>None\<close> stands for an execution that does not return through its
  epilogue.
\<close>

definition dispatcher_run ::
    "(u8 list \<Rightarrow> CpuState \<Rightarrow> (u64 \<times> CpuState) option) \<Rightarrow> EmittedBlock \<Rightarrow> CpuState \<Rightarrow> ((JitError + BlockExit) \<times> CpuState) option" where
  "dispatcher_run enter b s =
     (if buffer_is_empty (code b) then Some (Inl EmptyBlock, s)
      else map_option (\<lambda>(raw, s'). (ok_or (from_raw raw) (MalformedExit raw), s'))
             (enter (pages_bytes (imp (code b))) s))"

section \<open>Plans and backends\<close>

datatype RewriteClass = NativeCandidate | MemoryClass | ControlFlowClass

record TranslationAction =
  action_guest_ip :: GuestVa
  action_length :: nat
  action_text :: string
  action_class :: RewriteClass

record TranslationPlan =
  plan_backend :: BackendKind
  plan_guest_start :: GuestVa
  actions :: "TranslationAction list"

text \<open>The library says whether an instruction uses memory, and prints it.\<close>

record insn_info =
  uses_memory :: "Instruction \<Rightarrow> bool"
  format_instruction :: "Instruction \<Rightarrow> string"

definition plan_action :: "insn_info \<Rightarrow> Instruction \<Rightarrow> TranslationAction" where
  "plan_action info i =
     \<lparr>action_guest_ip = ip_address i, action_length = ins_len i, action_text = format_instruction info i,
      action_class = (if ins_flow_control i \<noteq> FlowNext then ControlFlowClass
                      else if uses_memory info i then MemoryClass
                      else NativeCandidate)\<rparr>"

definition plan :: "insn_info \<Rightarrow> DecodedBlock \<Rightarrow> TranslationPlan" where
  "plan info b = \<lparr>plan_backend = DirectRewrite, plan_guest_start = block_start b, actions = map (plan_action info) (instructions b)\<rparr>"

datatype CompilationState = Planned | Executable

record CompiledBlock =
  compiled_plan :: TranslationPlan
  compiled_code :: "u8 list"
  compiled_state :: CompilationState
  executable :: "EmittedBlock option"

definition compiled_source_map :: "CompiledBlock \<Rightarrow> BlockSourceMap option" where
  "compiled_source_map c = map_option source_map (executable c)"

definition direct_compile :: "code_host \<Rightarrow> insn_info \<Rightarrow> DecodedBlock \<Rightarrow> JitError + CompiledBlock" where
  "direct_compile host info b =
     (if instructions b = [] then Inl EmptyBlock
      else case emit host b of
             Inr e \<Rightarrow> Inr \<lparr>compiled_plan = plan info b, compiled_code = machine_code e, compiled_state = Executable, executable = Some e\<rparr>
           | Inl (Platform (Unsupported _)) \<Rightarrow>
               Inr \<lparr>compiled_plan = plan info b, compiled_code = [], compiled_state = Planned, executable = None\<rparr>
           | Inl e \<Rightarrow> Inl e)"

definition cranelift_compile :: "DecodedBlock \<Rightarrow> JitError + CompiledBlock" where
  "cranelift_compile b =
     Inl (BackendUnavailable Cranelift ''the normalized guest IR and Cranelift emitter are not implemented'')"

text \<open>C36. Raw exit codes round trip: generated code loads the code of its exit, and the dispatcher decodes
  exactly that exit from it; a value decodes to an exit only when it is that exit's code.\<close>

theorem exit_round_trip: "from_raw v = Some e \<longleftrightarrow> v = ucast (to_raw e)"
proof
  assume "from_raw v = Some e"
  then have "v \<le> 6" and e: "e = the (from_raw v)"
    by (auto simp: from_raw_def split: if_splits)
  then have "unat v \<le> 6"
    by (simp add: word_le_nat_alt)
  then have "unat v \<in> {0, 1, 2, 3, 4, 5, 6}"
    by auto
  then have "v \<in> {0, 1, 2, 3, 4, 5, 6}"
    by (auto simp: word_unat_eq_iff)
  then show "v = ucast (to_raw e)"
    unfolding e by (auto simp: from_raw_def)
qed (cases e; simp add: from_raw_def)

end
