(* ===== verification/Jit_Correct.thy ===== *)
theory Jit_Correct
  imports Jit_Emitter
begin

text \<open>
  Correctness of generated code.  The host processor is specified by the instructions of its manual that
  the emitter uses, decoded from bytes with their ModRM fields; the flags its arithmetic leaves are a
  parameter, of which the locale \<open>host_alu\<close> states what the manual documents.  Running an emitted
  block on such a host is shown to do what the register-only interpreter does.
\<close>

unbundle bit_operations_syntax

section \<open>The host processor\<close>

text \<open>
  Registers by number, the flags, the words pushed since entry, the address of the processor state the
  block works on, and that state.
\<close>

record host =
  h_reg :: "nat \<Rightarrow> u64"
  h_flags :: u64
  h_stack :: "u64 list"
  h_base :: u64
  h_cpu :: CpuState

abbreviation (input) RAX :: nat where "RAX \<equiv> 0"

abbreviation (input) RCX :: nat where "RCX \<equiv> 1"

abbreviation (input) RDX :: nat where "RDX \<equiv> 2"

datatype host_insn =
    HNop
  | HLoad nat nat u8
  | HStore nat u8 nat
  | HStoreImm nat u8 u32
  | HMovImm nat u32
  | HAluReg AluOp nat nat
  | HAluImm AluOp nat u32
  | HPushf
  | HPop nat
  | HRet

definition modrm_mod :: "u8 \<Rightarrow> u8" where "modrm_mod m = drop_bit 6 m"

definition modrm_reg :: "u8 \<Rightarrow> u8" where "modrm_reg m = drop_bit 3 m AND 7"

definition modrm_rm :: "u8 \<Rightarrow> u8" where "modrm_rm m = m AND 7"

text \<open>The operations of the one-byte opcode rows and of the immediate group, by their number.\<close>

definition host_alu_op :: "u8 \<Rightarrow> AluOp option" where
  "host_alu_op n = (if n = 0 then Some AluAdd else if n = 1 then Some AluOr else if n = 4 then Some AluAnd
     else if n = 5 then Some AluSub else if n = 6 then Some AluXor else None)"

definition with_imm32 :: "u8 list \<Rightarrow> (u32 \<Rightarrow> host_insn) \<Rightarrow> (host_insn \<times> u8 list) option" where
  "with_imm32 bs f = (case bs of a # b # c # d # r \<Rightarrow> Some (f (from_le_bytes [a, b, c, d]), r) | _ \<Rightarrow> None)"

text \<open>Operands with a memory form are decoded for base registers other than RSP and an 8-bit displacement.\<close>

definition host_decode_modrm :: "u8 \<Rightarrow> u8 \<Rightarrow> u8 list \<Rightarrow> (host_insn \<times> u8 list) option" where
  "host_decode_modrm op m r =
     (let rg = unat (modrm_reg m); rm = unat (modrm_rm m) in
      if modrm_mod m = 1 \<and> rm \<noteq> 4 then
        (case r of
           [] \<Rightarrow> None
         | d # r' \<Rightarrow>
             if op = 0x8B then Some (HLoad rg rm d, r')
             else if op = 0x89 then Some (HStore rm d rg, r')
             else if op = 0xC7 \<and> rg = 0 then with_imm32 r' (HStoreImm rm d)
             else None)
      else if modrm_mod m = 3 then
        (if op = 0x81 then (case host_alu_op (modrm_reg m) of Some k \<Rightarrow> with_imm32 r (HAluImm k rm) | None \<Rightarrow> None)
         else if op AND 7 = 1 then (case host_alu_op (drop_bit 3 op) of Some k \<Rightarrow> Some (HAluReg k rm rg, r) | None \<Rightarrow> None)
         else None)
      else None)"

definition host_decode :: "u8 list \<Rightarrow> (host_insn \<times> u8 list) option" where
  "host_decode bs =
     (case bs of
        [] \<Rightarrow> None
      | op # r \<Rightarrow>
          if op = 0x90 then Some (HNop, r)
          else if op = 0x9C then Some (HPushf, r)
          else if op = 0xC3 then Some (HRet, r)
          else if drop_bit 3 op = 0x0B then Some (HPop (unat (op AND 7)), r)
          else if drop_bit 3 op = 0x17 then with_imm32 r (HMovImm (unat (op AND 7)))
          else if op = 0x25 then with_imm32 r (HAluImm AluAnd 0)
          else (case r of [] \<Rightarrow> None | m # r' \<Rightarrow> host_decode_modrm op m r'))"

text \<open>The fields of the processor state by their byte offset.\<close>

definition load_field :: "CpuState \<Rightarrow> nat \<Rightarrow> u32 option" where
  "load_field s n =
     (if n mod 4 \<noteq> 0 then None
      else if n < EIP_OFFSET then Some (gpr s (n div 4))
      else if n = EIP_OFFSET then Some (eip s)
      else if n = EFLAGS_OFFSET then Some (eflags s)
      else None)"

definition store_field :: "nat \<Rightarrow> u32 \<Rightarrow> CpuState \<Rightarrow> CpuState option" where
  "store_field n v s =
     (if n mod 4 \<noteq> 0 then None
      else if n < EIP_OFFSET then Some (set_gpr (n div 4) v s)
      else if n = EIP_OFFSET then Some (s\<lparr>eip := v\<rparr>)
      else if n = EFLAGS_OFFSET then Some (s\<lparr>eflags := v\<rparr>)
      else None)"

text \<open>The offset into the state of a base register with a sign-extended displacement.\<close>

definition host_offset_at :: "host \<Rightarrow> nat \<Rightarrow> u8 \<Rightarrow> nat" where
  "host_offset_at h r d = unat (h_reg h r + scast d - h_base h)"

definition reg32 :: "host \<Rightarrow> nat \<Rightarrow> u32" where
  "reg32 h r = ucast (h_reg h r)"

definition set_reg64 :: "nat \<Rightarrow> u64 \<Rightarrow> host \<Rightarrow> host" where
  "set_reg64 r v h = h\<lparr>h_reg := (h_reg h)(r := v)\<rparr>"

text \<open>Writing a 32-bit register clears the upper half.\<close>

definition set_reg32 :: "nat \<Rightarrow> u32 \<Rightarrow> host \<Rightarrow> host" where
  "set_reg32 r v h = set_reg64 r (ucast v) h"

fun alu_value :: "AluOp \<Rightarrow> u32 \<Rightarrow> u32 \<Rightarrow> u32" where
  "alu_value AluAdd a b = a + b" | "alu_value AluSub a b = a - b" | "alu_value AluAnd a b = a AND b"
| "alu_value AluOr a b = a OR b" | "alu_value AluXor a b = a XOR b"

type_synonym alu_flags = "AluOp \<Rightarrow> u32 \<Rightarrow> u32 \<Rightarrow> u64 \<Rightarrow> u64"

definition host_alu_step :: "alu_flags \<Rightarrow> AluOp \<Rightarrow> nat \<Rightarrow> u32 \<Rightarrow> host \<Rightarrow> host" where
  "host_alu_step fl k r b h =
     set_reg32 r (alu_value k (reg32 h r) b) (h\<lparr>h_flags := fl k (reg32 h r) b (h_flags h)\<rparr>)"

text \<open>
  The push of the flags clears two of them.  One instruction other than the return; \<open>None\<close> is an access outside the state or an unbalanced pop.
\<close>

fun host_exec :: "alu_flags \<Rightarrow> host_insn \<Rightarrow> host \<Rightarrow> host option" where
  "host_exec fl HNop h = Some h"
| "host_exec fl (HLoad r base d) h = map_option (\<lambda>v. set_reg32 r v h) (load_field (h_cpu h) (host_offset_at h base d))"
| "host_exec fl (HStore base d r) h =
     map_option (\<lambda>s. h\<lparr>h_cpu := s\<rparr>) (store_field (host_offset_at h base d) (reg32 h r) (h_cpu h))"
| "host_exec fl (HStoreImm base d v) h =
     map_option (\<lambda>s. h\<lparr>h_cpu := s\<rparr>) (store_field (host_offset_at h base d) v (h_cpu h))"
| "host_exec fl (HMovImm r v) h = Some (set_reg32 r v h)"
| "host_exec fl (HAluReg k dst src) h = Some (host_alu_step fl k dst (reg32 h src) h)"
| "host_exec fl (HAluImm k dst v) h = Some (host_alu_step fl k dst v h)"
| "host_exec fl HPushf h = Some (h\<lparr>h_stack := (h_flags h AND 0xFCFFFF) # h_stack h\<rparr>)"
| "host_exec fl (HPop r) h =
     (case h_stack h of [] \<Rightarrow> None | v # vs \<Rightarrow> Some (set_reg64 r v (h\<lparr>h_stack := vs\<rparr>)))"
| "host_exec fl HRet h = None"

lemma with_imm32_shorter: "with_imm32 bs f = Some (i, r) \<Longrightarrow> length r < length bs"
  by (auto simp: with_imm32_def split: list.splits)

lemma host_decode_shorter: "host_decode bs = Some (i, r) \<Longrightarrow> length r < length bs"
  by (auto simp: host_decode_def host_decode_modrm_def Let_def split: list.splits if_splits option.splits dest!: with_imm32_shorter)

text \<open>
  Straight-line execution up to the return, which needs the words pushed to have been popped.  Each
  instruction takes at least one byte, so that execution ends.
\<close>

function host_run :: "alu_flags \<Rightarrow> u8 list \<Rightarrow> host \<Rightarrow> host option" where
  "host_run fl bs h =
     (case host_decode bs of
        None \<Rightarrow> None
      | Some (i, r) \<Rightarrow>
          if i = HRet then (if h_stack h = [] then Some h else None)
          else case host_exec fl i h of None \<Rightarrow> None | Some h' \<Rightarrow> host_run fl r h')"
  by pat_completeness auto
termination
  by (relation "measure (\<lambda>(fl, bs, h). length bs)") (auto dest: host_decode_shorter)

declare host_run.simps [simp del]

section \<open>The flags of host arithmetic\<close>

text \<open>
  What the manual documents, in numbers.  It leaves the auxiliary carry of the logical operations
  undefined.
\<close>

locale host_alu =
  fixes fl :: alu_flags
  assumes zero: "bit (fl k a b f) 6 \<longleftrightarrow> alu_value k a b = 0"
    and sign: "bit (fl k a b f) 7 \<longleftrightarrow> sint (alu_value k a b) < 0"
    and parity: "bit (fl k a b f) 2 \<longleftrightarrow> even (count_ones (ucast (alu_value k a b) :: u8))"
    and add_carry: "bit (fl AluAdd a b f) 0 \<longleftrightarrow> 2 ^ 32 \<le> uint a + uint b"
    and add_aux: "bit (fl AluAdd a b f) 4 \<longleftrightarrow> 16 \<le> uint a mod 16 + uint b mod 16"
    and add_over: "bit (fl AluAdd a b f) 11 \<longleftrightarrow> sint a + sint b < - (2 ^ 31) \<or> 2 ^ 31 \<le> sint a + sint b"
    and sub_carry: "bit (fl AluSub a b f) 0 \<longleftrightarrow> uint a < uint b"
    and sub_aux: "bit (fl AluSub a b f) 4 \<longleftrightarrow> uint a mod 16 < uint b mod 16"
    and sub_over: "bit (fl AluSub a b f) 11 \<longleftrightarrow> sint a - sint b < - (2 ^ 31) \<or> 2 ^ 31 \<le> sint a - sint b"
    and logic_carry: "k \<in> {AluAnd, AluOr, AluXor} \<Longrightarrow> \<not> bit (fl k a b f) 0 \<and> \<not> bit (fl k a b f) 11"

text \<open>The carry into bit \<open>n\<close> of a sum.\<close>

lemma bit_sum_int: "bit (x + y) n \<longleftrightarrow> (bit x n \<noteq> bit y n) \<noteq> (2 ^ n \<le> x mod 2 ^ n + y mod 2 ^ n)" for x y :: int
proof -
  have "(x mod 2 ^ n + y mod 2 ^ n) div 2 ^ n = of_bool (2 ^ n \<le> x mod 2 ^ n + y mod 2 ^ n)"
  proof (cases "2 ^ n \<le> x mod 2 ^ n + y mod 2 ^ n")
    case True
    have "(x mod 2 ^ n + y mod 2 ^ n) div 2 ^ n = 1"
      by (rule int_div_pos_eq [where r = "x mod 2 ^ n + y mod 2 ^ n - 2 ^ n"])
        (use True add_strict_mono [OF pos_mod_bound [of "2 ^ n" x] pos_mod_bound [of "2 ^ n" y]] in auto)
    with True show ?thesis
      by simp
  qed (simp add: div_pos_pos_trivial)
  then show ?thesis
    by (auto simp: bit_iff_odd div_add1_eq [of x y])
qed

lemma bit_word_sum: "n < LENGTH('a) \<Longrightarrow>
    bit (a + b) n \<longleftrightarrow> (bit a n \<noteq> bit b n) \<noteq> (2 ^ n \<le> uint a mod 2 ^ n + uint b mod 2 ^ n)" for a b :: "'a::len word"
proof -
  assume n: "n < LENGTH('a)"
  have "a + b = word_of_int (uint a + uint b)"
    by simp
  then have "bit (a + b) n \<longleftrightarrow> bit (uint a + uint b) n"
    using n by (metis bit_word_of_int_iff)
  then show ?thesis
    using n by (simp add: bit_sum_int bit_uint_iff)
qed

lemma aux_add: "bit (a XOR b XOR (a + b)) 4 \<longleftrightarrow> 16 \<le> uint a mod 16 + uint b mod 16" for a b :: u32
  by (auto simp: bit_xor_iff bit_word_sum)

lemma nibble_borrow:
  fixes x y :: int
  assumes "0 \<le> x" "x < 16" "0 \<le> y" "y < 16"
  shows "(x + y) mod 16 < y \<longleftrightarrow> 16 \<le> x + y"
proof (cases "16 \<le> x + y")
  case True
  then have "(x + y) mod 16 = x + y - 16"
    using assms int_mod_pos_eq [of "x + y" 16 1 "x + y - 16"] by simp
  with True assms show ?thesis
    by simp
qed (use assms in \<open>simp add: mod_pos_pos_trivial\<close>)

lemma aux_sub: "bit (a XOR b XOR (a - b)) 4 \<longleftrightarrow> uint a mod 16 < uint b mod 16" for a b :: u32
proof -
  have m: "uint a mod 16 = (uint (a - b) mod 16 + uint b mod 16) mod 16"
  proof -
    have "uint a = uint ((a - b) + b)"
      by simp
    also have "\<dots> mod 16 = (uint (a - b) + uint b) mod 16"
      unfolding uint_word_ariths by (simp add: mod_mod_cancel)
    finally show ?thesis
      by (simp add: mod_add_eq)
  qed
  have "bit a 4 \<longleftrightarrow> (bit (a - b) 4 \<noteq> bit b 4) \<noteq> (16 \<le> uint (a - b) mod 16 + uint b mod 16)"
    using bit_word_sum [of 4 "a - b" b] by simp
  moreover have "16 \<le> uint (a - b) mod 16 + uint b mod 16 \<longleftrightarrow> uint a mod 16 < uint b mod 16"
    unfolding m by (rule nibble_borrow [symmetric]) simp_all
  ultimately show ?thesis
    by (auto simp: bit_xor_iff)
qed

text \<open>At 32 bits the values of the flag lemmas are those of the whole word.\<close>

lemma uval_D: "uval D a = uint a"
  by (simp add: uval_def and_full)

lemma sval_D: "sval D a = sint a"
proof -
  have "sint a = (uint a + 2147483648) mod 4294967296 - 2147483648"
    by (simp add: sint_uint signed_take_bit_eq_take_bit_shift take_bit_eq_mod)
  moreover have "0 \<le> uint a" "uint a < 4294967296"
    using uint_lt2p [of a] by simp_all
  ultimately show ?thesis
    unfolding sval_def uval_D half_values
    using int_mod_pos_eq [of "uint a + 2147483648" 4294967296 1 "uint a - 2147483648"]
    by (auto simp: mod_pos_pos_trivial)
qed

text \<open>The flags of the register-only interpreter are the documented ones.\<close>

definition interpreter_flags :: alu_flags where
  "interpreter_flags k a b f = ucast (snd (snd (alu_apply k a b)))"

lemma bit_result_flags:
  "bit (result_flags r) 0 = False" "bit (result_flags r) 4 = False" "bit (result_flags r) 11 = False"
  "bit (result_flags r) 6 \<longleftrightarrow> r = 0" "bit (result_flags r) 7 \<longleftrightarrow> sint r < 0"
  "bit (result_flags r) 2 \<longleftrightarrow> even (count_ones (ucast r :: u8))"
  unfolding result_flags_eq [symmetric] bit_result_bits by (simp_all add: uval_D sval_D and_full uint_0_iff)

lemma bit_interpreter_flags:
  "n < 32 \<Longrightarrow> bit (interpreter_flags k a b f) n \<longleftrightarrow> bit (snd (snd (alu_apply k a b))) n"
  by (simp add: interpreter_flags_def bit_ucast_iff)

lemma from_bool_False: "from_bool False = (0 :: u32)"
  by (simp add: from_bool_def)

lemma bit_add_flags:
  "bit (add_flags a b (a + b)) 0 \<longleftrightarrow> 2 ^ 32 \<le> uint a + uint b"
  "bit (add_flags a b (a + b)) 11 \<longleftrightarrow> sint a + sint b < - (2 ^ 31) \<or> 2 ^ 31 \<le> sint a + sint b"
  "bit (add_flags a b (a + b)) 4 \<longleftrightarrow> 16 \<le> uint a mod 16 + uint b mod 16"
  using bit_add_bits(1) [of a b False D] add_bits_overflow [of a b False D]
  by (simp_all add: from_bool_False add_bits_D uval_D sval_D half_values add_flags_def bit_or_iff bit_result_flags
      word_and_single_bit_iff [of 4, simplified] aux_add)

lemma bit_sub_flags:
  "bit (sub_flags a b (a - b)) 0 \<longleftrightarrow> uint a < uint b"
  "bit (sub_flags a b (a - b)) 11 \<longleftrightarrow> sint a - sint b < - (2 ^ 31) \<or> 2 ^ 31 \<le> sint a - sint b"
  "bit (sub_flags a b (a - b)) 4 \<longleftrightarrow> uint a mod 16 < uint b mod 16"
  using bit_sub_bits(1) [of a b False D] sub_bits_overflow [of a b False D]
  by (simp_all add: from_bool_False sub_bits_D uval_D sval_D half_values sub_flags_def bit_or_iff bit_result_flags
      word_and_single_bit_iff [of 4, simplified] aux_sub)

lemma bit_apply_flags:
  "n \<in> {2, 6, 7} \<Longrightarrow> bit (snd (snd (alu_apply k a b))) n \<longleftrightarrow> bit (result_flags (alu_value k a b)) n"
  by (cases k) (auto simp: add_flags_def sub_flags_def logic_def bit_or_iff)

interpretation interp_alu: host_alu interpreter_flags
  by unfold_locales
    (auto simp: bit_interpreter_flags bit_apply_flags bit_result_flags bit_add_flags bit_sub_flags logic_def)

lemma defined_flags_bits:
  "bit (defined_flags k) n \<longleftrightarrow> n \<in> {0, 2, 6, 7, 11} \<or> n = 4 \<and> k \<in> {AluAdd, AluSub}"
  by (cases k) (auto simp: ARITHMETIC_def LOGIC_DEFINED_def bit_or_iff)

lemma alu_apply_parts: "fst (alu_apply k a b) = alu_value k a b" "fst (snd (alu_apply k a b)) = defined_flags k"
  by (cases k; simp add: logic_def)+

text \<open>Any host leaves, in the flags an operation defines, what the interpreter computes.\<close>

context host_alu
begin

lemma bits_agree: "bit (defined_flags k) n \<Longrightarrow> bit (fl k a b f) n \<longleftrightarrow> bit (interpreter_flags k a b f) n"
  unfolding defined_flags_bits
  by (cases k)
    (auto simp: zero sign parity add_carry add_aux add_over sub_carry sub_aux sub_over logic_carry
      interp_alu.zero interp_alu.sign interp_alu.parity interp_alu.add_carry interp_alu.add_aux interp_alu.add_over
      interp_alu.sub_carry interp_alu.sub_aux interp_alu.sub_over interp_alu.logic_carry)

lemma pushed_flags:
  "(ucast (fl k a b f AND 0xFCFFFF) :: u32) AND defined_flags k = snd (snd (alu_apply k a b)) AND defined_flags k"
proof (rule bit_word_eqI)
  fix n assume "n < LENGTH(32)"
  show "bit ((ucast (fl k a b f AND 0xFCFFFF) :: u32) AND defined_flags k) n \<longleftrightarrow>
      bit (snd (snd (alu_apply k a b)) AND defined_flags k) n"
  proof (cases "bit (defined_flags k) n")
    case True
    then have "n \<in> {0, 2, 4, 6, 7, 11}"
      by (auto simp: defined_flags_bits)
    then have "bit (0xFCFFFF :: u64) n"
      by auto
    then show ?thesis
      using True \<open>n < LENGTH(32)\<close>
      by (simp add: bit_and_iff bit_ucast_iff bits_agree bit_interpreter_flags)
  qed (simp add: bit_and_iff)
qed

end

section \<open>Running the emitted pieces\<close>

definition ready :: "host \<Rightarrow> bool" where
  "ready h \<longleftrightarrow> h_reg h RCX = h_base h"

text \<open>What a block keeps of the host: the stack and every register but RAX and RDX.\<close>

definition host_kept :: "host \<Rightarrow> host \<Rightarrow> bool" where
  "host_kept h h' \<longleftrightarrow> h_base h' = h_base h \<and> h_stack h' = h_stack h \<and> (\<forall>r. r \<notin> {RAX, RDX} \<longrightarrow> h_reg h' r = h_reg h r)"

lemma host_kept_refl [simp]: "host_kept h h"
  by (simp add: host_kept_def)

lemma host_kept_trans: "host_kept h h' \<Longrightarrow> host_kept h' h'' \<Longrightarrow> host_kept h h''"
  by (simp add: host_kept_def)

lemma host_kept_ready: "host_kept h h' \<Longrightarrow> ready h \<Longrightarrow> ready h'"
  by (simp add: host_kept_def ready_def)

lemma with_imm32_le [simp]: "with_imm32 (to_le_bytes v @ r) f = Some (f v, r)"
  using from_to_le_bytes [of v] by (simp add: with_imm32_def to_le_bytes_def)

lemma offset_of_disp:
  assumes "ready h"
  shows "host_offset_at h (Suc 0) (gpr_disp r) = 4 * gpr_code r" "host_offset_at h (Suc 0) eip_disp = 32"
    "host_offset_at h (Suc 0) eflags_disp = 36"
  using assms
  by (cases r; simp add: host_offset_at_def ready_def gpr_disp_def gpr_offset_def)
    (simp_all add: assms [unfolded ready_def One_nat_def] host_offset_at_def eip_disp_def EIP_OFFSET_def eflags_disp_def EFLAGS_OFFSET_def)

lemma gpr_code_le: "gpr_code r \<le> 7"
  by (cases r) simp_all

lemma gpr_field:
  "load_field s (4 * gpr_code r) = Some (cpu_get s r)"
  "store_field (4 * gpr_code r) v s = Some (cpu_set r v s)"
  "load_field s 36 = Some (eflags s)"
  "store_field 36 v s = Some (s\<lparr>eflags := v\<rparr>)"
  "store_field 32 v s = Some (s\<lparr>eip := v\<rparr>)"
  using gpr_code_le [of r]
  by (simp_all add: load_field_def store_field_def EIP_OFFSET_def EFLAGS_OFFSET_def cpu_get_def cpu_set_def)

lemmas decode_defs = host_decode_def host_decode_modrm_def modrm_mod_def modrm_reg_def modrm_rm_def Let_def host_alu_op_def

lemma decode_pieces:
  "host_decode (load_gpr_eax r @ rest) = Some (HLoad RAX RCX (gpr_disp r), rest)"
  "host_decode (load_gpr_edx r @ rest) = Some (HLoad RDX RCX (gpr_disp r), rest)"
  "host_decode (store_gpr_eax r @ rest) = Some (HStore RCX (gpr_disp r) RAX, rest)"
  "host_decode (0xB8 # to_le_bytes v @ rest) = Some (HMovImm RAX v, rest)"
  "host_decode (alu_register_opcode k # 0xD0 # rest) = Some (HAluReg k RAX RDX, rest)"
  "host_decode (0x81 # alu_immediate_modrm k # to_le_bytes v @ rest) = Some (HAluImm k RAX v, rest)"
  "host_decode (0x90 # rest) = Some (HNop, rest)"
  "host_decode (0x9C # rest) = Some (HPushf, rest)"
  "host_decode (0x5A # rest) = Some (HPop RDX, rest)"
  "host_decode (0x81 # 0xE2 # to_le_bytes v @ rest) = Some (HAluImm AluAnd RDX v, rest)"
  "host_decode (0x8B # 0x41 # d # rest) = Some (HLoad RAX RCX d, rest)"
  "host_decode (0x89 # 0x41 # d # rest) = Some (HStore RCX d RAX, rest)"
  "host_decode (0x25 # to_le_bytes v @ rest) = Some (HAluImm AluAnd RAX v, rest)"
  "host_decode (0x09 # 0xD0 # rest) = Some (HAluReg AluOr RAX RDX, rest)"
  "host_decode (0xC7 # 0x41 # d # to_le_bytes v @ rest) = Some (HStoreImm RCX d v, rest)"
  "host_decode (0xC3 # rest) = Some (HRet, rest)"
  by (simp_all add: decode_defs load_gpr_eax_def load_gpr_edx_def store_gpr_eax_def) (cases k; simp add: decode_defs)+

lemma run_decoded:
  "host_decode bs = Some (i, rest) \<Longrightarrow> i \<noteq> HRet \<Longrightarrow> host_exec fl i h = Some h' \<Longrightarrow> host_run fl bs h = host_run fl rest h'"
  by (subst host_run.simps) simp

lemma narrow_wide [simp]: "(ucast (ucast v :: u64) :: u32) = v" for v :: u32
  by (rule bit_word_eqI) (simp add: bit_ucast_iff)

lemma reg_simps [simp]:
  "reg32 (set_reg32 r v h) q = (if q = r then v else reg32 h q)"
  "h_cpu (set_reg32 r v h) = h_cpu h" "h_stack (set_reg32 r v h) = h_stack h" "h_flags (set_reg32 r v h) = h_flags h"
  "h_base (set_reg32 r v h) = h_base h" "h_reg (set_reg32 r v h) q = (if q = r then ucast v else h_reg h q)"
  "h_reg (set_reg64 r x h) q = (if q = r then x else h_reg h q)"
  "h_cpu (set_reg64 r x h) = h_cpu h" "h_stack (set_reg64 r x h) = h_stack h" "h_base (set_reg64 r x h) = h_base h"
  "reg32 (set_reg64 r x h) q = (if q = r then ucast x else reg32 h q)"
  by (simp_all add: reg32_def set_reg32_def set_reg64_def)

lemma reg32_update [simp]:
  "reg32 (h\<lparr>h_cpu := s\<rparr>) q = reg32 h q" "reg32 (h\<lparr>h_stack := st\<rparr>) q = reg32 h q" "reg32 (h\<lparr>h_flags := f\<rparr>) q = reg32 h q"
  by (simp_all add: reg32_def)

lemma alu_step_simps [simp]:
  "reg32 (host_alu_step fl k r b h) q = (if q = r then alu_value k (reg32 h r) b else reg32 h q)"
  "h_cpu (host_alu_step fl k r b h) = h_cpu h" "h_stack (host_alu_step fl k r b h) = h_stack h"
  "h_base (host_alu_step fl k r b h) = h_base h"
  "h_flags (host_alu_step fl k r b h) = fl k (reg32 h r) b (h_flags h)"
  "q \<noteq> r \<Longrightarrow> h_reg (host_alu_step fl k r b h) q = h_reg h q"
  by (simp_all add: host_alu_step_def)

lemma ready_simps [simp]:
  "r \<noteq> RCX \<Longrightarrow> ready (set_reg32 r v h) = ready h" "r \<noteq> RCX \<Longrightarrow> ready (set_reg64 r x h) = ready h"
  "ready (h\<lparr>h_cpu := s\<rparr>) = ready h" "ready (h\<lparr>h_stack := st\<rparr>) = ready h" "ready (h\<lparr>h_flags := f\<rparr>) = ready h"
  "r \<noteq> RCX \<Longrightarrow> ready (host_alu_step fl k r b h) = ready h"
  by (simp_all add: ready_def)

text \<open>Each emitted piece, run on a host whose RCX holds the address of the state.\<close>

lemma run_load_gpr:
  assumes "ready h"
  shows "host_run fl (load_gpr_eax r @ rest) h = host_run fl rest (set_reg32 RAX (cpu_get (h_cpu h) r) h)"
    "host_run fl (load_gpr_edx r @ rest) h = host_run fl rest (set_reg32 RDX (cpu_get (h_cpu h) r) h)"
    "host_run fl (store_gpr_eax r @ rest) h = host_run fl rest (h\<lparr>h_cpu := cpu_set r (reg32 h RAX) (h_cpu h)\<rparr>)"
  using assms by (auto intro!: run_decoded simp: decode_pieces offset_of_disp gpr_field)

lemma run_load_source:
  assumes "ready h"
  shows "host_run fl (load_eax src @ rest) h = host_run fl rest (set_reg32 RAX (read_source (h_cpu h) src) h)"
  using assms
  by (cases src) (auto intro!: run_decoded simp: run_load_gpr read_source_def decode_pieces)

lemma run_alu_source:
  assumes "ready h"
  shows "\<exists>h'. host_run fl ((case src of
        SrcGpr r \<Rightarrow> load_gpr_edx r @ [alu_register_opcode k, 0xD0]
      | SrcImmediate v \<Rightarrow> [0x81, alu_immediate_modrm k] @ to_le_bytes v) @ rest) h = host_run fl rest h' \<and>
    host_kept h h' \<and> h_cpu h' = h_cpu h \<and> reg32 h' RAX = alu_value k (reg32 h RAX) (read_source (h_cpu h) src) \<and>
    h_flags h' = fl k (reg32 h RAX) (read_source (h_cpu h) src) (h_flags h)"
proof (cases src)
  case (SrcGpr r)
  let ?h = "set_reg32 RDX (cpu_get (h_cpu h) r) h"
  have "host_run fl (load_gpr_edx r @ alu_register_opcode k # 0xD0 # rest) h =
      host_run fl rest (host_alu_step fl k RAX (reg32 ?h RDX) ?h)"
    unfolding run_load_gpr(2) [OF assms] by (rule run_decoded [OF decode_pieces(5)]) simp_all
  then show ?thesis
    using SrcGpr by (intro exI [of _ "host_alu_step fl k RAX (reg32 ?h RDX) ?h"]) (simp add: host_kept_def read_source_def)
next
  case (SrcImmediate v)
  have "host_run fl (0x81 # alu_immediate_modrm k # to_le_bytes v @ rest) h = host_run fl rest (host_alu_step fl k RAX v h)"
    by (rule run_decoded [OF decode_pieces(6)]) simp_all
  then show ?thesis
    using SrcImmediate by (intro exI [of _ "host_alu_step fl k RAX v h"]) (simp add: host_kept_def read_source_def)
qed

lemma run_merge_flags:
  assumes "ready h" "h_stack h = f # st"
  shows "\<exists>h'. host_run fl (asm_merge_flags m @ rest) h = host_run fl rest h' \<and>
    h_base h' = h_base h \<and> h_stack h' = st \<and> (\<forall>r. r \<notin> {RAX, RDX} \<longrightarrow> h_reg h' r = h_reg h r) \<and>
    h_cpu h' = (h_cpu h)\<lparr>eflags := (eflags (h_cpu h) AND NOT m) OR (ucast f AND m)\<rparr>"
proof -
  let ?h1 = "set_reg64 RDX f (h\<lparr>h_stack := st\<rparr>)"
  let ?h2 = "host_alu_step fl AluAnd RDX m ?h1"
  let ?h3 = "set_reg32 RAX (eflags (h_cpu h)) ?h2"
  let ?h4 = "host_alu_step fl AluAnd RAX (NOT m) ?h3"
  let ?h5 = "host_alu_step fl AluOr RAX (reg32 ?h4 RDX) ?h4"
  let ?h6 = "?h5\<lparr>h_cpu := (h_cpu h)\<lparr>eflags := reg32 ?h5 RAX\<rparr>\<rparr>"
  let ?store = "0x89 # 0x41 # eflags_disp # rest"
  have "host_run fl (asm_merge_flags m @ rest) h =
      host_run fl (0x81 # 0xE2 # to_le_bytes m @ 0x8B # 0x41 # eflags_disp # 0x25 # to_le_bytes (NOT m) @ 0x09 # 0xD0 # ?store) ?h1"
    unfolding asm_merge_flags_def by (rule run_decoded [where i = "HPop RDX"]) (simp_all add: decode_pieces assms)
  also have "\<dots> = host_run fl (0x8B # 0x41 # eflags_disp # 0x25 # to_le_bytes (NOT m) @ 0x09 # 0xD0 # ?store) ?h2"
    by (rule run_decoded [OF decode_pieces(10)]) simp_all
  also have "\<dots> = host_run fl (0x25 # to_le_bytes (NOT m) @ 0x09 # 0xD0 # ?store) ?h3"
    by (rule run_decoded [OF decode_pieces(11)]) (simp_all add: offset_of_disp assms gpr_field)
  also have "\<dots> = host_run fl (0x09 # 0xD0 # ?store) ?h4"
    by (rule run_decoded [OF decode_pieces(13)]) simp_all
  also have "\<dots> = host_run fl ?store ?h5"
    by (rule run_decoded [OF decode_pieces(14)]) simp_all
  also have "\<dots> = host_run fl rest ?h6"
    by (rule run_decoded [OF decode_pieces(12)]) (simp_all add: offset_of_disp assms gpr_field)
  finally show ?thesis
    by (intro exI [of _ ?h6]) simp
qed

context host_alu
begin

lemma run_register_op:
  assumes "ready h"
  shows "\<exists>h'. host_run fl (register_op op @ rest) h = host_run fl rest h' \<and> host_kept h h' \<and> h_cpu h' = apply_op op (h_cpu h)"
proof (cases op)
  case NopOp
  then show ?thesis
    by (intro exI [of _ h]) (simp add: run_decoded [OF decode_pieces(7)])
next
  case (MovOp dst src)
  then show ?thesis
    using assms by (simp add: run_load_source run_load_gpr) (rule exI, rule conjI, rule refl, simp add: host_kept_def)
next
  case (AluRegOp k dst src)
  let ?s = "h_cpu h" and ?h1 = "set_reg32 RAX (cpu_get (h_cpu h) dst) h"
  let ?a = "cpu_get ?s dst" and ?b = "read_source ?s src"
  let ?tail = "asm_merge_flags (defined_flags k) @ rest"
  obtain h2 where h2: "host_run fl (register_op op @ rest) h = host_run fl (0x9C # store_gpr_eax dst @ ?tail) h2"
      "host_kept ?h1 h2" "h_cpu h2 = ?s" "reg32 h2 RAX = alu_value k ?a ?b" "h_flags h2 = fl k ?a ?b (h_flags h)"
    using run_alu_source [of ?h1 fl k src "0x9C # store_gpr_eax dst @ ?tail"] assms
    by (auto simp: AluRegOp run_load_gpr)
  let ?f = "fl k ?a ?b (h_flags h) AND 0xFCFFFF"
  let ?h3 = "h2\<lparr>h_stack := ?f # h_stack h\<rparr>"
  let ?h4 = "?h3\<lparr>h_cpu := cpu_set dst (alu_value k ?a ?b) ?s\<rparr>"
  have ready2: "ready h2" and stack: "h_stack h2 = h_stack h"
    using h2(2) assms host_kept_ready [of ?h1 h2] by (simp_all add: host_kept_def)
  have "host_run fl (0x9C # store_gpr_eax dst @ ?tail) h2 = host_run fl (store_gpr_eax dst @ ?tail) ?h3"
    by (rule run_decoded [OF decode_pieces(8)]) (simp_all add: stack h2(5))
  then have "host_run fl (register_op op @ rest) h = host_run fl ?tail ?h4"
    using ready2 by (simp only: h2(1)) (simp add: run_load_gpr h2(3,4))
  moreover obtain h5 where "host_run fl ?tail ?h4 = host_run fl rest h5" "h_base h5 = h_base ?h4" "h_stack h5 = h_stack h"
      "\<forall>r. r \<notin> {RAX, RDX} \<longrightarrow> h_reg h5 r = h_reg ?h4 r"
      "h_cpu h5 = (h_cpu ?h4)\<lparr>eflags := (eflags (h_cpu ?h4) AND NOT (defined_flags k)) OR (ucast ?f AND defined_flags k)\<rparr>"
    using run_merge_flags [of ?h4 ?f "h_stack h" fl "defined_flags k" rest] ready2 by auto
  ultimately show ?thesis
    using h2(2) by (intro exI [of _ h5])
      (simp add: AluRegOp host_kept_def pushed_flags case_prod_beta alu_apply_parts Let_def del: alu_apply.simps)
qed

end

section \<open>Running whole blocks\<close>

text \<open>The register-only interpreter over a list of instructions.\<close>

fun step_all :: "Instruction list \<Rightarrow> CpuState \<Rightarrow> InterpretError + CpuState" where
  "step_all [] s = Inr s"
| "step_all (i # is) s = bind_r (step_register_only i s) (step_all is)"

definition in_subset :: "Instruction \<Rightarrow> bool" where
  "in_subset i \<longleftrightarrow> classify_register_op i \<noteq> None"

definition op_of :: "Instruction \<Rightarrow> RegisterOp" where
  "op_of i = the (classify_register_op i)"

definition block_code :: "Instruction list \<Rightarrow> u8 list" where
  "block_code is = concat (map (\<lambda>i. register_op (op_of i)) is)"

definition len_sum :: "Instruction list \<Rightarrow> nat" where
  "len_sum is = sum_list (map ins_len is)"

lemma emit_loop_result:
  assumes "emit_loop start is e = Inr e'" "length (asm e) < 2 ^ 32"
  shows "asm e' = asm e @ block_code (takeWhile in_subset is) \<and> length (asm e') < 2 ^ 32 \<and>
    emit_translated e' = emit_translated e + length (takeWhile in_subset is) \<and>
    (emit_exit e', emit_eip e') =
      (case dropWhile in_subset is of [] \<Rightarrow> (emit_exit e, emit_eip e) | i # _ \<Rightarrow> (UnsupportedInstruction, ip_address i))"
  using assms
proof (induction "is" arbitrary: e)
  case (Cons i "is")
  show ?case
  proof (cases "classify_register_op i")
    case None
    then show ?thesis
      using Cons.prems by (auto simp: in_subset_def block_code_def)
  next
    case (Some op)
    obtain e1 where e1: "emit_loop start is e1 = Inr e'" "asm e1 = asm e @ register_op op" "length (asm e1) < 2 ^ 32"
        "emit_translated e1 = emit_translated e + 1" "emit_exit e1 = emit_exit e" "emit_eip e1 = emit_eip e"
      using Cons.prems Some
      by (auto simp: host_offset_of_def bind_r_Inr_iff ok_or_def u32_try_from_def Let_def split: option.splits if_splits)
    have "in_subset i" "op_of i = op"
      using Some by (simp_all add: in_subset_def op_of_def)
    then show ?thesis
      using Cons.IH [OF e1(1,3)] e1(2,4-6)
      by (cases "dropWhile in_subset is") (auto simp: block_code_def simp del: dropWhile_eq_Nil_conv)
  qed
qed (simp add: block_code_def)

lemma apply_op_eip: "apply_op op (s\<lparr>eip := v\<rparr>) = (apply_op op s)\<lparr>eip := v\<rparr>" "eip (apply_op op s) = eip s"
  by (cases op; simp add: read_source_def cpu_set_def set_gpr_def cpu_get_def case_prod_beta Let_def split: RegisterOperand.split)+

text \<open>The operations of a list of instructions, without the instruction pointer.\<close>

definition apply_ops :: "Instruction list \<Rightarrow> CpuState \<Rightarrow> CpuState" where
  "apply_ops is s = fold (\<lambda>i. apply_op (op_of i)) is s"

lemma step_all_subset:
  assumes "\<forall>i \<in> set is. in_subset i"
  shows "step_all is s = Inr ((apply_ops is s)\<lparr>eip := eip s + word_of_nat (len_sum is)\<rparr>)"
  using assms
proof (induction "is" arbitrary: s)
  case (Cons i "is")
  have "step_register_only i s = Inr ((apply_op (op_of i) s)\<lparr>eip := eip s + ins_len32 i\<rparr>)"
    using Cons.prems by (auto simp: step_register_only_def in_subset_def op_of_def advance_eip_def apply_op_eip)
  moreover have "fold (\<lambda>i. apply_op (op_of i)) is (s'\<lparr>eip := v\<rparr>) = (fold (\<lambda>i. apply_op (op_of i)) is s')\<lparr>eip := v\<rparr>" for s' v
    by (induction "is" arbitrary: s') (simp_all add: apply_op_eip)
  ultimately show ?case
    using Cons by (simp add: apply_ops_def len_sum_def ins_len32_def algebra_simps)
qed (simp add: apply_ops_def len_sum_def)

lemma run_epilogue:
  assumes "ready h" "h_stack h = []"
  shows "host_run fl (epilogue a x) h = Some (set_reg32 RAX (to_raw x) (h\<lparr>h_cpu := (h_cpu h)\<lparr>eip := a\<rparr>\<rparr>))"
proof -
  let ?h1 = "h\<lparr>h_cpu := (h_cpu h)\<lparr>eip := a\<rparr>\<rparr>"
  have "host_run fl (epilogue a x) h = host_run fl (0xB8 # to_le_bytes (to_raw x) @ [0xC3]) ?h1"
    unfolding epilogue_def by (rule run_decoded [where i = "HStoreImm RCX eip_disp a"])
      (simp_all add: decode_pieces offset_of_disp assms gpr_field)
  also have "\<dots> = host_run fl [0xC3] (set_reg32 RAX (to_raw x) ?h1)"
    by (rule run_decoded [OF decode_pieces(4)]) simp_all
  also have "\<dots> = Some (set_reg32 RAX (to_raw x) ?h1)"
    by (subst host_run.simps) (simp add: decode_pieces assms)
  finally show ?thesis .
qed

context host_alu
begin

lemma run_block_code:
  "ready h \<Longrightarrow> \<exists>h'. host_run fl (block_code is @ rest) h = host_run fl rest h' \<and> host_kept h h' \<and> h_cpu h' = apply_ops is (h_cpu h)"
proof (induction "is" arbitrary: h)
  case (Cons i "is")
  obtain h1 where h1: "host_run fl (register_op (op_of i) @ block_code is @ rest) h = host_run fl (block_code is @ rest) h1"
      "host_kept h h1" "h_cpu h1 = apply_op (op_of i) (h_cpu h)"
    using run_register_op [OF Cons.prems, of "op_of i" "block_code is @ rest"] by blast
  obtain h2 where "host_run fl (block_code is @ rest) h1 = host_run fl rest h2" "host_kept h1 h2" "h_cpu h2 = apply_ops is (h_cpu h1)"
    using Cons.IH [OF host_kept_ready [OF h1(2) Cons.prems]] by blast
  with h1 host_kept_trans [OF h1(2)] show ?case
    by (intro exI [of _ h2]) (simp add: block_code_def apply_ops_def)
qed (auto simp: block_code_def apply_ops_def)

lemma run_block:
  assumes "ready h" "h_stack h = []"
  shows "\<exists>h'. host_run fl (block_code is @ epilogue a x) h = Some h' \<and> host_kept h h' \<and>
    h_reg h' RAX = ucast (to_raw x) \<and> h_cpu h' = (apply_ops is (h_cpu h))\<lparr>eip := a\<rparr>"
proof -
  obtain h1 where h1: "host_run fl (block_code is @ epilogue a x) h = host_run fl (epilogue a x) h1" "host_kept h h1"
      "h_cpu h1 = apply_ops is (h_cpu h)"
    using run_block_code [OF assms(1)] by blast
  then show ?thesis
    using run_epilogue [of h1 fl a x] host_kept_ready [OF h1(2) assms(1)] assms(2) by (auto simp: host_kept_def)
qed

end

section \<open>Emitted blocks\<close>

lemma sealed_code:
  assumes "buffer_new host (length bytes) = Inr b0" "length bytes < 2 ^ 64"
    and "fst (buffer_push host bytes b0) = Inr u" "buffer_seal host (snd (buffer_push host bytes b0)) = Inr sealed"
  shows "pages_bytes (imp sealed) = bytes \<and> \<not> buffer_is_empty sealed \<and> protection (imp sealed) = PAGE_EXECUTE_READ"
proof -
  obtain api where host: "host = WindowsHost api"
    using assms(1) by (cases host) (auto simp: buffer_new_def code_allocation_new_def split: if_splits)
  let ?b1 = "snd (buffer_push host bytes b0)"
  note b0 = buffer_new_ok [OF assms(1,2)]
  have b1: "code_bytes ?b1 = bytes" "code_len ?b1 = code_len b0 + length bytes" "buffer_ok ?b1" "capacity (imp ?b1) = length bytes"
    using push_windows [of b0 bytes api] b0 assms(3) unfolding host by (auto split: prod.splits)
  moreover have "code_bytes sealed = bytes" "protection (imp sealed) = PAGE_EXECUTE_READ" "code_len sealed = code_len ?b1" "buffer_ok sealed"
    using buffer_seal_iff [OF assms(4)] b1 by auto
  moreover have "code_len b0 = 0"
    using b1(2-4) by (auto simp: buffer_ok_def)
  moreover have "capacity (imp sealed) = capacity (imp ?b1)"
    using assms(4) by (auto simp: buffer_seal_def seal_allocation_def host bind_r_Inr_iff)
  ultimately show ?thesis
    using b0 by (auto simp: buffer_ok_def code_bytes_def buffer_is_empty_def)
qed

lemma emit_result:
  assumes "emit host b = Inr e"
  shows "machine_code e = block_code (takeWhile in_subset (instructions b)) @ epilogue (exit_eip e) (static_exit e) \<and>
    pages_bytes (imp (code e)) = machine_code e \<and> \<not> buffer_is_empty (code e) \<and> protection (imp (code e)) = PAGE_EXECUTE_READ \<and>
    translated_instructions e = length (takeWhile in_subset (instructions b)) \<and>
    (\<exists>last_va. block_end b = Some last_va \<and>
      (static_exit e, exit_eip e) =
        (case dropWhile in_subset (instructions b) of
           [] \<Rightarrow> (DirectSuccessor, last_va) | i # _ \<Rightarrow> (UnsupportedInstruction, ip_address i)))"
proof -
  obtain last_va es b0 u where va: "block_end b = Some last_va"
    and es: "emit_loop (block_start b) (instructions b)
        \<lparr>asm = [], emit_ranges = [], emit_translated = 0, emit_exit = DirectSuccessor, emit_eip = last_va\<rparr> = Inr es"
    and e: "machine_code e = asm es @ epilogue (exit_eip e) (static_exit e)" "exit_eip e = emit_eip es" "static_exit e = emit_exit es"
      "translated_instructions e = emit_translated es"
    and buffer: "buffer_new host (length (machine_code e)) = Inr b0" "fst (buffer_push host (machine_code e) b0) = Inr u"
      "buffer_seal host (snd (buffer_push host (machine_code e) b0)) = Inr (code e)"
    using assms by (auto simp: emit_def bind_r_Inr_iff map_err_Inr_iff ok_or_Inr_iff Let_def split: if_splits)
  have loop: "asm es = block_code (takeWhile in_subset (instructions b))" "length (asm es) < 2 ^ 32"
      "emit_translated es = length (takeWhile in_subset (instructions b))"
      "(emit_exit es, emit_eip es) = (case dropWhile in_subset (instructions b) of
         [] \<Rightarrow> (DirectSuccessor, last_va) | i # _ \<Rightarrow> (UnsupportedInstruction, ip_address i))"
    using emit_loop_result [OF es] by (auto cong: list.case_cong)
  have "length (machine_code e) < 2 ^ 64"
    using loop(2) by (simp add: e(1) epilogue_def)
  then show ?thesis
    using sealed_code [OF buffer(1) _ buffer(2,3)] loop va by (simp add: e)
qed

lemma linear_ip:
  assumes "linear decoder window pos ip is p" "stream_ok decoder" "k < length is"
  shows "ins_ip (is ! k) = ip + word_of_nat (len_sum (take k is))"
  using assms
proof (induction "is" arbitrary: pos ip k)
  case (Cons i "is")
  then have i: "ins_ip i = ip" "linear decoder window (pos + ins_len i) (ip + word_of_nat (ins_len i)) is p"
    by (auto simp: stream_ok_def)
  show ?case
    using Cons.IH [OF i(2) Cons.prems(2)] Cons.prems(3) i(1) by (cases k) (auto simp: len_sum_def algebra_simps)
qed simp

text \<open>Where a decoded block is left, in terms of the lengths of what ran.\<close>

lemma exit_address:
  assumes "decode_block decoder config start bytes = Inr b" "stream_ok decoder" "block_end b = Some last_va"
    and "k \<le> length (instructions b)"
  shows "(if k = length (instructions b) then last_va else ip_address (instructions b ! k)) =
    start + word_of_nat (len_sum (take k (instructions b)))"
proof -
  let ?is = "instructions b" and ?n = "len_sum (take k (instructions b))"
  have b: "block_start b = start" "byte_len b = len_sum ?is"
      "linear decoder (take (max_bytes config) bytes) 0 (ucast start) ?is (byte_len b)"
    using decode_block_linear [OF assms(1,2)] by (auto simp: len_sum_def)
  have le: "?n \<le> len_sum ?is"
    unfolding len_sum_def by (metis append_take_drop_id le_add1 map_append sum_list_append)
  have last_va: "last_va = start + word_of_nat (len_sum ?is)" "unat start + len_sum ?is < 2 ^ 32"
    using assms(3) by (auto simp: block_end_def b va_checked_add_def checked_add_def u32_try_from_def bind_eq_Some_conv unat_of_nat
        split: if_splits)
  show ?thesis
  proof (cases "k = length ?is")
    case False
    then have "ins_ip (?is ! k) = ucast start + word_of_nat ?n"
      using linear_ip [OF b(3) assms(2)] assms(4) by simp
    moreover have "unat (ucast start + word_of_nat ?n :: u64) = unat start + ?n"
      using le last_va(2) by (subst unat_plus_no_overflow) (simp_all add: unat_wide unat_of_nat)
    ultimately show ?thesis
      using False le last_va(2) by (simp add: ip_address_def u32_try_from_def)
  qed (simp add: last_va)
qed

text \<open>Entering a block on a host: RCX holds the address of the processor state, and nothing is pushed yet.\<close>

definition entered :: "host \<Rightarrow> CpuState \<Rightarrow> host" where
  "entered h s = h\<lparr>h_reg := (h_reg h)(RCX := h_base h), h_stack := [], h_cpu := s\<rparr>"

definition host_enter :: "alu_flags \<Rightarrow> host \<Rightarrow> u8 list \<Rightarrow> CpuState \<Rightarrow> (u64 \<times> CpuState) option" where
  "host_enter fl h code_at s = map_option (\<lambda>h'. (h_reg h' RAX, h_cpu h')) (host_run fl code_at (entered h s))"

lemma entered_simps [simp]: "ready (entered h s)" "h_stack (entered h s) = []" "h_cpu (entered h s) = s"
  by (simp_all add: entered_def ready_def)

lemma raw_exit: "from_raw (ucast (to_raw x)) = Some x"
  by (cases x) (simp_all add: from_raw_def)

lemma emitted_block_runs:
  assumes "emit host b = Inr e" "host_alu fl"
  shows "dispatcher_run (host_enter fl h) e s =
    Some (Inr (static_exit e), (apply_ops (takeWhile in_subset (instructions b)) s)\<lparr>eip := exit_eip e\<rparr>)"
  using emit_result [OF assms(1)] host_alu.run_block [OF assms(2), of "entered h s" "takeWhile in_subset (instructions b)"
      "exit_eip e" "static_exit e"]
  by (auto simp: dispatcher_run_def host_enter_def raw_exit)

text \<open>Emission succeeds, with one source range per translated instruction.\<close>

fun ranges_of :: "nat \<Rightarrow> Instruction list \<Rightarrow> SourceRange list" where
  "ranges_of pos [] = []"
| "ranges_of pos (i # is) =
     \<lparr>host_start = word_of_nat pos, host_end = word_of_nat (pos + length (register_op (op_of i))),
      range_guest_ip = ip_address i, guest_len = word_of_nat (ins_len i)\<rparr> #
     ranges_of (pos + length (register_op (op_of i))) is"

lemma register_op_length: "0 < length (register_op op)" "length (register_op op) \<le> 33"
proof -
  have "length (load_eax src) \<le> 30" for src
    by (cases src) (simp_all add: load_gpr_eax_def)
  then show "length (register_op op) \<le> 33"
    by (cases op rule: register_op.cases)
      (auto simp: store_gpr_eax_def load_gpr_eax_def load_gpr_edx_def asm_merge_flags_def intro: order.trans
        split: RegisterOperand.split)
qed (cases op rule: register_op.cases; simp add: load_gpr_eax_def store_gpr_eax_def)

lemma emit_loop_succeeds:
  assumes "length (asm e) + 33 * length is < 2 ^ 32" "\<forall>i \<in> set is. ins_len i < 2 ^ 32"
  shows "\<exists>e'. emit_loop start is e = Inr e' \<and> emit_ranges e' = emit_ranges e @ ranges_of (length (asm e)) (takeWhile in_subset is)"
  using assms
proof (induction "is" arbitrary: e)
  case (Cons i "is")
  show ?case
  proof (cases "classify_register_op i")
    case (Some op)
    then have "in_subset i" "op_of i = op"
      by (simp_all add: in_subset_def op_of_def)
    then show ?thesis
      using Cons.prems register_op_length [of op]
        Cons.IH [of "e\<lparr>asm := asm e @ register_op op,
          emit_ranges := emit_ranges e @ [\<lparr>host_start = word_of_nat (length (asm e)),
            host_end = word_of_nat (length (asm e) + length (register_op op)),
            range_guest_ip = ip_address i, guest_len = word_of_nat (ins_len i)\<rparr>],
          emit_translated := emit_translated e + 1\<rparr>"]
      by (auto simp: host_offset_of_def u32_try_from_def Let_def Some)
  qed (simp add: in_subset_def)
qed simp

lemma ranges_of_check:
  assumes "pos + 33 * length is < 2 ^ 32" "\<forall>p. prev = Some p \<longrightarrow> unat (host_end p) \<le> pos"
  shows "check_ranges prev (ranges_of pos is) = Inr () \<and> sorted (map host_start (ranges_of pos is)) \<and>
    (\<forall>r \<in> set (ranges_of pos is). pos \<le> unat (host_start r))"
  using assms
proof (induction "is" arbitrary: pos prev)
  case (Cons i "is")
  let ?n = "length (register_op (op_of i))"
  let ?r = "\<lparr>host_start = word_of_nat pos, host_end = word_of_nat (pos + ?n), range_guest_ip = ip_address i,
    guest_len = word_of_nat (ins_len i)\<rparr> :: SourceRange"
  have n: "0 < ?n" "?n \<le> 33" "pos + ?n < 2 ^ 32"
    using register_op_length [of "op_of i"] Cons.prems(1) by auto
  have u: "unat (host_start ?r) = pos" "unat (host_end ?r) = pos + ?n"
    using n(3) by (simp_all add: unat_of_nat del: of_nat_add)
  have IH: "check_ranges (Some ?r) (ranges_of (pos + ?n) is) = Inr ()" "sorted (map host_start (ranges_of (pos + ?n) is))"
      "\<forall>r \<in> set (ranges_of (pos + ?n) is). pos + ?n \<le> unat (host_start r)"
    using Cons.IH [of "pos + ?n" "Some ?r"] Cons.prems(1) n(2) u by auto
  have start: "host_start ?r < host_end ?r" "\<forall>r \<in> set (ranges_of (pos + ?n) is). host_start ?r \<le> host_start r"
    unfolding word_less_nat_alt word_le_nat_alt u using IH(3) n(1) by auto
  have "\<not> host_end p > host_start ?r" if "prev = Some p" for p
    using that Cons.prems(2) u by (simp add: word_less_nat_alt)
  then show ?case
    using IH start u n by (auto simp: not_le split: option.split)
qed simp

lemma nth_ranges_of:
  assumes "k < length is"
  shows "ranges_of pos is ! k =
    \<lparr>host_start = word_of_nat (pos + length (block_code (take k is))),
     host_end = word_of_nat (pos + length (block_code (take (Suc k) is))),
     range_guest_ip = ip_address (is ! k), guest_len = word_of_nat (ins_len (is ! k))\<rparr>"
  using assms
proof (induction "is" arbitrary: pos k)
  case (Cons i "is")
  then show ?case
    by (cases k) (simp_all add: block_code_def add.assoc del: of_nat_add)
qed simp

lemma length_ranges_of [simp]: "length (ranges_of pos is) = length is"
  by (induction "is" arbitrary: pos) simp_all

lemma block_code_length: "length (block_code is) \<le> 33 * length is"
proof (induction "is")
  case (Cons i "is")
  then show ?case
    using register_op_length(2) [of "op_of i"] by (simp add: block_code_def)
qed (simp add: block_code_def)

text \<open>A host whose calls succeed.\<close>

definition api_works :: "win_api \<Rightarrow> bool" where
  "api_works api \<longleftrightarrow> (\<forall>n. \<exists>base. VirtualAlloc api n = Inr base) \<and> (\<forall>base n p. VirtualProtect api base n p = Inr ()) \<and>
     (\<forall>base n. FlushInstructionCache api base n = Inr ())"

lemma buffer_works:
  assumes "api_works api" "bytes \<noteq> []" "length bytes < 2 ^ 64"
  shows "\<exists>b0 u sealed. buffer_new (WindowsHost api) (length bytes) = Inr b0 \<and> fst (buffer_push (WindowsHost api) bytes b0) = Inr u \<and>
    buffer_seal (WindowsHost api) (snd (buffer_push (WindowsHost api) bytes b0)) = Inr sealed"
proof -
  obtain base where "VirtualAlloc api (length bytes) = Inr base"
    using assms(1) unfolding api_works_def by blast
  then obtain b0 where b0: "buffer_new (WindowsHost api) (length bytes) = Inr b0"
    using assms(2) by (simp add: buffer_new_def code_allocation_new_def)
  have "code_len b0 = 0"
    using b0 by (auto simp: buffer_new_def bind_r_Inr_iff split: if_splits)
  then have "\<exists>u. fst (buffer_push (WindowsHost api) bytes b0) = Inr u"
    using push_windows [of b0 bytes api] buffer_new_ok [OF b0 assms(3)] by (auto split: prod.splits sum.splits)
  with b0 show ?thesis
    using assms(1) by (auto simp: buffer_seal_def seal_allocation_def api_works_def)
qed

lemma emit_succeeds:
  assumes "instructions b \<noteq> []" "block_end b \<noteq> None" "byte_len b = len_sum (instructions b)"
    and "length (instructions b) < 2 ^ 26" "api_works api"
  shows "\<exists>e. emit (WindowsHost api) b = Inr e \<and>
    source_map e = \<lparr>map_ranges = ranges_of 0 (takeWhile in_subset (instructions b)), map_faults = []\<rparr>"
proof -
  let ?is = "instructions b"
  obtain last_va where va: "block_end b = Some last_va"
    using assms(2) by blast
  have "ins_len i < 2 ^ 32" if "i \<in> set ?is" for i
    using that va member_le_sum_list [of "ins_len i" "map ins_len ?is"]
    by (auto simp: block_end_def assms(3) len_sum_def u32_try_from_def split: if_splits)
  then obtain es where es: "emit_loop (block_start b) ?is
      \<lparr>asm = [], emit_ranges = [], emit_translated = 0, emit_exit = DirectSuccessor, emit_eip = last_va\<rparr> = Inr es"
      "emit_ranges es = ranges_of 0 (takeWhile in_subset ?is)"
    using emit_loop_succeeds [of "\<lparr>asm = [], emit_ranges = [], emit_translated = 0, emit_exit = DirectSuccessor, emit_eip = last_va\<rparr>"
        ?is "block_start b"] assms(4) by auto
  let ?bytes = "asm es @ epilogue (emit_eip es) (emit_exit es)"
  have "length (asm es) < 2 ^ 32"
    using emit_loop_result [OF es(1)] by auto
  then obtain b0 u sealed where "buffer_new (WindowsHost api) (length ?bytes) = Inr b0"
      "fst (buffer_push (WindowsHost api) ?bytes b0) = Inr u" "buffer_seal (WindowsHost api) (snd (buffer_push (WindowsHost api) ?bytes b0)) = Inr sealed"
    using buffer_works [OF assms(5), of ?bytes] by (auto simp: epilogue_def)
  moreover have "check_ranges None (emit_ranges es) = Inr ()" "sorted (map host_start (emit_ranges es))"
    unfolding es(2) using ranges_of_check [of 0 "takeWhile in_subset ?is" None] length_takeWhile_le [of in_subset ?is] assms(4) by auto
  ultimately show ?thesis
    using assms(1) es va by (simp add: emit_def source_map_new_def sort_key_id_if_sorted Let_def)
qed

text \<open>A block of two instructions to run: an addition, which is translated, and a return, which is not.\<close>

definition subset_decoder :: stream_decoder where
  "subset_decoder bytes ip =
     (if hd bytes = 0x83 then add_eax_5\<lparr>ins_ip := ip, ins_len := min 3 (length bytes)\<rparr>
      else plain_instruction\<lparr>ins_ip := ip, ins_mnemonic := ''Ret'', ins_flow_control := FlowOther 3\<rparr>)"

definition sample_block :: DecodedBlock where
  "sample_block = \<lparr>block_start = 0x1000,
     instructions = [subset_decoder [0x83, 0xC0, 5, 0xC3] 0x1000, subset_decoder [0xC3] 0x1003],
     byte_len = 4, stop = ControlFlow (FlowOther 3)\<rparr>"

lemma subset_decoder_ok: "stream_ok subset_decoder"
  by (auto simp: stream_ok_def subset_decoder_def plain_instruction_def Suc_le_eq)

lemma subset_decoder_fields:
  "ins_len (subset_decoder bytes ip) = (if hd bytes = 0x83 then min 3 (length bytes) else 1)"
  "\<not> ins_is_invalid (subset_decoder bytes ip)"
  "ins_flow_control (subset_decoder bytes ip) = (if hd bytes = 0x83 then FlowNext else FlowOther 3)"
  by (simp_all add: subset_decoder_def plain_instruction_def add_eax_5_def)

lemma subset_decoder_class: "in_subset (subset_decoder bytes ip) \<longleftrightarrow> hd bytes = 0x83"
  by (simp add: in_subset_def subset_decoder_def plain_instruction_def classify_register_op_def add_eax_5_def alu_op_def
      gpr32_def source_def gpr_from_register_def)

lemma sample_block_decoded:
  "decode_block subset_decoder \<lparr>max_instructions = Suc (Suc 0), max_bytes = 16\<rparr> 0x1000 [0x83, 0xC0, 5, 0xC3] = Inr sample_block"
  by (simp add: decode_block_def sample_block_def subset_decoder_fields Let_def)

lemma sample_block_end: "block_end sample_block = Some 0x1004"
  by (simp add: block_end_def sample_block_def u32_try_from_def va_checked_add_def checked_add_def)

lemma sample_api_works: "api_works sample_api"
  by (simp add: api_works_def sample_api_def)

lemma sample_block_emitted: "\<exists>e. emit (WindowsHost sample_api) sample_block = Inr e"
  using emit_succeeds [of sample_block sample_api] sample_block_end sample_api_works
  by (auto simp: sample_block_def len_sum_def subset_decoder_fields)

text \<open>C27. Generated code does what the interpreter does: on every host whose arithmetic leaves the documented flags,
  whatever its other registers hold, running the machine code emitted for a decoded block returns through
  its epilogue; the processor state is exactly what the register-only interpreter makes of it over the
  translated instructions, instruction pointer included; the exit reported is the direct successor when
  the whole block was translated, and otherwise the unsupported instruction the state points at, which
  is the first one outside the subset.\<close>

theorem translated_block_correct:
  assumes "decode_block decoder config start bytes = Inr b" "stream_ok decoder" "emit host b = Inr e" "host_alu fl"
    and "eip s = start"
  shows "\<exists>s'. step_all (take (translated_instructions e) (instructions b)) s = Inr s' \<and>
    dispatcher_run (host_enter fl h) e s = Some (Inr (static_exit e), s') \<and>
    static_exit e = (if translated_instructions e = length (instructions b) then DirectSuccessor else UnsupportedInstruction) \<and>
    (\<forall>i. translated_instructions e < length (instructions b) \<longrightarrow> i = instructions b ! translated_instructions e \<longrightarrow>
       classify_register_op i = None \<and> eip s' = ip_address i)"
proof -
  let ?is = "instructions b" and ?n = "translated_instructions e"
  let ?pre = "takeWhile in_subset ?is"
  obtain last_va where e: "?n = length ?pre" "block_end b = Some last_va" "(static_exit e, exit_eip e) =
      (case dropWhile in_subset ?is of [] \<Rightarrow> (DirectSuccessor, last_va) | i # _ \<Rightarrow> (UnsupportedInstruction, ip_address i))"
    using emit_result [OF assms(3)] by auto
  have pre: "?pre = take ?n ?is" "\<forall>i \<in> set ?pre. in_subset i" "?n \<le> length ?is"
    by (simp_all add: e takeWhile_eq_take [symmetric] length_takeWhile_le) (auto dest: set_takeWhileD)
  have drop: "dropWhile in_subset ?is = drop ?n ?is"
    by (simp add: dropWhile_eq_drop e)
  have exit: "static_exit e = (if ?n = length ?is then DirectSuccessor else UnsupportedInstruction)"
    "exit_eip e = (if ?n = length ?is then last_va else ip_address (?is ! ?n))"
    using e(3) pre(3) unfolding drop by (auto split: list.splits simp: Cons_nth_drop_Suc [symmetric] le_eq_less_or_eq)
  have "classify_register_op (?is ! ?n) = None" if "?n < length ?is"
    using that nth_length_takeWhile [of in_subset ?is] by (simp add: e(1) in_subset_def)
  then show ?thesis
    using step_all_subset [OF pre(2), of s] emitted_block_runs [OF assms(3,4), of h s]
      exit_address [OF assms(1,2) e(2) pre(3)] exit
    by (auto simp: pre(1) assms(5) split: if_splits)
qed

theorem translated_block_correct_witness:
  "\<exists>e s'. emit (WindowsHost sample_api) sample_block = Inr e \<and>
     step_all (take (translated_instructions e) (instructions sample_block)) (cpu_default\<lparr>eip := 0x1000\<rparr>) = Inr s' \<and>
     dispatcher_run (host_enter interpreter_flags \<lparr>h_reg = \<lambda>_. 7, h_flags = 2, h_stack = [], h_base = 0x7000, h_cpu = cpu_default\<rparr>) e
       (cpu_default\<lparr>eip := 0x1000\<rparr>) = Some (Inr (static_exit e), s')"
proof -
  obtain e where e: "emit (WindowsHost sample_api) sample_block = Inr e"
    using sample_block_emitted by blast
  then show ?thesis
    using translated_block_correct [OF sample_block_decoded subset_decoder_ok e interp_alu.host_alu_axioms,
        of "cpu_default\<lparr>eip := 0x1000\<rparr>" "\<lparr>h_reg = \<lambda>_. 7, h_flags = 2, h_stack = [], h_base = 0x7000, h_cpu = cpu_default\<rparr>"]
    by auto
qed

text \<open>C28. Generated code keeps the calling convention it was emitted for: run on any host with RCX at the processor
  state, it returns with the stack balanced and every register other than RAX and RDX as it was.\<close>

theorem translated_block_keeps_host:
  assumes "emit host b = Inr e" "host_alu fl"
  shows "\<exists>h'. host_run fl (machine_code e) (entered h s) = Some h' \<and> h_stack h' = [] \<and>
    (\<forall>r. r \<notin> {RAX, RDX} \<longrightarrow> h_reg h' r = h_reg (entered h s) r)"
  using emit_result [OF assms(1)] host_alu.run_block [OF assms(2), of "entered h s" "takeWhile in_subset (instructions b)"
      "exit_eip e" "static_exit e"]
  by (auto simp: host_kept_def)

theorem translated_block_keeps_host_witness:
  "\<exists>e h'. emit (WindowsHost sample_api) sample_block = Inr e \<and>
     host_run interpreter_flags (machine_code e)
       (entered \<lparr>h_reg = \<lambda>_. 7, h_flags = 2, h_stack = [], h_base = 0x7000, h_cpu = cpu_default\<rparr> cpu_default) = Some h' \<and> h_reg h' 3 = 7"
proof -
  obtain e where e: "emit (WindowsHost sample_api) sample_block = Inr e"
    using sample_block_emitted by blast
  then show ?thesis
    using translated_block_keeps_host [OF e interp_alu.host_alu_axioms,
        of "\<lparr>h_reg = \<lambda>_. 7, h_flags = 2, h_stack = [], h_base = 0x7000, h_cpu = cpu_default\<rparr>" cpu_default]
    by (auto simp: entered_def)
qed

text \<open>C29. Emission succeeds and its metadata is exact: for every decoded block that is not empty, ends inside the guest address
  space and has fewer than 2 to the 26 instructions, on a host whose calls succeed, the emitter gives a
  block in execute-read pages, and each host offset inside the code of the k-th translated
  instruction maps back to the address of that instruction.\<close>

theorem emission_total:
  assumes "decode_block decoder config start bytes = Inr b" "stream_ok decoder" "instructions b \<noteq> []" "block_end b \<noteq> None"
    and "max_instructions config < 2 ^ 26" "api_works api"
  shows "\<exists>e. emit (WindowsHost api) b = Inr e \<and> protection (imp (code e)) = PAGE_EXECUTE_READ \<and>
    (\<forall>k x. k < translated_instructions e \<longrightarrow> length (block_code (take k (instructions b))) \<le> unat x \<longrightarrow>
       unat x < length (block_code (take (Suc k) (instructions b))) \<longrightarrow>
       map_option range_guest_ip (source_for_host_offset (source_map e) x) = Some (ip_address (instructions b ! k)))"
proof -
  let ?is = "instructions b" and ?pre = "takeWhile in_subset (instructions b)"
  note b = decode_block_linear [OF assms(1,2)]
  have short: "length ?is < 2 ^ 26"
    using b assms(5) by linarith
  obtain e where e: "emit (WindowsHost api) b = Inr e" "source_map e = \<lparr>map_ranges = ranges_of 0 ?pre, map_faults = []\<rparr>"
    using emit_succeeds [OF assms(3,4) _ short assms(6)] b by (auto simp: len_sum_def)
  have n: "translated_instructions e = length ?pre" "?pre = take (length ?pre) ?is" "length ?pre \<le> length ?is"
    using emit_result [OF e(1)] by (simp_all add: takeWhile_eq_take [symmetric] length_takeWhile_le)
  have bound: "0 + 33 * length ?pre < 2 ^ 32"
    using n(3) short by simp
  note ranges = check_ranges_sorted [OF conjunct1 [OF ranges_of_check [OF bound, of None]]] ranges_of_check [OF bound, of None]
  have "map_option range_guest_ip (source_for_host_offset (source_map e) x) = Some (ip_address (?is ! k))"
    if k: "k < length ?pre" and x: "length (block_code (take k ?is)) \<le> unat x" "unat x < length (block_code (take (Suc k) ?is))" for k x
  proof -
    have take: "take k ?pre = take k ?is" "take (Suc k) ?pre = take (Suc k) ?is" "?pre ! k = ?is ! k"
      using k n(2) by (metis less_imp_le_nat min.absorb1 take_take, metis Suc_leI min.absorb1 take_take, metis nth_take)
    have "length (block_code (take (Suc k) ?is)) < 2 ^ 32"
      using block_code_length [of "take (Suc k) ?is"] short by (simp add: min_def split: if_splits)
    then have "host_start (ranges_of 0 ?pre ! k) \<le> x \<and> x < host_end (ranges_of 0 ?pre ! k)"
      using x by (simp add: nth_ranges_of [OF k] take word_le_nat_alt word_less_nat_alt unat_of_nat)
    moreover have "ranges_of 0 ?pre ! k \<in> set (ranges_of 0 ?pre)"
      using k by (intro nth_mem) simp
    ultimately have "source_for_host_offset (source_map e) x = Some (ranges_of 0 ?pre ! k)"
      using ranges by (subst source_lookup) (simp_all add: e(2))
    then show ?thesis
      by (simp add: nth_ranges_of [OF k] take)
  qed
  then show ?thesis
    using e emit_result [OF e(1)] n(1) by auto
qed

theorem emission_total_witness:
  "\<exists>e. emit (WindowsHost sample_api) sample_block = Inr e \<and> protection (imp (code e)) = PAGE_EXECUTE_READ"
  using emission_total [OF sample_block_decoded subset_decoder_ok, of sample_api] sample_block_end sample_api_works
  by (auto simp: sample_block_def)

end
