(* ===== verification/Insn_Cache.thy ===== *)
theory Insn_Cache
  imports Exec_Step Space_Mapping
begin

text \<open>
  The decoded-instruction cache of the interpreter, \<^verbatim>\<open>exbawks-cpu/src/cache.rs\<close>, and the step that uses it.
  The cache is a direct-mapped vector; a hit is validated by the physical pages behind the
  instruction and their generations.
\<close>

unbundle bit_operations_syntax

record CacheEntry =
  entry_eip :: u32
  entry_pages :: "(GuestPage \<times> u16) list"
  entry_page_count :: nat
  entry_instruction :: Instruction

type_synonym InstructionCache = "CacheEntry list"

definition CACHE_ENTRIES :: nat where
  "CACHE_ENTRIES = 2 ^ 16"

text \<open>The library's default instruction is a parameter.\<close>

definition cache_entry_default :: "Instruction \<Rightarrow> CacheEntry" where
  "cache_entry_default none_instruction =
     \<lparr>entry_eip = 0xFFFFFFFF, entry_pages = [(0, 0), (0, 0)], entry_page_count = 0, entry_instruction = none_instruction\<rparr>"

definition cache_new :: "Instruction \<Rightarrow> InstructionCache" where
  "cache_new none_instruction = replicate CACHE_ENTRIES (cache_entry_default none_instruction)"

definition slot :: "u32 \<Rightarrow> nat" where
  "slot ip = unat ip AND (CACHE_ENTRIES - 1)"

text \<open>The loop over the pages of an entry, from the page \<open>index\<close> on.\<close>

fun pages_valid :: "u32 \<Rightarrow> PageTable \<Rightarrow> nat \<Rightarrow> (GuestPage \<times> u16) list \<Rightarrow> bool" where
  "pages_valid ip t index [] \<longleftrightarrow> True"
| "pages_valid ip t index ((page, gen) # ps) \<longleftrightarrow>
     physical_page (pt_get t (ip div 4096 + word_of_nat index)) = page \<and>
     physical_generation t page = Some gen \<and>
     pages_valid ip t (index + 1) ps"

definition cache_get :: "u32 \<Rightarrow> PageTable \<Rightarrow> InstructionCache \<Rightarrow> Instruction option" where
  "cache_get ip t c =
     (let e = c ! slot ip in
      if entry_eip e \<noteq> ip then None
      else if pages_valid ip t 0 (take (entry_page_count e) (entry_pages e)) then Some (entry_instruction e)
      else None)"

text \<open>The loop of \<^verbatim>\<open>put\<close> over the virtual pages of an instruction; \<open>None\<close> is its early return.\<close>

fun put_pages :: "PageTable \<Rightarrow> GuestPage list \<Rightarrow> (GuestPage \<times> u16) list \<Rightarrow> nat \<Rightarrow> ((GuestPage \<times> u16) list \<times> nat) option" where
  "put_pages t [] ps n = Some (ps, n)"
| "put_pages t (v # vs) ps n =
     (let d = pt_get t v in
      if kind d \<noteq> KindRam then None
      else case physical_generation t (physical_page d) of
             None \<Rightarrow> None
           | Some gen \<Rightarrow>
               let ps' = ps[n := (physical_page d, gen)] in
               if n + 1 = 2 then Some (ps', n + 1) else put_pages t vs ps' (n + 1))"

definition cache_put :: "u32 \<Rightarrow> Instruction \<Rightarrow> PageTable \<Rightarrow> InstructionCache \<Rightarrow> InstructionCache" where
  "cache_put ip i t c =
     (let first = ip div 4096;
          final = (ip + ins_len32 i - 1) div 4096 in
      case put_pages t (map word_of_nat [unat first ..< unat (max final first) + 1]) [(0, 0), (0, 0)] 0 of
        None \<Rightarrow> c
      | Some (ps, n) \<Rightarrow> c[slot ip := \<lparr>entry_eip = ip, entry_pages = ps, entry_page_count = n, entry_instruction = i\<rparr>])"

definition step_cached ::
    "'m guest_memory \<Rightarrow> decoder \<Rightarrow> 'm port_bus \<Rightarrow> 'm exec_unit \<Rightarrow> 'm exec_unit \<Rightarrow> InstructionCache \<Rightarrow> 'm mach \<Rightarrow>
     ((ExecError + unit) \<times> 'm mach) \<times> InstructionCache" where
  "step_cached gm decode ports x87_execute sse_execute c m =
     (let address = eip (cpu m) in
      case cache_get address (gm_page_table gm (mem m)) c of
        Some i \<Rightarrow> (step_decoded gm ports x87_execute sse_execute i address m, c)
      | None \<Rightarrow>
          (case decode_at gm decode address address m of
             (Inl e, m') \<Rightarrow> ((Inl e, m'), c)
           | (Inr i, m') \<Rightarrow>
               (step_decoded gm ports x87_execute sse_execute i address m',
                cache_put address i (gm_page_table gm (mem m')) c)))"

section \<open>What a hit depends on\<close>

lemma slot_less: "slot ip < CACHE_ENTRIES"
proof -
  have "slot ip = take_bit 16 (unat ip)"
    by (simp add: slot_def CACHE_ENTRIES_def take_bit_eq_mask mask_eq_exp_minus_1)
  then show ?thesis
    using take_bit_nat_less_exp [of 16 "unat ip"] by (simp add: CACHE_ENTRIES_def)
qed

lemma unat_page_of: "unat (ip div 4096) = unat ip div 4096" for ip :: u32
  by (simp add: unat_div)

text \<open>The virtual pages of an instruction that does not run past the address space.\<close>

definition insn_pages :: "u32 \<Rightarrow> nat \<Rightarrow> GuestPage list" where
  "insn_pages ip len = map word_of_nat [unat ip div 4096 ..< (unat ip + len - 1) div 4096 + 1]"

lemma put_page_list:
  assumes "0 < ins_len i" "unat ip + ins_len i \<le> 4294967296"
  shows "map word_of_nat [unat (ip div 4096) ..< unat (max ((ip + ins_len32 i - 1) div 4096) (ip div 4096)) + 1] =
    insn_pages ip (ins_len i)"
proof -
  obtain k where k: "ins_len i = Suc k"
    using assms(1) by (cases "ins_len i") auto
  then have "unat (ip + ins_len32 i - 1) = unat ip + ins_len i - 1"
    using assms(2) by (simp add: ins_len32_def unat_word_ariths unat_of_nat)
  moreover have "unat ip div 4096 \<le> (unat ip + ins_len i - 1) div 4096"
    using assms(1) by (intro div_le_mono) simp
  ultimately have "unat (max ((ip + ins_len32 i - 1) div 4096) (ip div 4096)) = (unat ip + ins_len i - 1) div 4096"
    by (simp add: max_def word_le_nat_alt unat_page_of)
  then show ?thesis
    by (simp only: insn_pages_def unat_page_of)
qed

section \<open>Histories of an address space\<close>

text \<open>The operations that change mappings or bytes between two uses of a cache.\<close>

datatype space_op =
    GuestWrite GuestVa "u8 list"
  | MapAnonymous GuestRange MemoryPermissions
  | MapAlias GuestRange GuestPa MemoryPermissions
  | Protect GuestRange MemoryPermissions

fun run_op :: "space_op \<Rightarrow> SoftwareAddressSpace \<Rightarrow> SoftwareAddressSpace" where
  "run_op (GuestWrite a bs) s = snd (sas_access_write a bs s)"
| "run_op (MapAnonymous r p) s = snd (map_anonymous r p s)"
| "run_op (MapAlias r pa p) s = snd (map_alias r pa p s)"
| "run_op (Protect r p) s = snd (sas_protect r p s)"

fun op_ok :: "space_op \<Rightarrow> bool" where
  "op_ok (GuestWrite a bs) = True"
| "op_ok (MapAnonymous r p) = range_ok r"
| "op_ok (MapAlias r pa p) = range_ok r"
| "op_ok (Protect r p) = range_ok r"

text \<open>How often an operation can bump one generation.\<close>

fun op_bumps :: "space_op \<Rightarrow> nat" where
  "op_bumps (GuestWrite a bs) = length bs div 4096 + 2"
| "op_bumps _ = 0"

definition page_bytes :: "SoftwareAddressSpace \<Rightarrow> GuestPage \<Rightarrow> nat \<Rightarrow> u8" where
  "page_bytes s q off = ram s (unat q * 4096 + off)"

definition page_gen :: "SoftwareAddressSpace \<Rightarrow> GuestPage \<Rightarrow> u16" where
  "page_gen s q = physical_generations (table s) (unat q)"

text \<open>A mapping operation touches neither bytes nor generations.\<close>

lemma mapping_quiet:
  assumes "op_ok op" "op_bumps op = 0"
  shows "ram (run_op op s) = ram s \<and> physical_generations (table (run_op op s)) = physical_generations (table s) \<and>
    physical_len (run_op op s) = physical_len s"
proof (cases op)
  case (MapAnonymous r p)
  then show ?thesis
    using assms ram_op.gens_always [of "(r, _, p)" "table s"]
    by (auto simp: map_anonymous_def bind_s_def gets_r_def bump_mapping_epoch_def split: sum.splits prod.splits)
next
  case (MapAlias r pa p)
  then show ?thesis
    using assms ram_op.gens_always [of "(r, va_page pa, p)" "table s"]
    by (auto simp: map_alias_def bind_s_def gets_r_def modify_def on_table_def bump_mapping_epoch_def split: sum.splits prod.splits)
next
  case (Protect r p)
  then show ?thesis
    using assms protect_op.gens_always [of "(r, p)" "table s"]
    by (auto simp: sas_protect_def bind_s_def modify_def on_table_def bump_mapping_epoch_def split: sum.splits prod.splits)
qed (use assms in simp)

lemma write_bumps:
  "\<exists>k \<le> op_bumps (GuestWrite a bs). page_gen (run_op (GuestWrite a bs) s) q = page_gen s q + word_of_nat k \<and>
    (k = 0 \<longrightarrow> (\<forall>off < 4096. page_bytes (run_op (GuestWrite a bs) s) q off = page_bytes s q off))"
proof (cases rule: sas_write_cases [of a bs s])
  case 1
  show ?thesis
  proof (cases "bs = []")
    case False
    then obtain r where r: "range_new a (length bs) = Inr r"
      using range_new_in_space [of "length bs" a] 1(1) by auto
    let ?k = "length (filter (ram_backed (table s) q) (pages r))"
    have "page_bytes (run_op (GuestWrite a bs) s) q off = page_bytes s q off" if "?k = 0" "off < 4096" for off
    proof -
      have "unat q * 4096 + off \<noteq> paddr (table s) (a + word_of_nat i)" if "i < length bs" for i
      proof
        assume eq: "unat q * 4096 + off = paddr (table s) (a + word_of_nat i)"
        then have "(unat q * 4096 + off) div 4096 = paddr (table s) (a + word_of_nat i) div 4096"
          by simp
        then have "physical_page (pt_get (table s) (va_page (a + word_of_nat i))) = q"
          using \<open>off < 4096\<close> page_offset_less [of "a + word_of_nat i"] by (simp add: paddr_def unat_inj_iff [symmetric])
        then have "ram_backed (table s) q (va_page (a + word_of_nat i))"
          using 1(2) \<open>i < length bs\<close> by (simp add: accessible_def granted_def ram_backed_def Let_def)
        moreover have "unat (a + word_of_nat i) = unat a + i"
          using 1(1) \<open>i < length bs\<close> by (simp add: in_space_def unat_word_ariths unat_of_nat)
        then have "va_page (a + word_of_nat i) \<in> set (pages r)"
          using r \<open>i < length bs\<close> range_new_ok [OF r]
          by (intro va_page_in_pages) (auto simp: range_contains_def range_new_Inr_iff end_exclusive_def)
        ultimately show False
          using \<open>?k = 0\<close> by (auto simp: filter_empty_conv)
      qed
      then show ?thesis
        using 1(3) by (simp add: page_bytes_def) (rule store_bytes_other, auto)
    qed
    moreover have "?k \<le> op_bumps (GuestWrite a bs)"
      using order.trans [OF length_filter_le page_count_le [OF r]] by simp
    moreover have "page_gen (run_op (GuestWrite a bs) s) q = page_gen s q + word_of_nat ?k"
      using 1(3) r bump_pages_effect [of "pages r" "table s" q] by (simp add: page_gen_def bump_written_generations_def)
    ultimately show ?thesis
      by blast
  qed (use 1(3) in \<open>auto simp: sas_access_write_def ret_def\<close>)
qed auto

lemma history_bumps:
  assumes "\<forall>op \<in> set ops. op_ok op"
  shows "\<exists>k \<le> sum_list (map op_bumps ops). page_gen (fold run_op ops s) q = page_gen s q + word_of_nat k \<and>
    (k = 0 \<longrightarrow> (\<forall>off < 4096. page_bytes (fold run_op ops s) q off = page_bytes s q off))"
  using assms
proof (induction ops arbitrary: s)
  case (Cons op ops)
  have "\<exists>k \<le> op_bumps op. page_gen (run_op op s) q = page_gen s q + word_of_nat k \<and>
      (k = 0 \<longrightarrow> (\<forall>off < 4096. page_bytes (run_op op s) q off = page_bytes s q off))"
  proof (cases "\<exists>a bs. op = GuestWrite a bs")
    case True
    then show ?thesis
      using write_bumps by blast
  next
    case False
    then have "op_bumps op = 0"
      by (cases op) auto
    then show ?thesis
      using mapping_quiet [of op s] Cons.prems by (auto simp: page_gen_def page_bytes_def)
  qed
  then obtain k where k: "k \<le> op_bumps op" "page_gen (run_op op s) q = page_gen s q + word_of_nat k"
      "k = 0 \<longrightarrow> (\<forall>off < 4096. page_bytes (run_op op s) q off = page_bytes s q off)"
    by blast
  obtain l where l: "l \<le> sum_list (map op_bumps ops)" "page_gen (fold run_op ops (run_op op s)) q = page_gen (run_op op s) q + word_of_nat l"
      "l = 0 \<longrightarrow> (\<forall>off < 4096. page_bytes (fold run_op ops (run_op op s)) q off = page_bytes (run_op op s) q off)"
    using Cons.IH [of "run_op op s"] Cons.prems by auto
  show ?case
    by (rule exI [of _ "k + l"]) (use k l in \<open>auto simp: add.assoc\<close>)
qed (auto intro: exI [of _ 0])

text \<open>An unchanged generation means unchanged bytes, as long as fewer bumps than generations happened.\<close>

lemma quiet_page:
  assumes "\<forall>op \<in> set ops. op_ok op" "sum_list (map op_bumps ops) < 65536"
    and "page_gen (fold run_op ops s) q = page_gen s q" "off < 4096"
  shows "page_bytes (fold run_op ops s) q off = page_bytes s q off"
proof -
  obtain k where k: "k \<le> sum_list (map op_bumps ops)" "page_gen (fold run_op ops s) q = page_gen s q + word_of_nat k"
      "k = 0 \<longrightarrow> (\<forall>off < 4096. page_bytes (fold run_op ops s) q off = page_bytes s q off)"
    using history_bumps [OF assms(1)] by blast
  then have "(word_of_nat k :: u16) = 0"
    using assms(3) by simp
  then have "k = 0"
    using k(1) assms(2) by (auto simp: word_of_nat_eq_0_iff dest: dvd_imp_le)
  then show ?thesis
    using k(3) assms(4) by blast
qed

section \<open>Hits\<close>

text \<open>The page behind a virtual page is the same in both tables, and so is its generation.\<close>

definition same_backing :: "PageTable \<Rightarrow> PageTable \<Rightarrow> GuestPage \<Rightarrow> bool" where
  "same_backing t t' v \<longleftrightarrow> physical_page (pt_get t' v) = physical_page (pt_get t v) \<and>
     physical_generation t' (physical_page (pt_get t v)) = physical_generation t (physical_page (pt_get t v))"

lemma generation_known: "\<exists>g. physical_generation t (physical_page d) = Some g"
  using physical_page_in_table [of d] by (simp add: physical_generation_def page_index_def)

lemma page_of_div: "ip div 4096 = va_page ip" for ip :: u32
  by (simp add: unat_inj_iff [symmetric] unat_va_page unat_page_of)

lemma insn_pages_cases:
  assumes "0 < len" "len \<le> 15" "unat ip + len \<le> 4294967296"
  shows "insn_pages ip len = [va_page ip] \<and> len \<le> to_page_end ip \<or>
    insn_pages ip len = [va_page ip, va_page ip + 1] \<and> to_page_end ip < len"
proof -
  have end': "to_page_end ip = 4096 - unat ip mod 4096"
    using unat_page_offset [of ip] by (simp add: to_page_end_def page_offset_def)
  have v: "word_of_nat (unat ip div 4096) = va_page ip"
    by (simp add: unat_va_page [symmetric])
  show ?thesis
  proof (cases "len \<le> to_page_end ip")
    case True
    then have "(unat ip + (len - 1)) div 4096 = unat ip div 4096"
      using assms(1) by (intro nat_in_page(1)) (auto simp: end')
    then show ?thesis
      using True assms(1) by (simp add: insn_pages_def v)
  next
    case False
    have "(unat ip + len - 1) div 4096 = unat ip div 4096 + 1"
    proof (rule div_nat_eqI)
      show "4096 * (unat ip div 4096 + 1) \<le> unat ip + len - 1" "unat ip + len - 1 < 4096 * Suc (unat ip div 4096 + 1)"
        using False assms(2) div_mult_mod_eq [of "unat ip" 4096] mod_less_divisor [of 4096 "unat ip"]
        unfolding end' mult_Suc_right distrib_left by linarith+
    qed
    then show ?thesis
      using False by (simp add: insn_pages_def v)
  qed
qed

text \<open>Recording an instruction whose pages are RAM, and looking it up: a hit exactly when its pages kept their backing.\<close>

lemma put_get:
  assumes "length c = CACHE_ENTRIES" "0 < ins_len i" "ins_len i \<le> 15" "unat ip + ins_len i \<le> 4294967296"
    and "\<forall>v \<in> set (insn_pages ip (ins_len i)). kind (pt_get t v) = KindRam"
  shows "cache_get ip t' (cache_put ip i t c) =
    (if \<forall>v \<in> set (insn_pages ip (ins_len i)). same_backing t t' v then Some i else None)"
proof -
  have c: "slot ip < length c"
    using slot_less assms(1) by simp
  obtain g where g: "physical_generation t (physical_page (pt_get t (va_page ip))) = Some g"
    using generation_known by blast
  obtain g' where g': "physical_generation t (physical_page (pt_get t (va_page ip + 1))) = Some g'"
    using generation_known by blast
  note put = cache_put_def [of ip i t c, unfolded Let_def put_page_list [OF assms(2,4)]]
  from insn_pages_cases [OF assms(2-4)] show ?thesis
  proof (elim disjE conjE)
    assume p: "insn_pages ip (ins_len i) = [va_page ip]"
    then have "cache_put ip i t c = c[slot ip := \<lparr>entry_eip = ip,
        entry_pages = [(physical_page (pt_get t (va_page ip)), g), (0, 0)], entry_page_count = 1, entry_instruction = i\<rparr>]"
      using assms(5) g by (simp add: put)
    then show ?thesis
      using c by (simp add: cache_get_def p same_backing_def page_of_div g)
  next
    assume p: "insn_pages ip (ins_len i) = [va_page ip, va_page ip + 1]"
    then have "cache_put ip i t c = c[slot ip := \<lparr>entry_eip = ip,
        entry_pages = [(physical_page (pt_get t (va_page ip)), g), (physical_page (pt_get t (va_page ip + 1)), g')],
        entry_page_count = 2, entry_instruction = i\<rparr>]"
      using assms(5) g g' by (simp add: put numeral_2_eq_2)
    then show ?thesis
      using c by (simp add: cache_get_def p same_backing_def page_of_div g g')
  qed
qed

text \<open>Bytes fetched through pages that kept their backing are the bytes fetched before.\<close>

definition kept_page :: "SoftwareAddressSpace \<Rightarrow> SoftwareAddressSpace \<Rightarrow> GuestPage \<Rightarrow> bool" where
  "kept_page s s' v \<longleftrightarrow> (let q = physical_page (pt_get (table s) v) in
     physical_page (pt_get (table s') v) = q \<and> (\<forall>off < 4096. page_bytes s' q off = page_bytes s q off))"

lemma load_kept:
  assumes "\<forall>i < n. kept_page s s' (va_page (a + word_of_nat i))"
  shows "load_bytes (table s') a n (ram s') = load_bytes (table s) a n (ram s)"
  using assms by (auto simp: load_bytes_def kept_page_def page_bytes_def Let_def paddr_def)

lemma backing_kept:
  assumes "\<forall>op \<in> set ops. op_ok op" "sum_list (map op_bumps ops) < 65536" "same_backing (table s) (table (fold run_op ops s)) v"
  shows "kept_page s (fold run_op ops s) v"
  using assms(3) quiet_page [OF assms(1,2)] physical_page_in_table [of "pt_get (table s) v"]
  by (auto simp: kept_page_def same_backing_def physical_generation_def page_index_def page_gen_def Let_def)

text \<open>What the decoder library documents: an instruction lies within its input, and one that was cut short is longer
  than the input it was cut at.\<close>

definition decoder_ok :: "decoder \<Rightarrow> bool" where
  "decoder_ok decode \<longleftrightarrow>
     (\<forall>bytes ip. \<not> ins_is_invalid (fst (decode bytes ip)) \<longrightarrow>
        0 < ins_len (fst (decode bytes ip)) \<and> ins_len (fst (decode bytes ip)) \<le> length bytes) \<and>
     (\<forall>bytes more ip. ins_is_invalid (fst (decode bytes ip)) \<and> snd (decode bytes ip) \<and>
        \<not> ins_is_invalid (fst (decode (bytes @ more) ip)) \<longrightarrow> length bytes < ins_len (fst (decode (bytes @ more) ip)))"

definition fetchable :: "SoftwareAddressSpace \<Rightarrow> GuestVa \<Rightarrow> nat \<Rightarrow> bool" where
  "fetchable s a n \<longleftrightarrow> in_space a n \<and> accessible (table s) (physical_len s) Execute a n"

abbreviation (input) first_fetch :: "u32 \<Rightarrow> nat" where
  "first_fetch ip \<equiv> min MAX_INSTRUCTION_LEN (to_page_end ip)"

lemma fetch_sas:
  "on_mem (gm_fetch sas_memory a n) m =
     (if fetchable (mem m) a n then (Inr (load_bytes (table (mem m)) a n (ram (mem m))), m)
      else (Inl (Memory (projl (fst (sas_access_read Execute a n (mem m))))), m))"
  by (cases rule: sas_read_cases [of a n "mem m" Execute]) (auto simp: on_mem_def sas_memory_def fetchable_def)

lemma first_fetch_bound: "0 < first_fetch ip" "first_fetch ip \<le> 15" "first_fetch ip \<le> 4096 - unat (page_offset ip)"
  using page_offset_less [of ip] by (simp_all add: to_page_end_def page_offset_def MAX_INSTRUCTION_LEN_def)

lemma first_page: "j < first_fetch ip \<Longrightarrow> va_page (ip + word_of_nat j) = va_page ip"
  by (rule same_page(1)) (rule less_le_trans [OF _ first_fetch_bound(3)])

lemma second_page:
  assumes "first_fetch ip < 15" "j < 15 - first_fetch ip" "unat ip + 15 \<le> 4294967296"
  shows "va_page (ip + word_of_nat (first_fetch ip) + word_of_nat j) = va_page ip + 1"
proof -
  have f: "first_fetch ip = 4096 - unat ip mod 4096"
    using assms(1) unat_page_offset [of ip] by (simp add: to_page_end_def page_offset_def MAX_INSTRUCTION_LEN_def min_def split: if_splits)
  have "ip + word_of_nat (first_fetch ip) + word_of_nat j = ip + word_of_nat (first_fetch ip + j)"
    by simp
  also have "unat \<dots> = unat ip + (first_fetch ip + j)"
    using assms by (simp add: unat_word_ariths unat_of_nat del: of_nat_add)
  finally have u: "unat (ip + word_of_nat (first_fetch ip) + word_of_nat j) = unat ip + (4096 - unat ip mod 4096 + j)"
    by (simp only: f)
  have "(unat ip + (4096 - unat ip mod 4096 + j)) div 4096 = unat ip div 4096 + 1"
  proof (rule div_nat_eqI)
    show "4096 * (unat ip div 4096 + 1) \<le> unat ip + (4096 - unat ip mod 4096 + j)"
        "unat ip + (4096 - unat ip mod 4096 + j) < 4096 * Suc (unat ip div 4096 + 1)"
      using assms(2) div_mult_mod_eq [of "unat ip" 4096] mod_less_divisor [of 4096 "unat ip"]
      unfolding mult_Suc_right distrib_left by linarith+
  qed
  moreover have "unat (va_page ip + 1) = unat ip div 4096 + 1"
    using va_page_less [of ip] by (simp add: unat_word_ariths unat_va_page)
  ultimately show ?thesis
    by (simp add: unat_inj_iff [symmetric] unat_va_page u)
qed

text \<open>Decoding over the software address space, in terms of the bytes it fetches.\<close>

lemma decode_at_sas:
  "decode_at sas_memory decode ip ip m = (Inr i, m') \<longleftrightarrow> m' = m \<and> fetchable (mem m) ip (first_fetch ip) \<and>
    (let bytes = load_bytes (table (mem m)) ip (first_fetch ip) (ram (mem m));
         rest = ip + word_of_nat (first_fetch ip); more = load_bytes (table (mem m)) rest (15 - first_fetch ip) (ram (mem m)) in
     if \<not> ins_is_invalid (fst (decode bytes ip)) then i = fst (decode bytes ip)
     else snd (decode bytes ip) \<and> first_fetch ip < 15 \<and> fetchable (mem m) rest (15 - first_fetch ip) \<and>
       \<not> ins_is_invalid (fst (decode (bytes @ more) ip)) \<and> i = fst (decode (bytes @ more) ip))"
proof -
  have len: "length (load_bytes t a n r) = n" for t a n r
    by (simp add: load_bytes_def)
  show ?thesis
    by (auto simp: decode_at_def Let_def bind_s_Inr_iff fetch_sas decode_round_def ret_def throw_def case_prod_beta len
        MAX_INSTRUCTION_LEN_def split: if_splits)
qed

text \<open>How much is fetched to decode an instruction.\<close>

definition fetched_len :: "u32 \<Rightarrow> Instruction \<Rightarrow> nat" where
  "fetched_len ip i = (if ins_len i \<le> first_fetch ip then first_fetch ip else 15)"

lemma fetchable_split:
  assumes "n \<le> k" "fetchable s a k"
  shows "fetchable s a n" "fetchable s (a + word_of_nat n) (k - n)"
proof -
  show "fetchable s a n"
    using assms by (auto simp: fetchable_def in_space_def accessible_def)
  have "granted (table s) Execute (a + word_of_nat n + word_of_nat i) \<and>
      paddr (table s) (a + word_of_nat n + word_of_nat i) < physical_len s" if "i < k - n" for i
    using assms(2) that by (auto simp: fetchable_def accessible_def add.assoc simp flip: of_nat_add)
  moreover have "unat (a + word_of_nat n) \<le> unat a + n"
    by (simp add: unat_word_ariths unat_of_nat)
  ultimately show "fetchable s (a + word_of_nat n) (k - n)"
    using assms by (auto simp: fetchable_def in_space_def accessible_def)
qed

text \<open>The shape of an instruction that decoding gave.\<close>

lemma decoded_shape:
  assumes "decode_at sas_memory decode ip ip m = (Inr i, m')" "decoder_ok decode" "unat ip + 15 \<le> 4294967296"
  shows "0 < ins_len i \<and> ins_len i \<le> 15 \<and> (\<forall>v \<in> set (insn_pages ip (ins_len i)). kind (pt_get (table (mem m)) v) = KindRam)"
proof -
  let ?f = "first_fetch ip" and ?s = "mem m"
  have len: "length (load_bytes t a n r) = n" for t a n r
    by (simp add: load_bytes_def)
  note d = assms(1) [unfolded decode_at_sas Let_def]
  have first: "fetchable ?s ip ?f"
    using d by simp
  have ram1: "kind (pt_get (table ?s) (va_page ip)) = KindRam"
    using first first_fetch_bound(1) [of ip] by (auto simp: fetchable_def accessible_def granted_def Let_def dest!: spec [of _ 0])
  let ?b = "load_bytes (table ?s) ip ?f (ram ?s)" and ?rest = "ip + word_of_nat ?f"
  let ?more = "load_bytes (table ?s) ?rest (15 - ?f) (ram ?s)"
  have valid: "0 < ins_len (fst (decode bs ip)) \<and> ins_len (fst (decode bs ip)) \<le> length bs"
    if "\<not> ins_is_invalid (fst (decode bs ip))" for bs
    using that assms(2) by (simp add: decoder_ok_def)
  consider (one) "0 < ins_len i" "ins_len i \<le> ?f" | (two) "?f < ins_len i" "ins_len i \<le> 15" "?f < 15" "fetchable ?s ?rest (15 - ?f)"
  proof (cases "ins_is_invalid (fst (decode ?b ip))")
    case True
    then have i: "snd (decode ?b ip)" "?f < 15" "fetchable ?s ?rest (15 - ?f)" "\<not> ins_is_invalid (fst (decode (?b @ ?more) ip))"
        "i = fst (decode (?b @ ?more) ip)"
      using d by simp_all
    have "length ?b < ins_len i"
      using True i assms(2) by (simp add: decoder_ok_def)
    then show thesis
      using two i(2,3,5) valid [OF i(4)] by (simp add: len)
  next
    case False
    then show thesis
      using one d valid [OF False] by (simp add: len)
  qed
  then show ?thesis
  proof cases
    case one
    then have "ins_len i \<le> 15" "insn_pages ip (ins_len i) = [va_page ip]"
      using first_fetch_bound(2) [of ip] insn_pages_cases [of "ins_len i" ip] assms(3) by auto
    then show ?thesis
      using one ram1 by simp
  next
    case two
    have "kind (pt_get (table ?s) (va_page ip + 1)) = KindRam"
      using two(3,4) second_page [of ip 0] assms(3) by (auto simp: fetchable_def accessible_def granted_def Let_def dest!: spec [of _ 0])
    then show ?thesis
      using two ram1 insn_pages_cases [of "ins_len i" ip] assms(3) by auto
  qed
qed

text \<open>Decoding again, over pages that kept their bytes, gives the same instruction.\<close>

lemma decode_again:
  assumes "decode_at sas_memory decode ip ip m = (Inr i, m0)" "decoder_ok decode" "unat ip + 15 \<le> 4294967296"
    and "\<forall>v \<in> set (insn_pages ip (ins_len i)). kept_page (mem m) (mem m') v"
    and "fetchable (mem m') ip (fetched_len ip i)"
  shows "decode_at sas_memory decode ip ip m' = (Inr i, m')"
proof -
  let ?f = "first_fetch ip" and ?s = "mem m" and ?s' = "mem m'"
  let ?rest = "ip + word_of_nat ?f"
  let ?b = "load_bytes (table ?s) ip ?f (ram ?s)" and ?more = "load_bytes (table ?s) ?rest (15 - ?f) (ram ?s)"
  note shape = decoded_shape [OF assms(1-3)]
  note d = assms(1) [unfolded decode_at_sas Let_def]
  have "va_page ip \<in> set (insn_pages ip (ins_len i))"
    using insn_pages_cases [of "ins_len i" ip] shape assms(3) by auto
  then have bytes: "load_bytes (table ?s') ip ?f (ram ?s') = ?b"
    using assms(4) first_page by (intro load_kept) (metis)
  have fetch: "fetchable ?s' ip ?f"
    using assms(5) fetchable_split(1) [of ?f 15] first_fetch_bound(2) [of ip] by (auto simp: fetched_len_def split: if_splits)
  show ?thesis
  proof (cases "ins_is_invalid (fst (decode ?b ip))")
    case True
    then have i: "snd (decode ?b ip)" "?f < 15" "\<not> ins_is_invalid (fst (decode (?b @ ?more) ip))" "i = fst (decode (?b @ ?more) ip)"
      using d by simp_all
    have long: "?f < ins_len i"
      using True i assms(2) unfolding decoder_ok_def by (metis load_bytes_def length_map length_upt minus_nat.diff_0)
    then have "va_page ip + 1 \<in> set (insn_pages ip (ins_len i))"
      using insn_pages_cases [of "ins_len i" ip] shape assms(3) i(2) by (auto simp: MAX_INSTRUCTION_LEN_def min_def split: if_splits)
    then have "load_bytes (table ?s') ?rest (15 - ?f) (ram ?s') = ?more"
      using assms(3,4) i(2) second_page by (intro load_kept) (metis)
    moreover have "fetched_len ip i = 15"
      unfolding fetched_len_def using long by (intro if_not_P) (simp only: not_le)
    then have "fetchable ?s' ?rest (15 - ?f)"
      using assms(5) fetchable_split(2) [OF less_imp_le [OF i(2)]] by simp
    ultimately show ?thesis
      unfolding decode_at_sas Let_def using True i bytes fetch by simp
  next
    case False
    then show ?thesis
      unfolding decode_at_sas Let_def using d bytes fetch by simp
  qed
qed

text \<open>C31. Stepping through the instruction cache is stepping without it: take any instruction that was decoded and recorded
  in the cache, at least 15 bytes below the end of the address space, and any history of guest writes and mapping changes since, with fewer than 65536 possible
  bumps of a generation.  If the lookup then hits and its bytes may still be fetched, decoding afresh gives
  the very same instruction, and the cached step is the uncached step.\<close>

theorem cached_step_agrees:
  assumes "decode_at sas_memory decode ip ip m = (Inr i, m0)" "decoder_ok decode" "unat ip + 15 \<le> 4294967296"
    and "length c = CACHE_ENTRIES" "c' = cache_put ip i (table (mem m)) c"
    and "\<forall>op \<in> set ops. op_ok op" "sum_list (map op_bumps ops) < 65536" "mem m' = fold run_op ops (mem m)"
    and "eip (cpu m') = ip" "cache_get ip (table (mem m')) c' = Some i'" "fetchable (mem m') ip (fetched_len ip i)"
  shows "decode_at sas_memory decode ip ip m' = (Inr i', m') \<and>
    step_cached sas_memory decode ports x87_execute sse_execute c' m' =
      (step_with_ports sas_memory decode ports x87_execute sse_execute m', c')"
proof -
  note shape = decoded_shape [OF assms(1-3)]
  have hit: "i' = i" "\<forall>v \<in> set (insn_pages ip (ins_len i)). same_backing (table (mem m)) (table (mem m')) v"
    using put_get [OF assms(4), of i ip "table (mem m)" "table (mem m')"] shape assms(3,5,10) by (auto split: if_splits)
  have "decode_at sas_memory decode ip ip m' = (Inr i, m')"
    using backing_kept [OF assms(6,7)] hit(2) assms(8,11) by (intro decode_again [OF assms(1-3)]) auto
  then show ?thesis
    using hit(1) assms(9,10)
    by (simp add: step_cached_def step_with_ports_def Let_def cpu_g_def sas_memory_def [THEN arg_cong [where f = gm_page_table]] bind_s_apply gets_def)
qed

text \<open>One executable page, and a decoder that takes every byte for an instruction.\<close>

definition code_page :: SoftwareAddressSpace where
  "code_page =
     \<lparr>physical_len = 0x10000, ram = (\<lambda>_. 0x90),
      table = \<lparr>entries = (\<lambda>i. if i = 0x10 then desc_ram 2 (READ OR EXECUTE) 0 else 0), physical_generations = (\<lambda>_. 0)\<rparr>,
      allocator = pa_new 16, mapping_epoch = 0\<rparr>"

definition byte_decoder :: decoder where
  "byte_decoder bytes ip = (plain_instruction\<lparr>ins_is_invalid := (bytes = [])\<rparr>, False)"

lemma byte_decoder_ok: "decoder_ok byte_decoder"
  by (auto simp: decoder_ok_def byte_decoder_def plain_instruction_def Suc_le_eq)

lemma code_page_fetch: "fetchable code_page 0x10000 15"
proof -
  have "va_page (0x10000 + word_of_nat i) = 0x10" "unat (page_offset (0x10000 + word_of_nat i)) = i" if "i < 15" for i
    using same_page [where i = i and g = "0x10000"] that by (simp_all add: va_page_def page_offset_def)
  moreover have "pt_get (table code_page) 0x10 = desc_ram 2 (READ OR EXECUTE) 0"
    by (simp add: code_page_def pt_get_def page_index_def)
  ultimately show ?thesis
    by (simp add: fetchable_def in_space_def accessible_def granted_def paddr_def desc_ram_fields perm_contains_def code_page_def)
qed

lemma code_page_write: "run_op (GuestWrite 0x50000 [1]) code_page = code_page"
proof -
  have "\<not> accessible (table code_page) (physical_len code_page) Write 0x50000 (length [1 :: u8])"
    by (auto simp: accessible_def granted_def code_page_def pt_get_def page_index_def va_page_def is_valid_iff dest!: spec [of _ 0])
  then obtain e where "sas_access_write 0x50000 [1] code_page = (Inl e, code_page)"
    using sas_access_write_fails by blast
  then show ?thesis
    by simp
qed

lemma code_page_decode:
  "mem m = code_page \<Longrightarrow> decode_at sas_memory byte_decoder 0x10000 0x10000 m = (Inr (fst (byte_decoder [0] 0)), m)"
proof -
  have f: "first_fetch 0x10000 = 15"
    by (simp add: to_page_end_def MAX_INSTRUCTION_LEN_def)
  assume "mem m = code_page"
  then show ?thesis
    using code_page_fetch unfolding decode_at_sas Let_def f
    by (auto simp: byte_decoder_def load_bytes_def plain_instruction_def)
qed

theorem cached_step_agrees_witness:
  "\<exists>i c'. cache_get 0x10000 (table (run_op (GuestWrite 0x50000 [1]) code_page)) c' = Some i \<and>
     step_cached sas_memory byte_decoder no_ports (\<lambda>_ _. None) (\<lambda>_ _. None) c' \<lparr>cpu = cpu_default\<lparr>eip := 0x10000\<rparr>, mem = code_page\<rparr> =
       (step_with_ports sas_memory byte_decoder no_ports (\<lambda>_ _. None) (\<lambda>_ _. None)
          \<lparr>cpu = cpu_default\<lparr>eip := 0x10000\<rparr>, mem = code_page\<rparr>, c')"
proof -
  let ?m = "\<lparr>cpu = cpu_default\<lparr>eip := 0x10000\<rparr>, mem = code_page\<rparr>" and ?i = "fst (byte_decoder [0] 0)"
  let ?c = "cache_put 0x10000 ?i (table (mem ?m)) (cache_new plain_instruction)"
  have d: "decode_at sas_memory byte_decoder 0x10000 0x10000 ?m = (Inr ?i, ?m)"
    by (rule code_page_decode) simp
  note shape = decoded_shape [OF d byte_decoder_ok]
  have hit: "cache_get 0x10000 (table code_page) ?c = Some ?i"
    using shape by (subst put_get) (auto simp: cache_new_def same_backing_def)
  have "fetched_len 0x10000 ?i = 15"
    by (simp add: fetched_len_def to_page_end_def MAX_INSTRUCTION_LEN_def)
  then show ?thesis
    using cached_step_agrees [OF d byte_decoder_ok, of "cache_new plain_instruction" ?c "[GuestWrite 0x50000 [1]]" ?m ?i
        no_ports "\<lambda>_ _. None" "\<lambda>_ _. None"] hit code_page_write code_page_fetch
    by (intro exI [of _ ?i] exI [of _ ?c]) (simp add: cache_new_def)
qed

section \<open>Hits that are not fresh\<close>

definition bumped :: "GuestPage \<Rightarrow> nat \<Rightarrow> PageTable \<Rightarrow> PageTable" where
  "bumped q n t = ((\<lambda>t. snd (bump_physical_generation t q)) ^^ n) t"

lemma bumped_effect:
  "pt_get (bumped q n t) = pt_get t"
  "physical_generation (bumped q n t) p = map_option (\<lambda>g. if p = q then g + word_of_nat n else g) (physical_generation t p)"
proof -
  show "pt_get (bumped q n t) = pt_get t"
    by (induction n) (simp_all add: bumped_def)
  show "physical_generation (bumped q n t) p = map_option (\<lambda>g. if p = q then g + word_of_nat n else g) (physical_generation t p)"
  proof (induction n)
    case (Suc n)
    have "bumped q (Suc n) t = snd (bump_physical_generation (bumped q n t) q)"
      by (simp add: bumped_def)
    with Suc show ?case
      by (auto simp: bump_physical_generation_def physical_generation_def page_index_def Let_def unat_inj_iff split: if_splits)
  qed (simp add: bumped_def physical_generation_def)
qed

lemma pages_valid_wrap: "pages_valid ip (bumped q 65536 t) n ps = pages_valid ip t n ps"
  by (induction ps arbitrary: n) (auto simp: bumped_effect option.map_ident)

definition page_zero_table :: PageTable where
  "page_zero_table = pt_set pt_new 0x10 (desc_ram 0 (READ OR EXECUTE) 0)"

lemma page_zero_hit:
  "cache_get 0x10000 pt_new (cache_put 0x10000 plain_instruction page_zero_table (cache_new plain_instruction)) = Some plain_instruction"
proof -
  have len: "ins_len plain_instruction = 1"
    by (simp add: plain_instruction_def)
  have p: "insn_pages 0x10000 (ins_len plain_instruction) = [0x10]"
    by (simp add: insn_pages_def len)
  have get: "pt_get page_zero_table 0x10 = desc_ram 0 (READ OR EXECUTE) 0"
    by (simp add: page_zero_table_def pt_get_set)
  have "physical_page 0 = 0"
    by (simp add: physical_page_def)
  then have "same_backing page_zero_table pt_new 0x10"
    unfolding same_backing_def get by (simp add: desc_ram_fields) (simp add: page_zero_table_def)
  then show ?thesis
    by (subst put_get) (simp_all add: p [unfolded len One_nat_def] get desc_ram_fields cache_new_def len)
qed

text \<open>Where a hit is not fresh.  A cache that holds nothing hits at the last byte of the address space, with the
  default instruction, for every page table.  After 65536 bumps of the generation of any page every lookup
  gives what it gave before, though each of them stands for a write.  And an instruction recorded from
  physical page zero still hits after its virtual page has been unmapped.\<close>

lemma stale_hits:
  "cache_get 0xFFFFFFFF t (cache_new d) = Some d \<and>
   cache_get ip (bumped q 65536 t) c = cache_get ip t c \<and>
   cache_get 0x10000 pt_new (cache_put 0x10000 plain_instruction page_zero_table (cache_new plain_instruction)) = Some plain_instruction"
proof (intro conjI page_zero_hit)
  show "cache_get 0xFFFFFFFF t (cache_new d) = Some d"
    using slot_less [of "0xFFFFFFFF"] by (simp add: cache_get_def cache_new_def cache_entry_default_def)
  show "cache_get ip (bumped q 65536 t) c = cache_get ip t c"
    by (simp add: cache_get_def pages_valid_wrap Let_def)
qed

end
