(* ===== verification/Code_Cache.thy ===== *)
theory Code_Cache
  imports Jit_Emitter "HOL-Library.AList"
begin

text \<open>
  The cache of translated blocks, \<^verbatim>\<open>exbawks-jit/src/cache.rs\<close>.  The hash map is an association list whose
  keys are distinct, which \<open>cache_reachable\<close> establishes; its iteration order is observed by nothing.
\<close>

record BlockKey =
  key_guest_start :: GuestVa
  address_space_epoch :: u64
  key_backend :: BackendKind

record PhysicalPageDependency =
  dep_page :: GuestPage
  dep_generation :: u16

record CachedBlock =
  cached_block :: CompiledBlock
  dependencies :: "PhysicalPageDependency list"

type_synonym CodeCache = "(BlockKey \<times> CachedBlock) list"

definition generations_match :: "CachedBlock \<Rightarrow> PageTable \<Rightarrow> bool" where
  "generations_match b t =
     list_all (\<lambda>d. case physical_generation t (dep_page d) of Some g \<Rightarrow> g = dep_generation d | None \<Rightarrow> False) (dependencies b)"

definition code_cache_insert :: "BlockKey \<Rightarrow> CompiledBlock \<Rightarrow> PhysicalPageDependency list \<Rightarrow> CodeCache \<Rightarrow> CodeCache" where
  "code_cache_insert key block deps c = AList.update key \<lparr>cached_block = block, dependencies = deps\<rparr> c"

definition code_cache_get :: "BlockKey \<Rightarrow> PageTable \<Rightarrow> CodeCache \<Rightarrow> CompiledBlock option" where
  "code_cache_get key t c =
     (case map_of c key of
        None \<Rightarrow> None
      | Some entry \<Rightarrow> if generations_match entry t then Some (cached_block entry) else None)"

definition depends_on :: "GuestPage \<Rightarrow> CachedBlock \<Rightarrow> bool" where
  "depends_on page b = list_ex (\<lambda>d. dep_page d = page) (dependencies b)"

definition invalidate_physical_page :: "GuestPage \<Rightarrow> CodeCache \<Rightarrow> nat \<times> CodeCache" where
  "invalidate_physical_page page c =
     (let c' = filter (\<lambda>(_, v). \<not> depends_on page v) c in (length c - length c', c'))"

definition code_cache_len :: "CodeCache \<Rightarrow> nat" where
  "code_cache_len c = length c"

definition code_cache_is_empty :: "CodeCache \<Rightarrow> bool" where
  "code_cache_is_empty c \<longleftrightarrow> code_cache_len c = 0"

definition code_cache_clear :: "CodeCache \<Rightarrow> CodeCache" where
  "code_cache_clear c = []"

section \<open>Histories of a cache\<close>

inductive cache_step :: "CodeCache \<Rightarrow> CodeCache \<Rightarrow> bool" where
  step_insert: "cache_step c (code_cache_insert key block deps c)"
| step_invalidate: "cache_step c (snd (invalidate_physical_page page c))"
| step_clear: "cache_step c (code_cache_clear c)"

inductive cache_reachable :: "CodeCache \<Rightarrow> bool" where
  reach_new: "cache_reachable []"
| reach_step: "cache_reachable c \<Longrightarrow> cache_step c c' \<Longrightarrow> cache_reachable c'"

inductive_cases cache_stepE: "cache_step c c'"

lemma distinct_filter_keys: "distinct (map fst c) \<Longrightarrow> distinct (map fst (filter P c))"
  by (induction c) auto

lemma cache_reachable_distinct: "cache_reachable c \<Longrightarrow> distinct (map fst c)"
proof (induction rule: cache_reachable.induct)
  case (reach_step c c')
  from reach_step(2,3) show ?case
    by (cases rule: cache_stepE)
      (auto simp: code_cache_insert_def code_cache_clear_def invalidate_physical_page_def Let_def distinct_update
        intro: distinct_filter_keys)
qed simp

lemma map_of_filter_keys:
  "distinct (map fst c) \<Longrightarrow> map_of (filter (\<lambda>(_, v). P v) c) k = (case map_of c k of Some v \<Rightarrow> if P v then Some v else None | None \<Rightarrow> None)"
  by (induction c) (auto split: option.splits dest: map_of_SomeD simp: rev_image_eqI)

lemma get_insert:
  "code_cache_get k t (code_cache_insert key block deps c) =
    (if k = key then if generations_match \<lparr>cached_block = block, dependencies = deps\<rparr> t then Some block else None
     else code_cache_get k t c)"
  by (simp add: code_cache_get_def code_cache_insert_def update_conv')

lemma get_invalidate:
  "distinct (map fst c) \<Longrightarrow>
   code_cache_get k t (snd (invalidate_physical_page page c)) =
    (case map_of c k of Some v \<Rightarrow> if depends_on page v then None else code_cache_get k t c | None \<Rightarrow> None)"
  by (auto simp: code_cache_get_def invalidate_physical_page_def Let_def map_of_filter_keys split: option.splits)

lemma stale_entry:
  "generations_match b t \<Longrightarrow> depends_on page b \<Longrightarrow> physical_generation t' page \<noteq> physical_generation t page \<Longrightarrow>
   \<not> generations_match b t'"
  by (fastforce simp: generations_match_def depends_on_def list_all_iff list_ex_iff split: option.splits)

text \<open>C32. The block cache is a map from keys to validated blocks over any history of inserts, invalidations and
  clearings: no key is held twice; a lookup right after an insert gives the inserted block exactly when all its
  recorded generations are current, and other keys are unaffected; invalidating a physical page removes
  exactly the entries that depend on it and reports their number; and a block that was served is not
  served again once the generation of a page it depends on has changed.\<close>

theorem code_cache_invariant:
  assumes "cache_reachable c"
  shows "distinct (map fst c) \<and>
    code_cache_get k t (code_cache_insert key block deps c) =
      (if k = key then if generations_match \<lparr>cached_block = block, dependencies = deps\<rparr> t then Some block else None
       else code_cache_get k t c) \<and>
    (let (n, c') = invalidate_physical_page page c in
       n + code_cache_len c' = code_cache_len c \<and>
       (\<forall>k v. map_of c' k = Some v \<longleftrightarrow> map_of c k = Some v \<and> \<not> depends_on page v)) \<and>
    (\<forall>v. map_of c k = Some v \<longrightarrow> depends_on page v \<longrightarrow> code_cache_get k t c \<noteq> None \<longrightarrow>
       physical_generation t' page \<noteq> physical_generation t page \<longrightarrow> code_cache_get k t' c = None)"
proof (intro conjI)
  show d: "distinct (map fst c)"
    by (rule cache_reachable_distinct [OF assms])
  show "let (n, c') = invalidate_physical_page page c in
       n + code_cache_len c' = code_cache_len c \<and>
       (\<forall>k v. map_of c' k = Some v \<longleftrightarrow> map_of c k = Some v \<and> \<not> depends_on page v)"
    using length_filter_le [of "\<lambda>(_, v). \<not> depends_on page v" c] map_of_filter_keys [OF d, of "\<lambda>v. \<not> depends_on page v"]
    by (simp add: invalidate_physical_page_def code_cache_len_def Let_def) (auto split: option.splits simp del: map_of_eq_Some_iff)
  show "\<forall>v. map_of c k = Some v \<longrightarrow> depends_on page v \<longrightarrow> code_cache_get k t c \<noteq> None \<longrightarrow>
       physical_generation t' page \<noteq> physical_generation t page \<longrightarrow> code_cache_get k t' c = None"
    by (auto simp: code_cache_get_def dest: stale_entry split: if_splits)
qed (rule get_insert)

theorem code_cache_invariant_witness:
  "\<exists>c. cache_reachable c \<and> code_cache_len c = 1 \<and>
    (let (n, c') = invalidate_physical_page 3 c in n + code_cache_len c' = 1)"
proof -
  let ?k = "\<lparr>key_guest_start = 0x1000, address_space_epoch = 0, key_backend = DirectRewrite\<rparr>"
  let ?b = "\<lparr>compiled_plan = \<lparr>plan_backend = DirectRewrite, plan_guest_start = 0x1000, actions = []\<rparr>,
    compiled_code = [], compiled_state = Planned, executable = None\<rparr>"
  let ?c = "code_cache_insert ?k ?b [\<lparr>dep_page = 3, dep_generation = 0\<rparr>] []"
  have "cache_reachable ?c"
    by (rule reach_step [OF reach_new step_insert])
  moreover have "code_cache_len ?c = 1"
    by (simp add: code_cache_len_def code_cache_insert_def)
  ultimately show ?thesis
    using code_cache_invariant [of ?c ?k pt_new ?k ?b "[]" 3 pt_new] by (intro exI [of _ ?c]) (auto simp: Let_def split: prod.splits)
qed

end
