(* ===== verification/Xbe_Image.thy ===== *)
theory Xbe_Image
  imports Guest_Types
begin

text \<open>
  The executable image format, \<^verbatim>\<open>exbawks-xbe/src/\<close>: bounded readers (\<^verbatim>\<open>reader.rs\<close>), the header and section
  records (\<^verbatim>\<open>format.rs\<close>) and the parser with its validation (\<^verbatim>\<open>image.rs\<close>).  A Rust string slice is the
  list of its bytes, of which \<open>utf8_ok\<close> says that they are well-formed UTF-8.
\<close>

unbundle bit_operations_syntax

datatype XbeError =
    Truncated string nat
  | InvalidMagic
  | InvalidHeader string
  | InvalidEncodedAddress string
  | HeaderAddressOutOfRange string GuestVa
  | SectionLimit u32 u32
  | SectionRawRange u32
  | SectionVirtualRange u32
  | InvalidSectionName u32

section \<open>Bounded readers\<close>

text \<open>\<^verbatim>\<open>bytes.get(a..b)\<close>\<close>

definition get_range :: "u8 list \<Rightarrow> nat \<Rightarrow> nat \<Rightarrow> u8 list option" where
  "get_range bytes a b = (if a \<le> b \<and> b \<le> length bytes then Some (take (b - a) (drop a bytes)) else None)"

definition read_array :: "nat \<Rightarrow> u8 list \<Rightarrow> nat \<Rightarrow> string \<Rightarrow> XbeError + u8 list" where
  "read_array n bytes offset field =
     bind_r (ok_or (usize_checked_add offset n) (Truncated field offset)) (\<lambda>upto'.
     ok_or (get_range bytes offset upto') (Truncated field offset))"

definition read_u32 :: "u8 list \<Rightarrow> nat \<Rightarrow> string \<Rightarrow> XbeError + u32" where
  "read_u32 bytes offset field = bind_r (read_array 4 bytes offset field) (\<lambda>v. Inr (from_le_bytes v))"

text \<open>
  \<^verbatim>\<open>std::str::from_utf8\<close>: the ranges the continuation bytes of a lead byte must lie in, and the check that
  carries the ranges still to be met.
\<close>

definition utf8_tail :: "u8 \<Rightarrow> (u8 \<times> u8) list option" where
  "utf8_tail b =
     (if b < 0x80 then Some []
      else if 0xC2 \<le> b \<and> b \<le> 0xDF then Some [(0x80, 0xBF)]
      else if b = 0xE0 then Some [(0xA0, 0xBF), (0x80, 0xBF)]
      else if b = 0xED then Some [(0x80, 0x9F), (0x80, 0xBF)]
      else if 0xE1 \<le> b \<and> b \<le> 0xEF then Some [(0x80, 0xBF), (0x80, 0xBF)]
      else if b = 0xF0 then Some [(0x90, 0xBF), (0x80, 0xBF), (0x80, 0xBF)]
      else if 0xF1 \<le> b \<and> b \<le> 0xF3 then Some [(0x80, 0xBF), (0x80, 0xBF), (0x80, 0xBF)]
      else if b = 0xF4 then Some [(0x80, 0x8F), (0x80, 0xBF), (0x80, 0xBF)]
      else None)"

fun utf8_check :: "(u8 \<times> u8) list \<Rightarrow> u8 list \<Rightarrow> bool" where
  "utf8_check [] [] = True"
| "utf8_check (_ # _) [] = False"
| "utf8_check [] (b # bs) = (case utf8_tail b of None \<Rightarrow> False | Some rs \<Rightarrow> utf8_check rs bs)"
| "utf8_check ((lo, hi) # rs) (b # bs) = (lo \<le> b \<and> b \<le> hi \<and> utf8_check rs bs)"

definition utf8_ok :: "u8 list \<Rightarrow> bool" where
  "utf8_ok bs = utf8_check [] bs"

definition read_c_string :: "u8 list \<Rightarrow> nat \<Rightarrow> nat \<Rightarrow> string \<Rightarrow> XbeError + u8 list" where
  "read_c_string bytes offset maximum_len field =
     bind_r (ok_or (get_range bytes offset (length bytes)) (Truncated field offset)) (\<lambda>available.
     let bounded = take (min (length available) maximum_len) available;
         text_bytes = takeWhile (\<lambda>b. b \<noteq> 0) bounded in
     if utf8_ok text_bytes then Inr text_bytes else Inl (InvalidHeader ''invalid UTF-8 string''))"

section \<open>Headers\<close>

datatype BuildFlavor = Retail | Debug | Chihiro | Unknown

text \<open>Section flags.\<close>

type_synonym XbeSectionFlags = u32

definition SECTION_WRITABLE :: XbeSectionFlags where "SECTION_WRITABLE = 0x1"

definition SECTION_EXECUTABLE :: XbeSectionFlags where "SECTION_EXECUTABLE = 0x4"

definition HEAD_PAGE_READ_ONLY :: XbeSectionFlags where "HEAD_PAGE_READ_ONLY = 0x10"

definition TAIL_PAGE_READ_ONLY :: XbeSectionFlags where "TAIL_PAGE_READ_ONLY = 0x20"

definition flags_contain :: "XbeSectionFlags \<Rightarrow> XbeSectionFlags \<Rightarrow> bool" where
  "flags_contain fl f \<longleftrightarrow> fl AND f = f"

record XbeHeader =
  base_address :: GuestVa
  size_of_headers :: u32
  size_of_image :: u32
  size_of_image_header :: u32
  time_date_stamp :: u32
  certificate_address :: GuestVa
  section_count :: u32
  section_headers_address :: GuestVa
  initialization_flags :: u32
  encoded_entry_point :: u32
  entry_point :: GuestVa
  build_flavor :: BuildFlavor
  tls_address :: GuestVa
  stack_size :: u32
  heap_reserve :: u32
  heap_commit :: u32
  encoded_kernel_thunk_address :: u32
  kernel_thunk_address :: GuestVa

record XbeSection =
  section_index :: u32
  section_name :: "u8 list"
  section_flags :: XbeSectionFlags
  virtual_address :: GuestVa
  virtual_size :: u32
  raw_address :: u32
  raw_size :: u32
  name_address :: GuestVa
  reference_count :: u32
  digest :: "u8 list"

record XbeImage =
  image_header :: XbeHeader
  sections :: "XbeSection list"
  file_size :: nat

definition XBE_MAGIC :: "u8 list" where "XBE_MAGIC = [0x58, 0x42, 0x45, 0x48]"

definition MINIMUM_HEADER_SIZE :: nat where "MINIMUM_HEADER_SIZE = 0x178"

definition SECTION_HEADER_SIZE :: nat where "SECTION_HEADER_SIZE = 0x38"

definition MAXIMUM_SECTION_COUNT :: u32 where "MAXIMUM_SECTION_COUNT = 4096"

definition ENTRY_RETAIL_XOR :: u32 where "ENTRY_RETAIL_XOR = 0xA8FC57AB"

definition ENTRY_DEBUG_XOR :: u32 where "ENTRY_DEBUG_XOR = 0x94859D4B"

definition KERNEL_RETAIL_XOR :: u32 where "KERNEL_RETAIL_XOR = 0x5B6D40B6"

definition KERNEL_DEBUG_XOR :: u32 where "KERNEL_DEBUG_XOR = 0xEFB1F152"

section \<open>The parser\<close>

definition image_contains :: "GuestVa \<Rightarrow> u32 \<Rightarrow> GuestVa \<Rightarrow> bool" where
  "image_contains base image_size address \<longleftrightarrow>
     unat base \<le> unat address \<and> unat address < unat base + unat image_size"

definition validate_header_sizes :: "u8 list \<Rightarrow> u32 \<Rightarrow> u32 \<Rightarrow> u32 \<Rightarrow> XbeError + unit" where
  "validate_header_sizes bytes headers image_bytes image_header' =
     (if unat image_header' < MINIMUM_HEADER_SIZE then Inl (InvalidHeader ''image header is smaller than 0x178 bytes'')
      else if headers < image_header' then Inl (InvalidHeader ''header size is smaller than image-header size'')
      else if image_bytes < headers then Inl (InvalidHeader ''image size is smaller than header size'')
      else if unat headers > length bytes then Inl (InvalidHeader ''file does not contain all declared header bytes'')
      else Inr ())"

definition decode_entry_point :: "u32 \<Rightarrow> GuestVa \<Rightarrow> u32 \<Rightarrow> XbeError + BuildFlavor \<times> GuestVa" where
  "decode_entry_point encoded base image_size =
     ok_or (find (\<lambda>(_, address). image_contains base image_size address)
              [(Retail, encoded XOR ENTRY_RETAIL_XOR), (Debug, encoded XOR ENTRY_DEBUG_XOR)])
       (InvalidEncodedAddress ''entry point'')"

definition decode_kernel_thunk :: "u32 \<Rightarrow> BuildFlavor \<Rightarrow> GuestVa \<Rightarrow> u32 \<Rightarrow> XbeError + GuestVa" where
  "decode_kernel_thunk encoded flavor base image_size =
     bind_r (case flavor of
               Retail \<Rightarrow> Inr KERNEL_RETAIL_XOR
             | Debug \<Rightarrow> Inr KERNEL_DEBUG_XOR
             | _ \<Rightarrow> Inl (InvalidEncodedAddress ''kernel thunk address'')) (\<lambda>key.
     let address = encoded XOR key in
     if image_contains base image_size address then Inr address
     else Inl (InvalidEncodedAddress ''kernel thunk address''))"

definition header_va_to_file_offset :: "XbeHeader \<Rightarrow> GuestVa \<Rightarrow> string \<Rightarrow> XbeError + nat" where
  "header_va_to_file_offset h address field =
     bind_r (ok_or (checked_sub address (base_address h)) (HeaderAddressOutOfRange field address)) (\<lambda>relative.
     if relative \<ge> size_of_headers h then Inl (HeaderAddressOutOfRange field address)
     else Inr (unat relative))"

definition validate_section_ranges :: "u8 list \<Rightarrow> u32 \<Rightarrow> GuestVa \<Rightarrow> u32 \<Rightarrow> u32 \<Rightarrow> u32 \<Rightarrow> XbeError + unit" where
  "validate_section_ranges bytes index va vsize raw rsize =
     (if unat raw + unat rsize > length bytes then Inl (SectionRawRange index)
      else if unat va + unat vsize > 2 ^ 32 then Inl (SectionVirtualRange index)
      else Inr ())"

text \<open>The body of the loop over the section headers.\<close>

definition parse_section :: "u8 list \<Rightarrow> XbeHeader \<Rightarrow> nat \<Rightarrow> nat \<Rightarrow> XbeError + XbeSection" where
  "parse_section bytes h table_offset index =
     (let offset = table_offset + index * SECTION_HEADER_SIZE in
      bind_r (read_u32 bytes offset ''section flags'') (\<lambda>fl.
      bind_r (read_u32 bytes (offset + 0x04) ''section virtual address'') (\<lambda>va.
      bind_r (read_u32 bytes (offset + 0x08) ''section virtual size'') (\<lambda>vsize.
      bind_r (read_u32 bytes (offset + 0x0C) ''section raw address'') (\<lambda>raw.
      bind_r (read_u32 bytes (offset + 0x10) ''section raw size'') (\<lambda>rsize.
      bind_r (read_u32 bytes (offset + 0x14) ''section name address'') (\<lambda>name_va.
      bind_r (read_u32 bytes (offset + 0x18) ''section reference count'') (\<lambda>refs.
      bind_r (read_array 20 bytes (offset + 0x24) ''section digest'') (\<lambda>dig.
      bind_r (validate_section_ranges bytes (word_of_nat index) va vsize raw rsize) (\<lambda>_.
      bind_r (header_va_to_file_offset h name_va ''section name'') (\<lambda>name_offset.
      bind_r (map_err (\<lambda>_. InvalidSectionName (word_of_nat index)) (read_c_string bytes name_offset 256 ''section name'')) (\<lambda>nm.
      Inr \<lparr>section_index = word_of_nat index, section_name = nm, section_flags = fl, virtual_address = va,
           virtual_size = vsize, raw_address = raw, raw_size = rsize, name_address = name_va,
           reference_count = refs, digest = dig\<rparr>))))))))))))"

fun parse_each :: "(nat \<Rightarrow> XbeError + XbeSection) \<Rightarrow> nat list \<Rightarrow> XbeError + XbeSection list" where
  "parse_each f [] = Inr []"
| "parse_each f (i # is) = bind_r (f i) (\<lambda>s. bind_r (parse_each f is) (\<lambda>ss. Inr (s # ss)))"

definition parse_sections :: "u8 list \<Rightarrow> XbeHeader \<Rightarrow> XbeError + XbeSection list" where
  "parse_sections bytes h =
     bind_r (header_va_to_file_offset h (section_headers_address h) ''section header table'') (\<lambda>table_offset.
     let count = unat (section_count h) in
     bind_r (ok_or (usize_checked_mul count SECTION_HEADER_SIZE) (InvalidHeader ''section table size overflow'')) (\<lambda>table_size.
     bind_r (ok_or (usize_checked_add table_offset table_size) (InvalidHeader ''section table range overflow'')) (\<lambda>table_end.
     if table_end > unat (size_of_headers h)
     then Inl (InvalidHeader ''section header table extends past the declared headers'')
     else if table_end > length bytes then Inl (Truncated ''section header table'' table_offset)
     else parse_each (parse_section bytes h table_offset) [0 ..< count])))"

definition section_data :: "u8 list \<Rightarrow> XbeSection \<Rightarrow> XbeError + u8 list" where
  "section_data bytes s =
     bind_r (ok_or (usize_checked_add (unat (raw_address s)) (unat (raw_size s))) (SectionRawRange (section_index s))) (\<lambda>upto'.
     ok_or (get_range bytes (unat (raw_address s)) upto') (SectionRawRange (section_index s)))"

definition xbe_parse :: "u8 list \<Rightarrow> XbeError + XbeImage" where
  "xbe_parse bytes =
     (if get_range bytes 0 4 \<noteq> Some XBE_MAGIC then Inl InvalidMagic
      else if length bytes < MINIMUM_HEADER_SIZE then Inl (Truncated ''image header'' (length bytes))
      else
        bind_r (read_u32 bytes 0x104 ''base address'') (\<lambda>base.
        bind_r (read_u32 bytes 0x108 ''size of headers'') (\<lambda>headers.
        bind_r (read_u32 bytes 0x10C ''size of image'') (\<lambda>image_bytes.
        bind_r (read_u32 bytes 0x110 ''size of image header'') (\<lambda>ih.
        bind_r (read_u32 bytes 0x114 ''time date stamp'') (\<lambda>stamp.
        bind_r (read_u32 bytes 0x118 ''certificate address'') (\<lambda>cert.
        bind_r (read_u32 bytes 0x11C ''section count'') (\<lambda>count.
        bind_r (read_u32 bytes 0x120 ''section headers address'') (\<lambda>headers_va.
        bind_r (read_u32 bytes 0x124 ''initialization flags'') (\<lambda>init.
        bind_r (read_u32 bytes 0x128 ''encoded entry point'') (\<lambda>encoded.
        bind_r (read_u32 bytes 0x12C ''TLS address'') (\<lambda>tls.
        bind_r (read_u32 bytes 0x130 ''stack size'') (\<lambda>stack.
        bind_r (read_u32 bytes 0x134 ''heap reserve'') (\<lambda>reserve.
        bind_r (read_u32 bytes 0x138 ''heap commit'') (\<lambda>commit.
        bind_r (read_u32 bytes 0x158 ''kernel thunk address'') (\<lambda>thunk.
        bind_r (validate_header_sizes bytes headers image_bytes ih) (\<lambda>_.
        if count > MAXIMUM_SECTION_COUNT then Inl (SectionLimit count MAXIMUM_SECTION_COUNT)
        else
        bind_r (decode_entry_point encoded base image_bytes) (\<lambda>(flavor, entry).
        bind_r (decode_kernel_thunk thunk flavor base image_bytes) (\<lambda>thunk_va.
        let h = \<lparr>base_address = base, size_of_headers = headers, size_of_image = image_bytes, size_of_image_header = ih,
                 time_date_stamp = stamp, certificate_address = cert, section_count = count,
                 section_headers_address = headers_va, initialization_flags = init, encoded_entry_point = encoded,
                 entry_point = entry, build_flavor = flavor, tls_address = tls, stack_size = stack,
                 heap_reserve = reserve, heap_commit = commit, encoded_kernel_thunk_address = thunk,
                 kernel_thunk_address = thunk_va\<rparr> in
        bind_r (parse_sections bytes h) (\<lambda>ss.
        Inr \<lparr>image_header = h, sections = ss, file_size = length bytes\<rparr>))))))))))))))))))))"

section \<open>What an accepted image guarantees\<close>

text \<open>The relations a loader relies on: the header's, and those of the section at one index.\<close>

definition header_ok :: "u8 list \<Rightarrow> XbeHeader \<Rightarrow> bool" where
  "header_ok bytes h \<longleftrightarrow>
     MINIMUM_HEADER_SIZE \<le> unat (size_of_image_header h) \<and> size_of_image_header h \<le> size_of_headers h \<and>
     size_of_headers h \<le> size_of_image h \<and> unat (size_of_headers h) \<le> length bytes \<and>
     section_count h \<le> MAXIMUM_SECTION_COUNT \<and>
     image_contains (base_address h) (size_of_image h) (entry_point h) \<and>
     image_contains (base_address h) (size_of_image h) (kernel_thunk_address h) \<and>
     (build_flavor h = Retail \<and> encoded_entry_point h = entry_point h XOR ENTRY_RETAIL_XOR \<and>
        encoded_kernel_thunk_address h = kernel_thunk_address h XOR KERNEL_RETAIL_XOR \<or>
      build_flavor h = Debug \<and> encoded_entry_point h = entry_point h XOR ENTRY_DEBUG_XOR \<and>
        encoded_kernel_thunk_address h = kernel_thunk_address h XOR KERNEL_DEBUG_XOR)"

definition section_ok :: "u8 list \<Rightarrow> nat \<Rightarrow> XbeSection \<Rightarrow> bool" where
  "section_ok bytes k s \<longleftrightarrow>
     section_index s = word_of_nat k \<and>
     unat (raw_address s) + unat (raw_size s) \<le> length bytes \<and>
     unat (virtual_address s) + unat (virtual_size s) \<le> 2 ^ 32 \<and>
     section_data bytes s = Inr (take (unat (raw_size s)) (drop (unat (raw_address s)) bytes)) \<and>
     length (section_name s) \<le> 256 \<and> 0 \<notin> set (section_name s) \<and> utf8_ok (section_name s) \<and>
     length (digest s) = 20"

lemma get_range_Some_iff:
  "get_range bytes a b = Some v \<longleftrightarrow> a \<le> b \<and> b \<le> length bytes \<and> v = take (b - a) (drop a bytes)"
  by (auto simp: get_range_def)

lemma read_array_length:
  assumes "read_array n bytes offset field = Inr v"
  shows "length v = n"
  using assms by (auto simp: read_array_def bind_r_Inr_iff ok_or_Inr_iff get_range_Some_iff usize_checked_add_def
      split: if_splits)

lemma read_c_string_Inr:
  assumes "read_c_string bytes offset maximum field = Inr v"
  shows "length v \<le> maximum \<and> 0 \<notin> set v \<and> utf8_ok v"
proof -
  obtain w where "v = takeWhile (\<lambda>b. b \<noteq> 0) (take (min (length w) maximum) w)" and "utf8_ok v"
    using assms by (auto simp: read_c_string_def bind_r_Inr_iff Let_def split: if_splits)
  moreover have "length (takeWhile P (take (min (length w) maximum) w)) \<le> maximum" for P :: "u8 \<Rightarrow> bool"
    using length_takeWhile_le [of P "take (min (length w) maximum) w"] by simp
  ultimately show ?thesis by (auto dest: set_takeWhileD)
qed

lemma decode_entry_point_Inr:
  assumes "decode_entry_point encoded base sz = Inr (flavor, entry)"
  shows "image_contains base sz entry \<and>
    (flavor = Retail \<and> encoded = entry XOR ENTRY_RETAIL_XOR \<or> flavor = Debug \<and> encoded = entry XOR ENTRY_DEBUG_XOR)"
  using assms by (auto simp: decode_entry_point_def ok_or_Inr_iff xor.assoc split: if_splits)

lemma decode_kernel_thunk_Inr:
  assumes "decode_kernel_thunk encoded flavor base sz = Inr address"
  shows "image_contains base sz address \<and>
    (flavor = Retail \<and> encoded = address XOR KERNEL_RETAIL_XOR \<or> flavor = Debug \<and> encoded = address XOR KERNEL_DEBUG_XOR)"
  using assms by (auto simp: decode_kernel_thunk_def bind_r_Inr_iff Let_def xor.assoc
      split: if_splits BuildFlavor.splits)

lemma parse_each_Inr:
  "parse_each f is = Inr ss \<Longrightarrow> length ss = length is \<and> (\<forall>k < length is. f (is ! k) = Inr (ss ! k))"
  by (induction "is" arbitrary: ss) (auto simp: bind_r_Inr_iff nth_Cons split: nat.splits)

lemma section_data_within:
  assumes "unat (raw_address s) + unat (raw_size s) \<le> length bytes"
  shows "section_data bytes s = Inr (take (unat (raw_size s)) (drop (unat (raw_address s)) bytes))"
proof -
  have "unat (raw_address s) + unat (raw_size s) < 18446744073709551616"
    using unat_lt_2p32 [of "raw_address s"] unat_lt_2p32 [of "raw_size s"] by linarith
  with assms show ?thesis
    by (simp add: section_data_def usize_checked_add_def get_range_def)
qed

lemma parse_section_Inr:
  assumes "parse_section bytes h table index = Inr s"
  shows "section_ok bytes index s"
  using assms
  by (auto simp: parse_section_def Let_def bind_r_Inr_iff map_err_Inr_iff validate_section_ranges_def section_ok_def
      section_data_within read_array_length split: if_splits dest!: read_c_string_Inr)

lemma parse_sections_Inr:
  assumes "parse_sections bytes h = Inr ss"
  shows "length ss = unat (section_count h) \<and> (\<forall>k < length ss. section_ok bytes k (ss ! k))"
proof -
  obtain t where "parse_each (parse_section bytes h t) [0 ..< unat (section_count h)] = Inr ss"
    using assms by (auto simp: parse_sections_def Let_def bind_r_Inr_iff split: if_splits)
  from parse_each_Inr [OF this] show ?thesis by (auto intro: parse_section_Inr)
qed

lemma header_ok_parsed:
  assumes "validate_header_sizes bytes headers image_bytes ih = Inr u" and "\<not> count > MAXIMUM_SECTION_COUNT"
    and "decode_entry_point encoded base image_bytes = Inr (flavor, entry)"
    and "decode_kernel_thunk thunk flavor base image_bytes = Inr thunk_va"
    and "h = \<lparr>base_address = base, size_of_headers = headers, size_of_image = image_bytes, size_of_image_header = ih,
                 time_date_stamp = stamp, certificate_address = cert, section_count = count,
                 section_headers_address = headers_va, initialization_flags = init, encoded_entry_point = encoded,
                 entry_point = entry, build_flavor = flavor, tls_address = tls, stack_size = stack,
                 heap_reserve = reserve, heap_commit = commit, encoded_kernel_thunk_address = thunk,
                 kernel_thunk_address = thunk_va\<rparr>"
  shows "header_ok bytes h"
  using assms(1,2,5) decode_entry_point_Inr [OF assms(3)] decode_kernel_thunk_Inr [OF assms(4)]
  by (auto simp: validate_header_sizes_def header_ok_def not_less split: if_splits)

lemma if_Inl_Inr_iff: "(if c then Inl e else r) = Inr x \<longleftrightarrow> \<not> c \<and> r = Inr x"
  by simp

lemma xbe_parse_Inr:
  assumes "xbe_parse bytes = Inr img"
  shows "header_ok bytes (image_header img) \<and> file_size img = length bytes \<and>
    parse_sections bytes (image_header img) = Inr (sections img)"
  using assms unfolding xbe_parse_def Let_def
  apply (simp only: if_Inl_Inr_iff bind_r_Inr_iff)
  apply (elim exE conjE)
  apply (simp only: bind_r_Inr_iff split: prod.splits)
  apply (elim exE conjE)
  apply (simp only: sum.inject)
  apply hypsubst
  apply (simp add: header_ok_parsed [OF _ _ _ _ refl])
  done

text \<open>C37. An accepted image is safe to load: the header sizes are nested (0x178 \<le> image header \<le> headers \<le> image) and
  the file holds all header bytes, the entry point and the kernel thunk table lie inside the image and were decoded
  with the keys of one build flavour, there are exactly as many sections as declared and at most 4096, and the section
  at each index has its raw bytes inside the file, its virtual range inside the address space, a name of at most 256
  well-formed bytes with no terminator, and reading its data never fails.\<close>

theorem parse_sound:
  assumes "xbe_parse bytes = Inr img"
  shows "header_ok bytes (image_header img) \<and> file_size img = length bytes \<and>
    length (sections img) = unat (section_count (image_header img)) \<and>
    (\<forall>k < length (sections img). section_ok bytes k (sections img ! k))"
  using xbe_parse_Inr [OF assms] parse_sections_Inr by blast

text \<open>A small image: the header, one section header, its name \<^verbatim>\<open>.t\<close> and two bytes of code.\<close>

definition sample_image :: "u8 list" where
  "sample_image =
     [88, 66, 69, 72] @
     replicate 258 0 @
     [1, 0, 180, 1, 0, 0, 0, 32, 0, 0, 120, 1] @
     replicate 10 0 @
     [1, 0, 0, 0, 120, 1, 1] @
     replicate 5 0 @
     [171, 71, 253, 168] @
     replicate 44 0 @
     [182, 81, 108, 91] @
     replicate 28 0 @
     [6, 0, 0, 0, 0, 16, 1, 0, 0, 16, 0, 0, 180, 1, 0, 0, 2, 0, 0, 0, 176, 1, 1, 0, 1] @
     replicate 31 0 @
     [46, 116, 0, 0, 144, 195]"

lemma sample_length: "length sample_image = 438"
  by (simp add: sample_image_def)

lemma replicate_small: "replicate 2 x = [x, x]" "replicate 3 x = [x, x, x]" "replicate 4 x = [x, x, x, x]"
  by (simp_all add: numeral_eq_Suc)

lemma sample_read_u32:
  "4 + a \<le> 438 \<Longrightarrow> read_u32 sample_image a f = Inr (from_le_bytes (take 4 (drop a sample_image)))"
  by (simp add: read_u32_def read_array_def usize_checked_add_def get_range_def sample_length)

lemma sample_words:
  "from_le_bytes (take 4 (drop 260 sample_image)) = 65536"
  "from_le_bytes (take 4 (drop 264 sample_image)) = 436"
  "from_le_bytes (take 4 (drop 268 sample_image)) = 8192"
  "from_le_bytes (take 4 (drop 272 sample_image)) = 376"
  "from_le_bytes (take 4 (drop 276 sample_image)) = 0"
  "from_le_bytes (take 4 (drop 280 sample_image)) = 0"
  "from_le_bytes (take 4 (drop 284 sample_image)) = 1"
  "from_le_bytes (take 4 (drop 288 sample_image)) = 65912"
  "from_le_bytes (take 4 (drop 292 sample_image)) = 0"
  "from_le_bytes (take 4 (drop 296 sample_image)) = 2835171243"
  "from_le_bytes (take 4 (drop 300 sample_image)) = 0"
  "from_le_bytes (take 4 (drop 304 sample_image)) = 0"
  "from_le_bytes (take 4 (drop 308 sample_image)) = 0"
  "from_le_bytes (take 4 (drop 312 sample_image)) = 0"
  "from_le_bytes (take 4 (drop 344 sample_image)) = 1533825462"
  "from_le_bytes (take 4 (drop 376 sample_image)) = 6"
  "from_le_bytes (take 4 (drop 380 sample_image)) = 69632"
  "from_le_bytes (take 4 (drop 384 sample_image)) = 4096"
  "from_le_bytes (take 4 (drop 388 sample_image)) = 436"
  "from_le_bytes (take 4 (drop 392 sample_image)) = 2"
  "from_le_bytes (take 4 (drop 396 sample_image)) = 65968"
  "from_le_bytes (take 4 (drop 400 sample_image)) = 1"
  by (simp_all add: sample_image_def replicate_small, code_simp+)

lemma sample_name: "takeWhile (\<lambda>b. b \<noteq> 0) (drop 432 sample_image) = [46, 116]"
  by (simp add: sample_image_def)

lemma sample_section:
  assumes "base_address h = 0x10000" and "size_of_headers h = 436"
  shows "\<exists>sec. parse_section sample_image h 0x178 0 = Inr sec"
  using assms
  by (simp add: parse_section_def Let_def sample_read_u32 sample_words validate_section_ranges_def sample_length
      read_array_def usize_checked_add_def get_range_def header_va_to_file_offset_def checked_sub_def
      read_c_string_def sample_name utf8_ok_def utf8_tail_def)

lemma sample_parse:
  "\<exists>img. xbe_parse sample_image = Inr img \<and> section_count (image_header img) = 1"
proof -
  have magic: "take 4 sample_image = XBE_MAGIC"
    by (simp add: sample_image_def XBE_MAGIC_def)
  define ss where "ss = (\<lambda>h. projr (parse_sections sample_image h))"
  have parsed: "parse_sections sample_image h = Inr (ss h)"
    if "base_address h = 0x10000" "size_of_headers h = 436" "section_count h = 1" "section_headers_address h = 0x10178"
    for h
    using sample_section [OF that(1,2)] that
    by (auto simp: parse_sections_def header_va_to_file_offset_def checked_sub_def usize_checked_add_def
        usize_checked_mul_def SECTION_HEADER_SIZE_def sample_length Let_def ss_def)
  show ?thesis
    by (simp add: parsed xbe_parse_def get_range_def magic sample_length MINIMUM_HEADER_SIZE_def sample_read_u32 sample_words
        validate_header_sizes_def MAXIMUM_SECTION_COUNT_def decode_entry_point_def image_contains_def
        ENTRY_RETAIL_XOR_def KERNEL_RETAIL_XOR_def decode_kernel_thunk_def Let_def bind_r_Inr_iff)
qed

theorem parse_sound_witness:
  "\<exists>img. xbe_parse sample_image = Inr img \<and> length (sections img) = 1 \<and>
     header_ok sample_image (image_header img) \<and> section_ok sample_image 0 (sections img ! 0)"
proof -
  obtain img where img: "xbe_parse sample_image = Inr img" and "section_count (image_header img) = 1"
    using sample_parse by blast
  with parse_sound [OF img] show ?thesis by auto
qed

end
