(* ===== verification/Thread_Table.thy ===== *)
theory Thread_Table
  imports Space_Mapping Cpu_State
begin

text \<open>
  The guest thread table of \<^verbatim>\<open>exbawks-kernel/src/runtime.rs\<close> with the service types of \<^verbatim>\<open>services.rs\<close>: thread
  states, wait blocks, round-robin rotation, parking and waking, events, mutants, timers, deferred procedures and
  interrupt routines.  The address space is shared between the machine and the thread manager, so it is a
  field of the manager's state.  The file device is a value of its own type \<open>'f\<close>, and closing a file handle is an
  argument of the one operation that calls it.  Milliseconds are \<open>u64\<close> words, with the saturation of the code.
\<close>

unbundle bit_operations_syntax

section \<open>Service types\<close>

datatype KernelServiceError = Unsupported | ResourceExhausted | NotFound | AccessDenied | InvalidHandle

datatype WaitOutcome = Signaled | Pending | TimedOut

datatype MultiWaitOutcome = MultiSatisfied u32 | MultiTimedOut | MultiPending

record InterruptRoutine =
  ir_object :: u32
  ir_routine :: u32
  ir_context :: u32
  ir_vector :: u32

record DisplayMode =
  frame_buffer :: u32
  dm_format :: u32
  pitch :: u32
  dm_mode :: u32

section \<open>Threads\<close>

definition KTHREAD_OFFSET :: u32 where "KTHREAD_OFFSET = 0x200"

definition DISPATCHER_SIGNAL_STATE :: u32 where "DISPATCHER_SIGNAL_STATE = 0x04"

definition KTHREAD_EXIT_STATUS :: u32 where "KTHREAD_EXIT_STATUS = 0x120"

definition STATUS_TIMEOUT :: u32 where "STATUS_TIMEOUT = 0x102"

definition SYNCHRONIZATION_EVENT_TYPE :: u32 where "SYNCHRONIZATION_EVENT_TYPE = 1"

definition EVENT_HANDLE_BASE :: u32 where "EVENT_HANDLE_BASE = 0xA000"

definition MUTANT_HANDLE_BASE :: u32 where "MUTANT_HANDLE_BASE = 0xB000"

definition CURRENT_THREAD_PSEUDO_HANDLE :: u32 where "CURRENT_THREAD_PSEUDO_HANDLE = 0xFFFFFFFE"

definition THREAD_HANDLE_BASE :: u32 where "THREAD_HANDLE_BASE = 0xE000"

definition USER_ALLOC_BASE :: u32 where "USER_ALLOC_BASE = 0x10000000"

record WaitBlock =
  keys :: "u32 list"
  wait_all :: bool
  deadline :: "u64 option"
  timeout_status :: u32

datatype ThreadState = Ready | Running | Suspended | Waiting WaitBlock | Terminated

record GuestThread =
  thread_cpu :: CpuState
  thread_state :: ThreadState
  thread_id :: u32
  kpcr :: GuestVa
  exits_on_null_return :: bool

datatype PendingAction = PendingExit u32 | PendingWait WaitBlock

record ArmedTimer =
  at_object :: u32
  at_dpc :: u32
  due_at :: u64
  period :: u64

record TlsTemplate =
  raw_start :: u32
  raw_end :: u32
  zero_fill :: u32

record 'f ThreadManager =
  memory :: SoftwareAddressSpace
  threads :: "GuestThread list"
  current :: nat
  pending :: "PendingAction option"
  user_cursor :: u32
  handles :: "u32 set"
  files :: 'f
  dpc_queue :: "u32 list"
  timers :: "ArmedTimer list"
  elapsed_ms :: u64
  interrupts :: "(InterruptRoutine \<times> bool) list"
  persisted :: "(u32 \<times> u32) list"
  launch_data_page_cell :: "GuestVa option"
  tick_count_cell :: "GuestVa option"
  tls_template :: "TlsTemplate option"
  pool_sizes :: "u32 \<rightharpoonup> u32"
  gpu_instance :: "(GuestVa \<times> u32) option"
  events :: "u32 \<rightharpoonup> bool \<times> bool"
  next_event_handle :: u32
  mutants :: "u32 \<rightharpoonup> (nat \<times> u32) option"
  next_mutant_handle :: u32
  display_mode :: "DisplayMode option"

definition tm_new :: "SoftwareAddressSpace \<Rightarrow> 'f \<Rightarrow> 'f ThreadManager" where
  "tm_new m fs =
     \<lparr>memory = m, threads = [], current = 0, pending = None, user_cursor = USER_ALLOC_BASE, handles = {}, files = fs,
      dpc_queue = [], timers = [], elapsed_ms = 0, interrupts = [], persisted = [], launch_data_page_cell = None,
      tick_count_cell = None, tls_template = None, pool_sizes = Map.empty, gpu_instance = None, events = Map.empty,
      next_event_handle = EVENT_HANDLE_BASE, mutants = Map.empty, next_mutant_handle = MUTANT_HANDLE_BASE,
      display_mode = None\<rparr>"

text \<open>Reading and writing a guest word through the shared address space; a read leaves it as it is.\<close>

definition tm_read_u32 :: "'f ThreadManager \<Rightarrow> GuestVa \<Rightarrow> MemoryError + u32" where
  "tm_read_u32 tm a = fst (gm_read_u32 sas_memory a (memory tm))"

definition tm_write_u32 :: "GuestVa \<Rightarrow> u32 \<Rightarrow> ('f ThreadManager, MemoryError, unit) st" where
  "tm_write_u32 a v tm = (case gm_write_u32 sas_memory a v (memory tm) of (r, m) \<Rightarrow> (r, tm\<lparr>memory := m\<rparr>))"

text \<open>\<open>position\<close> is the iterator method, \<open>upd_thread\<close> a change through \<^verbatim>\<open>threads.get_mut(i)\<close> (nothing happens outside the
  table), \<open>update_first\<close> a change through \<^verbatim>\<open>iter_mut().find(..)\<close>.\<close>

definition position :: "('a \<Rightarrow> bool) \<Rightarrow> 'a list \<Rightarrow> nat option" where
  "position P xs = find (\<lambda>i. P (xs ! i)) [0 ..< length xs]"

definition upd_thread :: "nat \<Rightarrow> (GuestThread \<Rightarrow> GuestThread) \<Rightarrow> 'f ThreadManager \<Rightarrow> 'f ThreadManager" where
  "upd_thread i f tm = tm\<lparr>threads := (threads tm)[i := f (threads tm ! i)]\<rparr>"

fun update_first :: "('a \<Rightarrow> bool) \<Rightarrow> ('a \<Rightarrow> 'a) \<Rightarrow> 'a list \<Rightarrow> 'a list" where
  "update_first P f [] = []"
| "update_first P f (x # xs) = (if P x then f x # xs else x # update_first P f xs)"

definition set_state :: "nat \<Rightarrow> ThreadState \<Rightarrow> 'f ThreadManager \<Rightarrow> 'f ThreadManager" where
  "set_state i st = upd_thread i (\<lambda>t. t\<lparr>thread_state := st\<rparr>)"

section \<open>Switching\<close>

text \<open>The processor takes over a thread's saved context and keeps its own time-stamp counter: the tail shared by
  \<^verbatim>\<open>exit_active\<close>, \<^verbatim>\<open>park_active\<close> and \<^verbatim>\<open>resume_any_ready\<close>.\<close>

definition switch_to :: "nat \<Rightarrow> 'f ThreadManager \<Rightarrow> CpuState \<Rightarrow> 'f ThreadManager \<times> CpuState" where
  "switch_to i tm c =
     ((set_state i Running tm)\<lparr>current := i\<rparr>, (thread_cpu (threads tm ! i))\<lparr>tsc := tsc c\<rparr>)"

definition rotate_active :: "'f ThreadManager \<Rightarrow> CpuState \<Rightarrow> bool \<times> 'f ThreadManager \<times> CpuState" where
  "rotate_active tm c =
     (let count = length (threads tm) in
      if count < 2 then (False, tm, c)
      else case find (\<lambda>i. thread_state (threads tm ! i) = Ready)
                  (map (\<lambda>offset. (current tm + offset) mod count) [1 ..< count]) of
        None \<Rightarrow> (False, tm, c)
      | Some n \<Rightarrow>
          let tm1 = upd_thread (current tm) (\<lambda>t. t\<lparr>thread_cpu := c\<rparr>) tm;
              tm2 = (if thread_state (threads tm1 ! current tm) = Running then set_state (current tm) Ready tm1 else tm1);
              tm3 = set_state n Running tm2
          in (True, tm3\<lparr>current := n\<rparr>, thread_cpu (threads tm3 ! n)))"

definition take_pending :: "'f ThreadManager \<Rightarrow> PendingAction option \<times> 'f ThreadManager" where
  "take_pending tm = (pending tm, tm\<lparr>pending := None\<rparr>)"

definition publish_thread_exit :: "nat \<Rightarrow> u32 \<Rightarrow> 'f ThreadManager \<Rightarrow> 'f ThreadManager" where
  "publish_thread_exit index status tm =
     (if index < length (threads tm) then
        let kthread = kpcr (threads tm ! index) + KTHREAD_OFFSET in
        case tm_write_u32 (kthread + KTHREAD_EXIT_STATUS) status tm of
          (Inl _, tm1) \<Rightarrow> tm1
        | (Inr _, tm1) \<Rightarrow> snd (tm_write_u32 (kthread + DISPATCHER_SIGNAL_STATE) 1 tm1)
      else tm)"

definition active_exits_on_null_return :: "'f ThreadManager \<Rightarrow> bool" where
  "active_exits_on_null_return tm \<longleftrightarrow>
     current tm < length (threads tm) \<and> exits_on_null_return (threads tm ! current tm)"

definition thread_index :: "'f ThreadManager \<Rightarrow> u32 \<Rightarrow> nat option" where
  "thread_index tm handle =
     (if handle < 0xE000 \<or> handle \<notin> handles tm then None
      else let index = unat ((handle - 0xE000) div 4) in
           if index < length (threads tm) then Some index else None)"

definition ready_thread_with :: "nat \<Rightarrow> u32 \<Rightarrow> 'f ThreadManager \<Rightarrow> 'f ThreadManager" where
  "ready_thread_with index eax =
     upd_thread index (\<lambda>t. t\<lparr>thread_cpu := set_gpr 0 eax (thread_cpu t), thread_state := Ready\<rparr>)"

section \<open>Waking\<close>

definition key_signaled :: "'f ThreadManager \<Rightarrow> u32 \<Rightarrow> nat \<Rightarrow> bool" where
  "key_signaled tm key for_thread =
     (case events tm key of
        Some (_, signaled) \<Rightarrow> signaled
      | None \<Rightarrow>
     (case mutants tm key of
        Some None \<Rightarrow> True
      | Some (Some (holder, _)) \<Rightarrow> holder = for_thread
      | None \<Rightarrow>
     (case thread_index tm key of
        Some index \<Rightarrow> index < length (threads tm) \<and> thread_state (threads tm ! index) = Terminated
      | None \<Rightarrow>
          (case tm_read_u32 tm (key + DISPATCHER_SIGNAL_STATE) of Inl _ \<Rightarrow> False | Inr state \<Rightarrow> state \<noteq> 0))))"

definition consume_key :: "u32 \<Rightarrow> nat \<Rightarrow> 'f ThreadManager \<Rightarrow> 'f ThreadManager" where
  "consume_key key for_thread tm =
     (case events tm key of
        Some (manual_reset, signaled) \<Rightarrow>
          (if manual_reset then tm else tm\<lparr>events := (events tm)(key \<mapsto> (manual_reset, False))\<rparr>)
      | None \<Rightarrow>
          (if mutants tm key = Some None then tm\<lparr>mutants := (mutants tm)(key \<mapsto> Some (for_thread, 1))\<rparr> else tm))"

definition waits_on :: "u32 \<Rightarrow> GuestThread \<Rightarrow> bool" where
  "waits_on key t = (case thread_state t of Waiting block \<Rightarrow> key \<in> set (keys block) | _ \<Rightarrow> False)"

text \<open>The body of the loop over the candidates: whether the candidate wakes, and the table afterwards.\<close>

definition wake_one :: "u32 \<Rightarrow> nat \<Rightarrow> WaitBlock \<Rightarrow> 'f ThreadManager \<Rightarrow> bool \<times> 'f ThreadManager" where
  "wake_one key index block tm =
     (if wait_all block then
        (if list_all (\<lambda>k. key_signaled tm k index) (keys block)
         then (True, ready_thread_with index 0 (fold (\<lambda>k. consume_key k index) (keys block) tm))
         else (False, tm))
      else
        let p = (case position (\<lambda>k. k = key) (keys block) of Some i \<Rightarrow> i | None \<Rightarrow> 0)
        in (True, ready_thread_with index (word_of_nat p) (consume_key key index tm)))"

fun wake_loop :: "u32 \<Rightarrow> bool \<Rightarrow> nat list \<Rightarrow> nat \<Rightarrow> 'f ThreadManager \<Rightarrow> nat \<times> 'f ThreadManager" where
  "wake_loop key wake_all [] woken tm = (woken, tm)"
| "wake_loop key wake_all (index # rest) woken tm =
     (case thread_state (threads tm ! index) of
        Waiting block \<Rightarrow>
          (case wake_one key index block tm of (w, tm') \<Rightarrow>
             let woken' = (if w then Suc woken else woken) in
             if \<not> wake_all \<and> woken' > 0 then (woken', tm') else wake_loop key wake_all rest woken' tm')
      | _ \<Rightarrow> wake_loop key wake_all rest woken tm)"

definition wake_by_key :: "u32 \<Rightarrow> bool \<Rightarrow> 'f ThreadManager \<Rightarrow> nat \<times> 'f ThreadManager" where
  "wake_by_key key wake_all tm =
     wake_loop key wake_all (filter (\<lambda>i. waits_on key (threads tm ! i)) [0 ..< length (threads tm)]) 0 tm"

definition exit_active :: "u32 \<Rightarrow> 'f ThreadManager \<Rightarrow> CpuState \<Rightarrow> bool \<times> 'f ThreadManager \<times> CpuState" where
  "exit_active status tm c =
     (let tm1 = publish_thread_exit (current tm) status (set_state (current tm) Terminated tm);
          tm2 = snd (wake_by_key (THREAD_HANDLE_BASE + word_of_nat (current tm) * 4) True tm1);
          tm3 = (if current tm < length (threads tm2)
                 then snd (wake_by_key (kpcr (threads tm2 ! current tm) + KTHREAD_OFFSET) True tm2) else tm2)
      in case position (\<lambda>t. thread_state t = Ready) (threads tm3) of
           None \<Rightarrow> (False, tm3, c)
         | Some n \<Rightarrow> (True, switch_to n tm3 c))"

section \<open>Parking\<close>

definition park_pending :: "u32 list \<Rightarrow> bool \<Rightarrow> u64 option \<Rightarrow> u32 \<Rightarrow> 'f ThreadManager \<Rightarrow> 'f ThreadManager" where
  "park_pending ks every timeout_ms status tm =
     tm\<lparr>pending := Some (PendingWait
        \<lparr>keys = ks, wait_all = every,
         deadline = map_option (\<lambda>ms. saturating_add (elapsed_ms tm) (max ms 1)) timeout_ms,
         timeout_status = status\<rparr>)\<rparr>"

definition park_active :: "WaitBlock \<Rightarrow> 'f ThreadManager \<Rightarrow> CpuState \<Rightarrow> bool \<times> 'f ThreadManager \<times> CpuState" where
  "park_active block tm c =
     (let tm1 = upd_thread (current tm) (\<lambda>t. t\<lparr>thread_cpu := c, thread_state := Waiting block\<rparr>) tm in
      case find (\<lambda>i. i \<noteq> current tm1 \<and> thread_state (threads tm1 ! i) = Ready) [0 ..< length (threads tm1)] of
        None \<Rightarrow> (False, tm1, c)
      | Some n \<Rightarrow> (True, switch_to n tm1 c))"

definition active_runnable :: "'f ThreadManager \<Rightarrow> bool" where
  "active_runnable tm \<longleftrightarrow>
     current tm < length (threads tm) \<and> thread_state (threads tm ! current tm) = Running"

definition resume_any_ready :: "'f ThreadManager \<Rightarrow> CpuState \<Rightarrow> bool \<times> 'f ThreadManager \<times> CpuState" where
  "resume_any_ready tm c =
     (if active_runnable tm then (True, tm, c)
      else case position (\<lambda>t. thread_state t = Ready) (threads tm) of
             None \<Rightarrow> (False, tm, c)
           | Some n \<Rightarrow> (True, switch_to n tm c))"

definition consider_wake :: "u64 \<Rightarrow> u64 option \<Rightarrow> u64 option" where
  "consider_wake a nxt = Some (case nxt of None \<Rightarrow> a | Some known \<Rightarrow> min known a)"

definition thread_deadline :: "GuestThread \<Rightarrow> u64 option" where
  "thread_deadline t = (case thread_state t of Waiting block \<Rightarrow> deadline block | _ \<Rightarrow> None)"

definition is_waiting :: "GuestThread \<Rightarrow> bool" where
  "is_waiting t = (case thread_state t of Waiting _ \<Rightarrow> True | _ \<Rightarrow> False)"

definition wake_hint :: "'f ThreadManager \<Rightarrow> u64 option \<times> bool \<times> bool" where
  "wake_hint tm =
     (let after_timers = fold (\<lambda>timer. consider_wake (due_at timer)) (timers tm) None;
          nxt = fold (\<lambda>t n. case thread_deadline t of Some d \<Rightarrow> consider_wake d n | None \<Rightarrow> n) (threads tm) after_timers
      in (nxt, list_ex (\<lambda>(_, connected). connected) (interrupts tm), list_ex is_waiting (threads tm)))"

definition live_threads :: "'f ThreadManager \<Rightarrow> nat" where
  "live_threads tm = length (filter (\<lambda>t. thread_state t \<noteq> Terminated) (threads tm))"

section \<open>Time\<close>

definition queue_dpc :: "u32 \<Rightarrow> 'f ThreadManager \<Rightarrow> bool \<times> 'f ThreadManager" where
  "queue_dpc dpc tm =
     (if dpc \<in> set (dpc_queue tm) then (False, tm) else (True, tm\<lparr>dpc_queue := dpc_queue tm @ [dpc]\<rparr>))"

definition expired_waits :: "'f ThreadManager \<Rightarrow> (nat \<times> u32) list" where
  "expired_waits tm =
     List.map_filter (\<lambda>i. case thread_state (threads tm ! i) of
         Waiting block \<Rightarrow> (case deadline block of
             Some at \<Rightarrow> if at \<le> elapsed_ms tm then Some (i, timeout_status block) else None
           | None \<Rightarrow> None)
       | _ \<Rightarrow> None) [0 ..< length (threads tm)]"

text \<open>The closure of \<^verbatim>\<open>retain_mut\<close>: the timers that stay, re-armed where they repeat, and the procedures that are due.\<close>

fun fire_timers :: "u64 \<Rightarrow> ArmedTimer list \<Rightarrow> ArmedTimer list \<times> u32 list" where
  "fire_timers now [] = ([], [])"
| "fire_timers now (t # ts) =
     (let (kept, due) = fire_timers now ts in
      if due_at t > now then (t # kept, due)
      else let due' = (if at_dpc t \<noteq> 0 then at_dpc t # due else due) in
           if period t > 0 then (t\<lparr>due_at := saturating_add now (period t)\<rparr> # kept, due') else (kept, due'))"

definition advance_timers :: "u64 \<Rightarrow> 'f ThreadManager \<Rightarrow> 'f ThreadManager" where
  "advance_timers milliseconds tm =
     (let tm0 = tm\<lparr>elapsed_ms := saturating_add (elapsed_ms tm) milliseconds\<rparr> in
      if milliseconds = 0 then tm0
      else
        let tm1 = fold (\<lambda>(index, status). ready_thread_with index status) (expired_waits tm0) tm0 in
        if timers tm1 = [] then tm1
        else let (kept, due) = fire_timers (elapsed_ms tm1) (timers tm1) in
             fold (\<lambda>dpc t. snd (queue_dpc dpc t)) due (tm1\<lparr>timers := kept\<rparr>))"

definition take_dpc :: "'f ThreadManager \<Rightarrow> u32 option \<times> 'f ThreadManager" where
  "take_dpc tm = (case dpc_queue tm of [] \<Rightarrow> (None, tm) | dpc # rest \<Rightarrow> (Some dpc, tm\<lparr>dpc_queue := rest\<rparr>))"

definition has_queued_dpc :: "'f ThreadManager \<Rightarrow> bool" where
  "has_queued_dpc tm \<longleftrightarrow> dpc_queue tm \<noteq> []"

definition set_timer :: "u32 \<Rightarrow> 64 word \<Rightarrow> u32 \<Rightarrow> u32 \<Rightarrow> 'f ThreadManager \<Rightarrow> bool \<times> 'f ThreadManager" where
  "set_timer timer due per dpc tm =
     (let delay_ms = (if sint due < 0 then min (nat \<bar>sint due\<bar> div 10000) (2 ^ 32 - 1) else 0);
          armed = \<lparr>at_object = timer, at_dpc = dpc, due_at = saturating_add (elapsed_ms tm) (word_of_nat delay_ms),
                   period = ucast per\<rparr> in
      if list_ex (\<lambda>known. at_object known = timer) (timers tm)
      then (True, tm\<lparr>timers := update_first (\<lambda>known. at_object known = timer) (\<lambda>_. armed) (timers tm)\<rparr>)
      else (False, tm\<lparr>timers := timers tm @ [armed]\<rparr>))"

definition cancel_timer :: "u32 \<Rightarrow> 'f ThreadManager \<Rightarrow> bool \<times> 'f ThreadManager" where
  "cancel_timer timer tm =
     (let kept = filter (\<lambda>known. at_object known \<noteq> timer) (timers tm)
      in (length (timers tm) \<noteq> length kept, tm\<lparr>timers := kept\<rparr>))"

section \<open>Interrupts\<close>

definition interrupt_routine :: "'f ThreadManager \<Rightarrow> u32 \<Rightarrow> InterruptRoutine option" where
  "interrupt_routine tm vector =
     map_option fst (find (\<lambda>(known, connected). connected \<and> ir_vector known = vector) (interrupts tm))"

definition set_interrupt_routine :: "InterruptRoutine \<Rightarrow> 'f ThreadManager \<Rightarrow> 'f ThreadManager" where
  "set_interrupt_routine ir tm =
     (if list_ex (\<lambda>(known, _). ir_object known = ir_object ir) (interrupts tm)
      then tm\<lparr>interrupts := update_first (\<lambda>(known, _). ir_object known = ir_object ir) (\<lambda>(_, connected). (ir, connected))
                (interrupts tm)\<rparr>
      else tm\<lparr>interrupts := interrupts tm @ [(ir, False)]\<rparr>)"

definition connect_interrupt :: "u32 \<Rightarrow> bool \<Rightarrow> 'f ThreadManager \<Rightarrow> 'f ThreadManager" where
  "connect_interrupt object connected tm =
     tm\<lparr>interrupts := update_first (\<lambda>(known, _). ir_object known = object) (\<lambda>(known, _). (known, connected))
          (interrupts tm)\<rparr>"

section \<open>Events, mutants and waits\<close>

definition exit_current_thread :: "u32 \<Rightarrow> 'f ThreadManager \<Rightarrow> 'f ThreadManager" where
  "exit_current_thread status tm = tm\<lparr>pending := Some (PendingExit status)\<rparr>"

definition close_handle :: "(u32 \<Rightarrow> 'f \<Rightarrow> bool \<times> 'f) \<Rightarrow> u32 \<Rightarrow> 'f ThreadManager \<Rightarrow> bool \<times> 'f ThreadManager" where
  "close_handle files_close handle tm =
     (if handle \<in> handles tm then (True, tm\<lparr>handles := handles tm - {handle}\<rparr>)
      else case files_close handle (files tm) of
        (True, fs) \<Rightarrow> (True, tm\<lparr>files := fs\<rparr>)
      | (False, fs) \<Rightarrow>
          (events tm handle \<noteq> None, tm\<lparr>files := fs, events := (events tm)(handle := None)\<rparr>))"

definition create_event :: "bool \<Rightarrow> bool \<Rightarrow> 'f ThreadManager \<Rightarrow> u32 \<times> 'f ThreadManager" where
  "create_event manual_reset initially_signaled tm =
     (let handle = next_event_handle tm in
      (handle, tm\<lparr>next_event_handle := handle + 4, events := (events tm)(handle \<mapsto> (manual_reset, initially_signaled))\<rparr>))"

definition set_event :: "u32 \<Rightarrow> ('f ThreadManager, KernelServiceError, bool) st" where
  "set_event handle tm =
     (case events tm handle of
        None \<Rightarrow> (Inl InvalidHandle, tm)
      | Some (manual, previous) \<Rightarrow>
          (let (woke, tm1) = wake_by_key handle manual (tm\<lparr>events := (events tm)(handle \<mapsto> (manual, True))\<rparr>) in
           (Inr previous,
            if woke > 0 \<and> \<not> manual then
              (case events tm1 handle of
                 Some (m, _) \<Rightarrow> tm1\<lparr>events := (events tm1)(handle \<mapsto> (m, False))\<rparr> | None \<Rightarrow> tm1)
            else tm1)))"

definition resume_thread :: "u32 \<Rightarrow> ('f ThreadManager, KernelServiceError, u32) st" where
  "resume_thread handle tm =
     (case thread_index tm handle of
        None \<Rightarrow> (Inl InvalidHandle, tm)
      | Some index \<Rightarrow>
          (if thread_state (threads tm ! index) = Suspended then (Inr 1, set_state index Ready tm) else (Inr 0, tm)))"

definition suspend_thread :: "u32 \<Rightarrow> ('f ThreadManager, KernelServiceError, u32) st" where
  "suspend_thread handle tm =
     (case thread_index tm handle of
        None \<Rightarrow> (Inl InvalidHandle, tm)
      | Some index \<Rightarrow>
          (if index = current tm then (Inl AccessDenied, tm)
           else if thread_state (threads tm ! index) = Ready then (Inr 0, set_state index Suspended tm)
           else (Inr 1, tm)))"

definition create_mutant :: "bool \<Rightarrow> 'f ThreadManager \<Rightarrow> u32 \<times> 'f ThreadManager" where
  "create_mutant initially_owned tm =
     (let handle = next_mutant_handle tm in
      (handle, tm\<lparr>next_mutant_handle := handle + 4,
                  mutants := (mutants tm)(handle \<mapsto> (if initially_owned then Some (current tm, 1) else None)),
                  handles := insert handle (handles tm)\<rparr>))"

definition release_mutant :: "u32 \<Rightarrow> ('f ThreadManager, KernelServiceError, u32) st" where
  "release_mutant handle tm =
     (case mutants tm handle of
        None \<Rightarrow> (Inl InvalidHandle, tm)
      | Some None \<Rightarrow> (Inl AccessDenied, tm)
      | Some (Some (holder, recursion)) \<Rightarrow>
          (if holder \<noteq> current tm then (Inl AccessDenied, tm)
           else let owner = (if recursion > 1 then Some (holder, recursion - 1) else None);
                    tm1 = tm\<lparr>mutants := (mutants tm)(handle \<mapsto> owner)\<rparr>
                in (Inr (recursion - 1), if owner = None then snd (wake_by_key handle False tm1) else tm1)))"

definition wait_for_dispatcher_object ::
  "u32 \<Rightarrow> u64 option \<Rightarrow> ('f ThreadManager, KernelServiceError, WaitOutcome) st" where
  "wait_for_dispatcher_object address timeout_ms tm =
     (if timeout_ms = Some 0 then (Inr TimedOut, tm)
      else (Inr Pending, park_pending [address] False timeout_ms STATUS_TIMEOUT tm))"

definition signal_dispatcher_object :: "u32 \<Rightarrow> 'f ThreadManager \<Rightarrow> 'f ThreadManager" where
  "signal_dispatcher_object address tm =
     (let kind = (case tm_read_u32 tm address of Inr word \<Rightarrow> word AND 0xFF | Inl _ \<Rightarrow> 0);
          auto_reset = (kind = SYNCHRONIZATION_EVENT_TYPE);
          (woke, tm1) = wake_by_key address (\<not> auto_reset) tm in
      if auto_reset \<and> woke > 0 then snd (tm_write_u32 (address + DISPATCHER_SIGNAL_STATE) 0 tm1) else tm1)"

definition transfer_section_wake :: "u32 \<Rightarrow> 'f ThreadManager \<Rightarrow> u32 option \<times> 'f ThreadManager" where
  "transfer_section_wake address tm =
     (case position (waits_on address) (threads tm) of
        None \<Rightarrow> (None, tm)
      | Some index \<Rightarrow>
          (let tm1 = ready_thread_with index 0 tm in (Some (kpcr (threads tm1 ! index) + KTHREAD_OFFSET), tm1)))"

definition object_for_handle :: "'f ThreadManager \<Rightarrow> u32 \<Rightarrow> u32 option" where
  "object_for_handle tm handle =
     (let index = (if handle = CURRENT_THREAD_PSEUDO_HANDLE then Some (current tm)
                   else map_option (\<lambda>d. unat (d div 4)) (checked_sub handle THREAD_HANDLE_BASE)) in
      case index of
        None \<Rightarrow> None
      | Some i \<Rightarrow> if i < length (threads tm) then Some (kpcr (threads tm ! i) + KTHREAD_OFFSET) else None)"

definition yield_thread :: "'f ThreadManager \<Rightarrow> bool" where
  "yield_thread tm =
     (let count = length (threads tm) in
      list_ex (\<lambda>i. thread_state (threads tm ! i) = Ready) (map (\<lambda>offset. (current tm + offset) mod count) [1 ..< count]))"

definition known_key :: "'f ThreadManager \<Rightarrow> u32 \<Rightarrow> bool" where
  "known_key tm key \<longleftrightarrow> events tm key \<noteq> None \<or> mutants tm key \<noteq> None \<or> thread_index tm key \<noteq> None"

definition wait_unowned :: "u32 \<Rightarrow> u64 option \<Rightarrow> ('f ThreadManager, KernelServiceError, WaitOutcome) st" where
  "wait_unowned handle timeout_ms tm =
     (if \<not> known_key tm handle then (Inl InvalidHandle, tm)
      else if key_signaled tm handle (current tm) then (Inr Signaled, consume_key handle (current tm) tm)
      else if timeout_ms = Some 0 then (Inr TimedOut, tm)
      else (Inr Pending, park_pending [handle] False timeout_ms STATUS_TIMEOUT tm))"

definition wait_for_object :: "u32 \<Rightarrow> u64 option \<Rightarrow> ('f ThreadManager, KernelServiceError, WaitOutcome) st" where
  "wait_for_object handle timeout_ms tm =
     (case mutants tm handle of
        Some (Some (holder, recursion)) \<Rightarrow>
          (if holder = current tm
           then (Inr Signaled, tm\<lparr>mutants := (mutants tm)(handle \<mapsto> Some (holder, recursion + 1))\<rparr>)
           else wait_unowned handle timeout_ms tm)
      | _ \<Rightarrow> wait_unowned handle timeout_ms tm)"

definition wait_for_objects ::
  "u32 list \<Rightarrow> bool \<Rightarrow> u64 option \<Rightarrow> ('f ThreadManager, KernelServiceError, MultiWaitOutcome) st" where
  "wait_for_objects ks every timeout_ms tm =
     (if \<not> list_all (known_key tm) ks then (Inl InvalidHandle, tm)
      else if every \<and> list_all (\<lambda>key. key_signaled tm key (current tm)) ks
      then (Inr (MultiSatisfied 0), fold (\<lambda>key. consume_key key (current tm)) ks tm)
      else case (if every then None else position (\<lambda>key. key_signaled tm key (current tm)) ks) of
        Some p \<Rightarrow> (Inr (MultiSatisfied (word_of_nat p)), consume_key (ks ! p) (current tm) tm)
      | None \<Rightarrow>
          (if timeout_ms = Some 0 then (Inr MultiTimedOut, tm)
           else (Inr MultiPending, park_pending ks every timeout_ms STATUS_TIMEOUT tm)))"

definition sleep_thread :: "u64 \<Rightarrow> 'f ThreadManager \<Rightarrow> WaitOutcome \<times> 'f ThreadManager" where
  "sleep_thread timeout_ms tm =
     (if timeout_ms = 0 then (Signaled, tm) else (Pending, park_pending [] False (Some timeout_ms) 0 tm))"

definition persist_memory :: "u32 \<Rightarrow> u32 \<Rightarrow> 'f ThreadManager \<Rightarrow> 'f ThreadManager" where
  "persist_memory base size' tm =
     (if list_ex (\<lambda>(existing, _). existing = base) (persisted tm)
      then tm\<lparr>persisted := update_first (\<lambda>(existing, _). existing = base) (\<lambda>(b, len). (b, max len size')) (persisted tm)\<rparr>
      else tm\<lparr>persisted := persisted tm @ [(base, size')]\<rparr>)"

end
