(* ===== verification/Thread_Waits.thy ===== *)
theory Thread_Waits
  imports Thread_Table
begin

text \<open>
  Reasoning about the thread table: lemmas for the list operations, the effect of waking on the other threads, and the
  two invariants of the scheduler, that at most the current thread runs and that no thread stays parked on a wait that is
  over.
\<close>

section \<open>Lists\<close>

lemma position_Some:
  assumes "position P xs = Some i"
  shows "i < length xs \<and> P (xs ! i) \<and> (\<forall>j < i. \<not> P (xs ! j))"
proof -
  have "find (\<lambda>i. P (xs ! i)) [0 ..< length xs] = Some i"
    using assms by (simp add: position_def)
  then obtain n where n: "n < length xs" "P (xs ! n)" "i = n" "\<forall>j < n. \<not> P (xs ! ([0 ..< length xs] ! j))"
    by (auto simp: find_Some_iff)
  then show ?thesis by auto
qed

lemma position_None: "position P xs = None \<longleftrightarrow> (\<forall>x \<in> set xs. \<not> P x)"
  by (auto simp: position_def find_None_iff all_set_conv_all_nth)

lemma find_upt_Some:
  "find P [a ..< b] = Some i \<longleftrightarrow> a \<le> i \<and> i < b \<and> P i \<and> (\<forall>j. a \<le> j \<and> j < i \<longrightarrow> \<not> P j)"
proof (induction b)
  case (Suc b)
  show ?case
  proof (cases "a \<le> b")
    case True
    then have "find P [a ..< Suc b] = (case find P [a ..< b] of None \<Rightarrow> if P b then Some b else None | Some x \<Rightarrow> Some x)"
      by (simp add: find_append split: option.split)
    moreover have "find P [a ..< b] = None \<longleftrightarrow> (\<forall>j. a \<le> j \<and> j < b \<longrightarrow> \<not> P j)"
      by (auto simp: find_None_iff)
    ultimately show ?thesis
      using Suc True by (cases "find P [a ..< b]") (auto simp: less_Suc_eq)
  qed auto
qed simp

section \<open>Frame facts\<close>

lemma upd_thread_simps [simp]:
  "length (threads (upd_thread i f tm)) = length (threads tm)"
  "memory (upd_thread i f tm) = memory tm" "current (upd_thread i f tm) = current tm"
  "pending (upd_thread i f tm) = pending tm" "handles (upd_thread i f tm) = handles tm"
  "timers (upd_thread i f tm) = timers tm" "dpc_queue (upd_thread i f tm) = dpc_queue tm"
  "elapsed_ms (upd_thread i f tm) = elapsed_ms tm" "events (upd_thread i f tm) = events tm"
  "mutants (upd_thread i f tm) = mutants tm" "next_event_handle (upd_thread i f tm) = next_event_handle tm"
  "next_mutant_handle (upd_thread i f tm) = next_mutant_handle tm"
  by (simp_all add: upd_thread_def)

lemma nth_upd_thread:
  "j < length (threads tm) \<Longrightarrow>
     threads (upd_thread i f tm) ! j = (if i = j then f (threads tm ! i) else threads tm ! j)"
  by (simp add: upd_thread_def nth_list_update)

lemma consume_key_simps [simp]:
  "threads (consume_key k i tm) = threads tm" "memory (consume_key k i tm) = memory tm"
  "current (consume_key k i tm) = current tm" "pending (consume_key k i tm) = pending tm"
  "handles (consume_key k i tm) = handles tm" "elapsed_ms (consume_key k i tm) = elapsed_ms tm"
  "timers (consume_key k i tm) = timers tm" "dpc_queue (consume_key k i tm) = dpc_queue tm"
  "next_event_handle (consume_key k i tm) = next_event_handle tm"
  "next_mutant_handle (consume_key k i tm) = next_mutant_handle tm"
  by (simp_all add: consume_key_def split: option.splits)

text \<open>Waking changes threads that wait, to ready ones with a status in EAX, consumes signals, and leaves the rest alone.\<close>

definition woken_as :: "GuestThread \<Rightarrow> GuestThread \<Rightarrow> bool" where
  "woken_as t t' \<longleftrightarrow> is_waiting t \<and>
     (\<exists>eax. t' = t\<lparr>thread_cpu := set_gpr 0 eax (thread_cpu t), thread_state := Ready\<rparr>)"

definition wakes :: "'f ThreadManager \<Rightarrow> 'f ThreadManager \<Rightarrow> bool" where
  "wakes tm tm' \<longleftrightarrow>
     length (threads tm') = length (threads tm) \<and> current tm' = current tm \<and> memory tm' = memory tm \<and>
     elapsed_ms tm' = elapsed_ms tm \<and>
     handles tm' = handles tm \<and> pending tm' = pending tm \<and> next_event_handle tm' = next_event_handle tm \<and>
     next_mutant_handle tm' = next_mutant_handle tm \<and> dom (events tm') = dom (events tm) \<and>
     dom (mutants tm') = dom (mutants tm) \<and>
     (\<forall>i < length (threads tm). threads tm' ! i = threads tm ! i \<or> woken_as (threads tm ! i) (threads tm' ! i))"

lemma wakes_refl [simp]: "wakes tm tm"
  by (simp add: wakes_def)

lemma woken_not_waiting: "woken_as t t' \<Longrightarrow> \<not> is_waiting t'"
  by (auto simp: woken_as_def is_waiting_def)

lemma wakes_trans:
  assumes "wakes a b" "wakes b c"
  shows "wakes a c"
proof -
  have "threads c ! i = threads a ! i \<or> woken_as (threads a ! i) (threads c ! i)" if "i < length (threads a)" for i
  proof -
    have "threads b ! i = threads a ! i \<or> woken_as (threads a ! i) (threads b ! i)"
      and "threads c ! i = threads b ! i \<or> woken_as (threads b ! i) (threads c ! i)"
      using assms that by (simp_all add: wakes_def)
    then show ?thesis using woken_not_waiting by (auto simp: woken_as_def)
  qed
  with assms show ?thesis by (simp add: wakes_def)
qed

lemma wakes_consume: "wakes tm (consume_key k i tm)"
  by (auto simp: wakes_def consume_key_def split: option.splits)

lemma wakes_ready: "is_waiting (threads tm ! i) \<Longrightarrow> wakes tm (ready_thread_with i eax tm)"
  by (auto simp: wakes_def ready_thread_with_def nth_upd_thread woken_as_def)

lemma wakes_fold_consume: "wakes tm (fold (\<lambda>k. consume_key k i) ks tm)"
  by (induction ks arbitrary: tm) (auto intro: wakes_trans wakes_consume)

lemma fold_consume_threads [simp]: "threads (fold (\<lambda>k. consume_key k i) ks tm) = threads tm"
  by (induction ks arbitrary: tm) auto

lemma wakes_wake_one: "wake_one key index block tm = (w, tm') \<Longrightarrow> is_waiting (threads tm ! index) \<Longrightarrow> wakes tm tm'"
  by (auto simp: wake_one_def Let_def split: if_splits
      intro: wakes_trans [OF wakes_fold_consume wakes_ready] wakes_trans [OF wakes_consume wakes_ready])

lemma wakes_wake_loop: "wake_loop key all cands n tm = (n', tm') \<Longrightarrow> wakes tm tm'"
proof (induction cands arbitrary: n tm)
  case (Cons index rest)
  show ?case
  proof (cases "thread_state (threads tm ! index)")
    case (Waiting block)
    obtain w t where one: "wake_one key index block tm = (w, t)" by (cases "wake_one key index block tm")
    have "is_waiting (threads tm ! index)"
      using Waiting by (simp add: is_waiting_def)
    with one have "wakes tm t" by (rule wakes_wake_one)
    moreover have "t = tm' \<or> (\<exists>m. wake_loop key all rest m t = (n', tm'))"
      using Cons.prems Waiting one by (auto simp: Let_def split: if_splits)
    ultimately show ?thesis using Cons.IH wakes_trans by blast
  qed (use Cons in auto)
qed simp

section \<open>Waits that are over\<close>

text \<open>The keys whose signal the table keeps are those of live handles; a key that is a guest address is signalled by the
  guest in its own memory.\<close>

definition sig :: "'f ThreadManager \<Rightarrow> u32 \<Rightarrow> nat \<Rightarrow> bool" where
  "sig tm k i \<longleftrightarrow> known_key tm k \<and> key_signaled tm k i"

definition over :: "(u32 \<Rightarrow> bool) \<Rightarrow> WaitBlock \<Rightarrow> bool" where
  "over S b \<longleftrightarrow> (if wait_all b then \<forall>k \<in> set (keys b). S k else \<exists>k \<in> set (keys b). S k)"

definition waiting :: "'f ThreadManager \<Rightarrow> nat \<Rightarrow> WaitBlock \<Rightarrow> bool" where
  "waiting tm i b \<longleftrightarrow> i < length (threads tm) \<and> thread_state (threads tm ! i) = Waiting b"

definition no_lost :: "'f ThreadManager \<Rightarrow> bool" where
  "no_lost tm \<longleftrightarrow> (\<forall>i b. waiting tm i b \<longrightarrow> \<not> over (\<lambda>k. sig tm k i) b)"

lemma over_mono: "over S b \<Longrightarrow> (\<And>k. k \<in> set (keys b) \<Longrightarrow> S k \<Longrightarrow> S' k) \<Longrightarrow> over S' b"
  by (auto simp: over_def split: if_splits)

text \<open>A change is calm if nothing starts to wait and no signal appears.\<close>

definition calm :: "'f ThreadManager \<Rightarrow> 'f ThreadManager \<Rightarrow> bool" where
  "calm tm tm' \<longleftrightarrow> (\<forall>i b. waiting tm' i b \<longrightarrow> waiting tm i b) \<and> (\<forall>k i. sig tm' k i \<longrightarrow> sig tm k i)"

lemma calm_refl [simp]: "calm tm tm"
  by (simp add: calm_def)

lemma calm_trans: "calm a b \<Longrightarrow> calm b c \<Longrightarrow> calm a c"
  by (auto simp: calm_def)

lemma calm_no_lost: "calm tm tm' \<Longrightarrow> no_lost tm \<Longrightarrow> no_lost tm'"
  unfolding calm_def no_lost_def by (blast intro: over_mono)

lemma known_key_consume [simp]: "known_key (consume_key k i tm) = known_key tm"
  by (auto simp: known_key_def consume_key_def thread_index_def fun_eq_iff split: option.splits)

lemma key_signaled_consume: "key_signaled (consume_key k j tm) k' i \<Longrightarrow> key_signaled tm k' i"
  by (auto simp: key_signaled_def consume_key_def thread_index_def tm_read_u32_def split: option.splits if_splits)

lemma calm_consume: "calm tm (consume_key k i tm)"
  by (auto simp: calm_def waiting_def sig_def dest: key_signaled_consume)

lemma calm_fold_consume: "calm tm (fold (\<lambda>k. consume_key k i) ks tm)"
  by (induction ks arbitrary: tm) (auto intro: calm_trans calm_consume)

lemma calm_ready:
  assumes "is_waiting (threads tm ! i)"
  shows "calm tm (ready_thread_with i eax tm)"
  using assms
  by (auto simp: calm_def waiting_def sig_def known_key_def key_signaled_def thread_index_def tm_read_u32_def
      ready_thread_with_def nth_upd_thread Let_def split: option.splits if_splits)

lemma calm_wake_one: "wake_one key index block tm = (w, tm') \<Longrightarrow> is_waiting (threads tm ! index) \<Longrightarrow> calm tm tm'"
  by (auto simp: wake_one_def Let_def split: if_splits
      intro: calm_trans [OF calm_fold_consume calm_ready] calm_trans [OF calm_consume calm_ready])

text \<open>Waking every candidate: a candidate that still waits afterwards waits for all its keys, and one of them is not signalled.\<close>

lemma wake_one_leaves:
  assumes "wake_one key index block tm = (w, tm')" and "waiting tm' index b" and "waiting tm index block"
  shows "\<not> w \<and> tm' = tm \<and> \<not> over (\<lambda>k. sig tm k index) block"
proof -
  have "\<not> waiting (ready_thread_with index e (t :: 'a ThreadManager)) index b" for t e
    by (cases "index < length (threads t)") (simp_all add: waiting_def ready_thread_with_def nth_upd_thread)
  then show ?thesis
    using assms by (auto simp: wake_one_def Let_def over_def sig_def list_all_iff split: if_splits)
qed

lemma waiting_unique: "waiting tm i b \<Longrightarrow> waiting tm i c \<Longrightarrow> b = c"
  by (simp add: waiting_def)

lemma calm_wake_loop: "wake_loop key all cands n tm = (n', tm') \<Longrightarrow> calm tm tm'"
proof (induction cands arbitrary: n tm)
  case (Cons index rest)
  show ?case
  proof (cases "thread_state (threads tm ! index)")
    case (Waiting block)
    obtain w t where one: "wake_one key index block tm = (w, t)" by (cases "wake_one key index block tm")
    have "is_waiting (threads tm ! index)"
      using Waiting by (simp add: is_waiting_def)
    with one have "calm tm t" by (rule calm_wake_one)
    moreover have "t = tm' \<or> (\<exists>m. wake_loop key all rest m t = (n', tm'))"
      using Cons.prems Waiting one by (auto simp: Let_def split: if_splits)
    ultimately show ?thesis using Cons.IH calm_trans by blast
  qed (use Cons in auto)
qed simp

lemma wake_loop_settles:
  assumes "wake_loop key all cands n tm = (n', tm')" and "all \<or> n' = 0"
    and "waiting tm' i b" and "i \<in> set cands"
  shows "\<not> over (\<lambda>k. sig tm' k i) b"
  using assms
proof (induction cands arbitrary: n tm)
  case (Cons index rest)
  have start: "waiting tm i b"
    using calm_wake_loop [OF Cons.prems(1)] Cons.prems(3) by (simp add: calm_def)
  show ?case
  proof (cases "thread_state (threads tm ! index)")
    case (Waiting block)
    obtain w t where one: "wake_one key index block tm = (w, t)" by (cases "wake_one key index block tm")
    obtain m where rest: "wake_loop key all rest m t = (n', tm')"
      using Cons.prems(1,2) Waiting one by (auto simp: Let_def split: if_splits)
    show ?thesis
    proof (cases "i \<in> set rest")
      case True
      with Cons.IH [OF rest] Cons.prems show ?thesis by blast
    next
      case False
      then have "i = index" using Cons.prems by simp
      have c: "calm t tm'" using rest by (rule calm_wake_loop)
      then have "waiting t i b" using Cons.prems(3) by (simp add: calm_def)
      moreover from this have "length (threads t) = length (threads tm)"
        using wakes_wake_one [OF one] Waiting by (simp add: wakes_def is_waiting_def)
      ultimately have "t = tm \<and> \<not> over (\<lambda>k. sig tm k i) block" and "b = block"
        using wake_one_leaves [OF one] Waiting \<open>i = index\<close> by (auto simp: waiting_def)
      with c show ?thesis by (auto simp: calm_def intro: over_mono)
    qed
  qed (use Cons start in \<open>auto simp: waiting_def\<close>)
qed simp

lemma wake_loop_first:
  assumes "wake_loop key False cands 0 tm = (n', tm')"
  shows "n' = 0 \<and> tm' = tm \<or>
    (\<exists>index block. index \<in> set cands \<and> thread_state (threads tm ! index) = Waiting block \<and>
       wake_one key index block tm = (True, tm') \<and> n' = 1)"
  using assms
proof (induction cands arbitrary: tm)
  case (Cons index rest)
  show ?case
  proof (cases "thread_state (threads tm ! index)")
    case (Waiting block)
    obtain w t where one: "wake_one key index block tm = (w, t)" by (cases "wake_one key index block tm")
    show ?thesis
    proof (cases w)
      case True
      with Cons.prems Waiting one show ?thesis by auto
    next
      case False
      then have "t = tm" using one by (auto simp: wake_one_def Let_def split: if_splits)
      with False Cons Waiting one show ?thesis by auto
    qed
  qed (use Cons in auto)
qed simp

text \<open>No wait is over but for the signal of \<open>key\<close>.\<close>

definition settled_but :: "u32 \<Rightarrow> 'f ThreadManager \<Rightarrow> bool" where
  "settled_but key tm \<longleftrightarrow> (\<forall>i b. waiting tm i b \<longrightarrow> \<not> over (\<lambda>k. k \<noteq> key \<and> sig tm k i) b)"

text \<open>One taker exhausts the signal: an auto-reset event, or a free mutant.\<close>

definition takeable :: "u32 \<Rightarrow> 'f ThreadManager \<Rightarrow> bool" where
  "takeable key tm \<longleftrightarrow> (\<exists>s. events tm key = Some (False, s)) \<or> events tm key = None \<and> mutants tm key = Some None"

lemma consume_takes: "takeable key tm \<Longrightarrow> key_signaled (consume_key key j tm) key i \<Longrightarrow> i = j"
  by (auto simp: takeable_def key_signaled_def consume_key_def split: option.splits if_splits)

lemma fold_consume_signaled:
  "key_signaled (fold (\<lambda>k. consume_key k j) ks tm) key i \<Longrightarrow> key_signaled tm key i"
  by (induction ks arbitrary: tm) (auto dest: key_signaled_consume)

lemma takeable_consume: "takeable key tm \<Longrightarrow> k \<noteq> key \<Longrightarrow> takeable key (consume_key k j tm)"
  by (auto simp: takeable_def consume_key_def split: option.splits if_splits)

lemma fold_consume_takes:
  "takeable key tm \<Longrightarrow> key \<in> set ks \<Longrightarrow> key_signaled (fold (\<lambda>k. consume_key k j) ks tm) key i \<Longrightarrow> i = j"
proof (induction ks arbitrary: tm)
  case (Cons k ks)
  show ?case
  proof (cases "k = key")
    case True
    with Cons.prems show ?thesis
      using fold_consume_signaled [of j ks "consume_key k j tm" key i] consume_takes by auto
  next
    case False
    with Cons.prems show ?thesis by (intro Cons.IH [OF takeable_consume [of key tm k j]]) auto
  qed
qed simp

lemma key_signaled_ready:
  "is_waiting (threads tm ! j) \<Longrightarrow> key_signaled (ready_thread_with j e tm) k i \<Longrightarrow> key_signaled tm k i"
  by (auto simp: key_signaled_def ready_thread_with_def thread_index_def tm_read_u32_def is_waiting_def nth_upd_thread
      Let_def split: option.splits if_splits)

lemma wake_one_takes:
  assumes one: "wake_one key j block tm = (True, tm')" and "takeable key tm"
    and "thread_state (threads tm ! j) = Waiting block" and "key \<in> set (keys block)"
    and "waiting tm' i b" and "sig tm' k i"
  shows "k \<noteq> key \<and> sig tm k i"
proof -
  have wj: "is_waiting (threads tm ! j)" using assms(3) by (simp add: is_waiting_def)
  have "sig tm k i" using calm_wake_one [OF one wj] assms(6) by (simp add: calm_def)
  moreover have "i \<noteq> j"
  proof
    assume "i = j"
    then have "waiting tm j block"
      using calm_wake_one [OF one wj] assms(3,5) by (auto simp: calm_def waiting_def)
    from wake_one_leaves [OF one _ this] assms(5) \<open>i = j\<close> show False by auto
  qed
  moreover have "\<not> key_signaled tm' key i" if "i \<noteq> j"
    using one that assms(2,4) wj
    by (auto simp: wake_one_def Let_def dest!: key_signaled_ready [rotated]
        dest: fold_consume_takes consume_takes split: if_splits)
  ultimately show ?thesis using assms(6) by (auto simp: sig_def)
qed

lemma waiting_candidate:
  "waiting tm i b \<Longrightarrow> key \<in> set (keys b) \<Longrightarrow>
     i \<in> set (filter (\<lambda>i. waits_on key (threads tm ! i)) [0 ..< length (threads tm)])"
  by (simp add: waiting_def waits_on_def)

lemma settled_but_other:
  assumes "settled_but key tm" "calm tm tm'" "waiting tm' i b" "key \<notin> set (keys b)"
  shows "\<not> over (\<lambda>k. sig tm' k i) b"
proof
  assume "over (\<lambda>k. sig tm' k i) b"
  then have "over (\<lambda>k. k \<noteq> key \<and> sig tm k i) b"
    by (rule over_mono) (use assms in \<open>auto simp: calm_def\<close>)
  moreover have "waiting tm i b" using assms(2,3) by (simp add: calm_def)
  ultimately show False using assms(1) by (auto simp: settled_but_def)
qed

lemma wake_by_key_all:
  assumes "settled_but key tm" and "wake_by_key key True tm = (n, tm')"
  shows "no_lost tm'"
proof -
  have c: "calm tm tm'" using assms(2) unfolding wake_by_key_def by (rule calm_wake_loop)
  have "\<not> over (\<lambda>k. sig tm' k i) b" if w: "waiting tm' i b" for i b
  proof (cases "key \<in> set (keys b)")
    case True
    have "waiting tm i b" using c w by (simp add: calm_def)
    from wake_loop_settles [OF assms(2) [unfolded wake_by_key_def] _ w waiting_candidate [OF this True]]
    show ?thesis by simp
  qed (rule settled_but_other [OF assms(1) c w])
  then show ?thesis by (simp add: no_lost_def)
qed

lemma wake_by_key_one:
  assumes "settled_but key tm" and "takeable key tm" and "wake_by_key key False tm = (n, tm')"
  shows "no_lost tm'"
proof -
  note loop = assms(3) [unfolded wake_by_key_def]
  have c: "calm tm tm'" using loop by (rule calm_wake_loop)
  have "\<not> over (\<lambda>k. sig tm' k i) b" if w: "waiting tm' i b" for i b
  proof (cases "key \<in> set (keys b) \<and> n = 0")
    case True
    have "waiting tm i b" using c w by (simp add: calm_def)
    from wake_loop_settles [OF loop _ w waiting_candidate [OF this]] True show ?thesis by simp
  next
    case False
    show ?thesis
    proof (cases "key \<in> set (keys b)")
      case True
      with False obtain j block where "waits_on key (threads tm ! j)" "thread_state (threads tm ! j) = Waiting block"
        and one: "wake_one key j block tm = (True, tm')"
        using wake_loop_first [OF loop] by auto
      then have "k \<noteq> key \<and> sig tm k i" if "sig tm' k i" for k
        using wake_one_takes [OF one assms(2) _ _ w that] by (simp add: waits_on_def)
      then have "over (\<lambda>k. k \<noteq> key \<and> sig tm k i) b" if "over (\<lambda>k. sig tm' k i) b"
        using that by (rule over_mono [rotated]) simp
      moreover have "waiting tm i b" using c w by (simp add: calm_def)
      ultimately show ?thesis using assms(1) by (auto simp: settled_but_def)
    qed (rule settled_but_other [OF assms(1) c w])
  qed
  then show ?thesis by (simp add: no_lost_def)
qed

lemma wake_by_key_wakes: "wakes tm (snd (wake_by_key key all tm))"
  using wakes_wake_loop [of key all _ 0 tm "fst (wake_by_key key all tm)" "snd (wake_by_key key all tm)"]
  by (simp add: wake_by_key_def)

lemma wake_by_key_calm: "calm tm (snd (wake_by_key key all tm))"
  using calm_wake_loop [of key all _ 0 tm "fst (wake_by_key key all tm)" "snd (wake_by_key key all tm)"]
  by (simp add: wake_by_key_def)

end
