(* ===== verification/Thread_Memory.thy ===== *)
theory Thread_Memory
  imports Thread_Table
begin

text \<open>
  The services of \<^verbatim>\<open>exbawks-kernel/src/runtime.rs\<close> that build guest memory: kernel blocks in the cached physical window,
  the kernel variables, the control pages and stack of a thread, contiguous allocations, and virtual allocations.  A
  service of the address space is lifted to the thread manager that shares it.
\<close>

unbundle bit_operations_syntax

definition THREAD_EXIT_SENTINEL :: GuestVa where "THREAD_EXIT_SENTINEL = 0xFFBFFFF4"

definition KERNEL_WINDOW_BASE :: u32 where "KERNEL_WINDOW_BASE = 0x80000000"

definition USER_ALLOC_END :: u32 where "USER_ALLOC_END = 0x7F000000"

definition MEM_COMMIT :: u32 where "MEM_COMMIT = 0x1000"

definition RESERVE_ALIGN :: u32 where "RESERVE_ALIGN = 0x10000"

definition THREAD_OBJECT_TYPE :: u8 where "THREAD_OBJECT_TYPE = 6"

definition DISPATCHER_WAIT_LIST :: u32 where "DISPATCHER_WAIT_LIST = 0x08"

definition STILL_ACTIVE :: u32 where "STILL_ACTIVE = 0x103"

definition MAX_TLS_BYTES :: u32 where "MAX_TLS_BYTES = 0x100000"

definition PRCB_OFFSET :: u32 where "PRCB_OFFSET = 0x28"

definition MINIMUM_STACK_BYTES :: u32 where "MINIMUM_STACK_BYTES = 0x4000"

definition STACK_SCRATCH :: u32 where "STACK_SCRATCH = 16"

definition LAUNCH_DATA_PAGE_ORDINAL :: u16 where "LAUNCH_DATA_PAGE_ORDINAL = 164"

definition KE_TICK_COUNT_ORDINAL :: u16 where "KE_TICK_COUNT_ORDINAL = 156"

record ThreadCreateRequest =
  thread_extension_size :: u32
  kernel_stack_size :: u32
  tls_data_size :: u32
  start_routine :: GuestVa
  start_context1 :: u32
  start_context2 :: u32
  create_suspended :: bool

record ThreadCreated =
  created_handle :: u32
  created_thread_id :: u32
  kthread :: GuestVa

record VirtualAllocRequest =
  req_base :: u32
  req_size :: u32
  allocation_type :: u32
  req_protect :: u32

record VirtualAllocation =
  va_base :: GuestVa
  va_size :: u32

definition on_memory :: "(SoftwareAddressSpace, MemoryError, 'a) st \<Rightarrow> ('f ThreadManager, MemoryError, 'a) st" where
  "on_memory f tm = (case f (memory tm) of (r, m) \<Rightarrow> (r, tm\<lparr>memory := m\<rparr>))"

definition tm_write :: "GuestVa \<Rightarrow> u8 list \<Rightarrow> ('f ThreadManager, MemoryError, unit) st" where
  "tm_write a bs = on_memory (gm_write sas_memory a bs)"

text \<open>\<^verbatim>\<open>map_err(|_| KernelServiceError::ResourceExhausted)\<close>\<close>

definition exhausted :: "('f ThreadManager, MemoryError, 'a) st \<Rightarrow> ('f ThreadManager, KernelServiceError, 'a) st" where
  "exhausted f tm = (case f tm of (r, tm') \<Rightarrow> (map_err (\<lambda>_. ResourceExhausted) r, tm'))"

definition set_tls_template :: "TlsTemplate \<Rightarrow> 'f ThreadManager \<Rightarrow> 'f ThreadManager" where
  "set_tls_template template tm = tm\<lparr>tls_template := Some template\<rparr>"

definition set_display_mode :: "DisplayMode \<Rightarrow> 'f ThreadManager \<Rightarrow> 'f ThreadManager" where
  "set_display_mode m tm = tm\<lparr>display_mode := Some m\<rparr>"

definition tls_total :: "TlsTemplate \<Rightarrow> u32" where
  "tls_total t =
     saturating_add (min (saturating_sub (raw_end t) (raw_start t)) MAX_TLS_BYTES) (min (zero_fill t) MAX_TLS_BYTES)"

definition tls_reserve_bytes :: "'f ThreadManager \<Rightarrow> u32" where
  "tls_reserve_bytes tm =
     (case tls_template tm of
        None \<Rightarrow> 0
      | Some t \<Rightarrow> saturating_add (saturating_add (tls_total t) 15 AND NOT 15) 16)"

section \<open>Kernel blocks\<close>

definition allocate_kernel_block :: "u32 \<Rightarrow> ('f ThreadManager, MemoryError, GuestRange) st" where
  "allocate_kernel_block bytes =
     (let rounded = saturating_mul (div_ceil_pages (max bytes 1)) 4096 in
      bind_s (on_memory (allocate_physical rounded)) (\<lambda>physical.
      let base = KERNEL_WINDOW_BASE OR physical in
      bind_s (gets_r (\<lambda>_. map_err Address (range_new base (unat rounded)))) (\<lambda>rng.
      bind_s (tm_write base (replicate (unat rounded) 0)) (\<lambda>_.
      ret rng))))"

definition reserve_guard_page :: "'f ThreadManager \<Rightarrow> 'f ThreadManager" where
  "reserve_guard_page tm = snd (on_memory (allocate_physical 4096) tm)"

fun write_words :: "(GuestVa \<times> u32) list \<Rightarrow> ('f ThreadManager, MemoryError, unit) st" where
  "write_words [] = ret ()"
| "write_words ((a, v) # rest) = bind_s (tm_write_u32 a v) (\<lambda>_. write_words rest)"

definition u16_le_bytes :: "u16 \<Rightarrow> u8 list" where
  "u16_le_bytes w = [ucast w, ucast (drop_bit 8 w)]"

definition initialize_kernel_variable ::
  "u16 \<Rightarrow> GuestVa \<Rightarrow> u32 \<Rightarrow> u16 \<Rightarrow> ('f ThreadManager, MemoryError, unit) st" where
  "initialize_kernel_variable ordinal cell name_addr name_len =
     (if ordinal = 157 then tm_write_u32 cell 10000
      else if ordinal = 324 then
        bind_s (tm_write (cell + 0) (u16_le_bytes 1)) (\<lambda>_.
        bind_s (tm_write (cell + 2) (u16_le_bytes 0)) (\<lambda>_.
        bind_s (tm_write (cell + 4) (u16_le_bytes 5838)) (\<lambda>_.
        tm_write (cell + 6) (u16_le_bytes 1))))
      else if ordinal = 326 then
        bind_s (tm_write cell (u16_le_bytes name_len)) (\<lambda>_.
        bind_s (tm_write (cell + 2) (u16_le_bytes name_len)) (\<lambda>_.
        tm_write_u32 (cell + 4) name_addr))
      else ret ())"

fun fill_variables ::
  "u32 \<Rightarrow> u32 \<Rightarrow> u16 \<Rightarrow> (nat \<times> u16) list \<Rightarrow> (u16 \<rightharpoonup> GuestVa) \<Rightarrow>
     ('f ThreadManager, MemoryError, u16 \<rightharpoonup> GuestVa) st" where
  "fill_variables base name_addr name_len [] variables = ret variables"
| "fill_variables base name_addr name_len ((index, ordinal) # rest) variables =
     (let cell = base + word_of_nat index * 64 in
      bind_s (initialize_kernel_variable ordinal cell name_addr name_len) (\<lambda>_.
      bind_s (modify (\<lambda>tm. if ordinal = LAUNCH_DATA_PAGE_ORDINAL then tm\<lparr>launch_data_page_cell := Some cell\<rparr> else tm)) (\<lambda>_.
      bind_s (modify (\<lambda>tm. if ordinal = KE_TICK_COUNT_ORDINAL then tm\<lparr>tick_count_cell := Some cell\<rparr> else tm)) (\<lambda>_.
      fill_variables base name_addr name_len rest (variables(ordinal \<mapsto> cell))))))"

definition build_kernel_variables ::
  "u16 list \<Rightarrow> u8 list \<Rightarrow> ('f ThreadManager, MemoryError, u16 \<rightharpoonup> GuestVa) st" where
  "build_kernel_variables data_ordinals image_name =
     (if data_ordinals = [] then ret Map.empty
      else
        let cells = (case u32_try_from (length data_ordinals) of Some n \<Rightarrow> n | None \<Rightarrow> - 1);
            name_len = min (case u32_try_from (length image_name) of Some n \<Rightarrow> n | None \<Rightarrow> 0) 0xFF;
            region_bytes = saturating_add (saturating_add (saturating_mul cells 64) name_len) 64 in
        bind_s (allocate_kernel_block region_bytes) (\<lambda>region.
        let base = gr_start region;
            name_addr = base + saturating_mul cells 64 in
        bind_s (tm_write name_addr (take (unat name_len) image_name)) (\<lambda>_.
        fill_variables base name_addr (ucast name_len) (List.enumerate 0 data_ordinals) Map.empty)))"

section \<open>Thread pages\<close>

definition initialize_stack_tls :: "u32 \<Rightarrow> ('f ThreadManager, MemoryError, u32) st" where
  "initialize_stack_tls stack_top =
     bind_s (gets tls_template) (\<lambda>template.
     case template of
       None \<Rightarrow> ret 0
     | Some t \<Rightarrow>
         let data_bytes = min (saturating_sub (raw_end t) (raw_start t)) MAX_TLS_BYTES;
             tls_size = saturating_add (saturating_add (tls_total t) 15 AND NOT 15) 4;
             tls_slot = saturating_sub stack_top tls_size;
             tls_data = saturating_add tls_slot 4 in
         bind_s (tm_write_u32 tls_slot tls_data) (\<lambda>_.
         bind_s (if data_bytes > 0
                 then bind_s (gets (\<lambda>tm. fst (gm_read sas_memory (raw_start t) (unat data_bytes) (memory tm)))) (\<lambda>r.
                        case r of Inr bytes \<Rightarrow> tm_write tls_data bytes | Inl _ \<Rightarrow> ret ())
                 else ret ()) (\<lambda>_.
         ret tls_data)))"

definition build_thread_pages :: "GuestVa \<Rightarrow> u32 \<Rightarrow> ('f ThreadManager, MemoryError, GuestVa) st" where
  "build_thread_pages stack_base stack_bytes =
     bind_s (allocate_kernel_block 4096) (\<lambda>kpcr_range.
     let k = gr_start kpcr_range;
         kt = k + KTHREAD_OFFSET;
         stack_top = stack_base + stack_bytes;
         wait_list = kt + DISPATCHER_WAIT_LIST in
     bind_s (write_words
       [(k, 0xFFFFFFFF), (k + 0x04, stack_top), (k + 0x08, stack_base), (k + 0x18, k), (k + 0x1C, k),
        (k + 0x20, k + PRCB_OFFSET), (k + PRCB_OFFSET, kt), (kt, ucast THREAD_OBJECT_TYPE),
        (kt + DISPATCHER_SIGNAL_STATE, 0), (kt + KTHREAD_EXIT_STATUS, STILL_ACTIVE),
        (wait_list, wait_list), (wait_list + 4, wait_list), (kt + 0x1C, stack_top), (kt + 0x20, stack_base)]) (\<lambda>_.
     bind_s (initialize_stack_tls stack_top) (\<lambda>tls_data.
     bind_s (tm_write_u32 (kt + 0x28) tls_data) (\<lambda>_.
     ret k))))"

definition create_boot_environment :: "GuestVa \<Rightarrow> u32 \<Rightarrow> ('f ThreadManager, MemoryError, GuestVa) st" where
  "create_boot_environment stack_base stack_bytes =
     bind_s (build_thread_pages stack_base stack_bytes) (\<lambda>k.
     bind_s (modify (\<lambda>tm. tm\<lparr>threads := threads tm @
        [\<lparr>thread_cpu = cpu_default, thread_state = Running, thread_id = 1, kpcr = k, exits_on_null_return = True\<rparr>],
        current := 0\<rparr>)) (\<lambda>_.
     ret k))"

definition create_thread ::
  "ThreadCreateRequest \<Rightarrow> ('f ThreadManager, KernelServiceError, ThreadCreated) st" where
  "create_thread request =
     (let stack_bytes = max (kernel_stack_size request) MINIMUM_STACK_BYTES in
      bind_s (modify reserve_guard_page) (\<lambda>_.
      bind_s (exhausted (allocate_kernel_block stack_bytes)) (\<lambda>stack.
      bind_s (exhausted (build_thread_pages (gr_start stack) (word_of_nat (gr_len stack)))) (\<lambda>k.
      let kt = k + KTHREAD_OFFSET;
          stack_top = gr_start stack + word_of_nat (gr_len stack) in
      bind_s (gets tls_reserve_bytes) (\<lambda>reserve.
      let esp = saturating_sub (saturating_sub (saturating_sub stack_top reserve) STACK_SCRATCH) 12 in
      bind_s (exhausted (write_words
        [(esp, THREAD_EXIT_SENTINEL), (esp + 4, start_context1 request), (esp + 8, start_context2 request)])) (\<lambda>_.
      let c = set_segment Fs \<lparr>seg_selector = 0, seg_attributes = 0, seg_base = k, seg_limit = 0\<rparr>
                (set_gpr 4 esp (cpu_default\<lparr>eip := start_routine request\<rparr>)) in
      bind_s (gets (\<lambda>tm. length (threads tm))) (\<lambda>index.
      let tid = word_of_nat index + 1;
          handle = THREAD_HANDLE_BASE + word_of_nat index * 4 in
      bind_s (modify (\<lambda>tm. tm\<lparr>handles := insert handle (handles tm),
         threads := threads tm @
           [\<lparr>thread_cpu = c, thread_state = (if create_suspended request then Suspended else Ready), thread_id = tid,
             kpcr = k, exits_on_null_return = False\<rparr>]\<rparr>)) (\<lambda>_.
      ret \<lparr>created_handle = handle, created_thread_id = tid, kthread = kt\<rparr>))))))))"

section \<open>Contiguous and virtual memory\<close>

definition allocate_contiguous :: "u32 \<Rightarrow> ('f ThreadManager, KernelServiceError, GuestVa) st" where
  "allocate_contiguous bytes =
     bind_s (exhausted (allocate_kernel_block bytes)) (\<lambda>rng.
     bind_s (modify (\<lambda>tm. tm\<lparr>pool_sizes := (pool_sizes tm)(gr_start rng \<mapsto> word_of_nat (gr_len rng))\<rparr>)) (\<lambda>_.
     ret (gr_start rng)))"

definition free_contiguous :: "u32 \<Rightarrow> ('f ThreadManager, KernelServiceError, unit) st" where
  "free_contiguous address tm =
     (case pool_sizes tm address of
        None \<Rightarrow> (Inl NotFound, tm)
      | Some bytes \<Rightarrow>
          (let tm1 = tm\<lparr>pool_sizes := (pool_sizes tm)(address := None)\<rparr> in
           if list_ex (\<lambda>(start, len). start \<le> address \<and> address < saturating_add start len) (persisted tm)
           then (Inr (), tm1)
           else (Inr (), tm1\<lparr>memory := free_physical (address AND 0x1FFFFFFF) bytes (memory tm1)\<rparr>)))"

definition pool_block_size :: "'f ThreadManager \<Rightarrow> u32 \<Rightarrow> KernelServiceError + u32" where
  "pool_block_size tm address = ok_or (pool_sizes tm address) NotFound"

definition claim_gpu_instance :: "u32 \<Rightarrow> ('f ThreadManager, KernelServiceError, GuestVa) st" where
  "claim_gpu_instance bytes =
     bind_s (allocate_contiguous bytes) (\<lambda>base.
     bind_s (modify (\<lambda>tm. tm\<lparr>gpu_instance :=
        Some (base, case pool_sizes tm base of Some n \<Rightarrow> n | None \<Rightarrow> bytes)\<rparr>)) (\<lambda>_.
     ret base))"

definition protect_to_permissions :: "u32 \<Rightarrow> MemoryPermissions" where
  "protect_to_permissions flags =
     (let p = flags AND 0xFF in
      if p = 0x01 then 0
      else if p = 0x02 \<or> p = 0x08 then READ
      else if p = 0x10 then EXECUTE
      else if p = 0x20 then READ OR EXECUTE
      else if p = 0x40 \<or> p = 0x80 then READ OR WRITE OR EXECUTE
      else READ OR WRITE)"

lemma saturating_step: "(c :: u32) < e \<Longrightarrow> c < saturating_add c 4096"
proof -
  assume "c < e"
  then have "c \<noteq> - 1" by auto
  then show ?thesis
    by (cases "unat c + 4096 < 4294967296")
      (auto simp: saturating_add_def word_less_nat_alt unat_word_ariths word_order.not_eq_extremum)
qed

text \<open>The loop over the pages of a commit.\<close>

function commit_pages :: "MemoryPermissions \<Rightarrow> u32 \<Rightarrow> u32 \<Rightarrow> ('f ThreadManager, KernelServiceError, unit) st" where
  "commit_pages perms cursor upto' tm =
     (if cursor < upto' then
        (case map_err (\<lambda>_. ResourceExhausted) (range_new cursor 4096) of
           Inl e \<Rightarrow> (Inl e, tm)
         | Inr rng \<Rightarrow>
             (case on_memory (map_anonymous rng perms) tm of
                (Inr _, tm1) \<Rightarrow> commit_pages perms (saturating_add cursor 4096) upto' tm1
              | (Inl _, tm1) \<Rightarrow>
                  (case exhausted (on_memory (sas_protect rng perms)) tm1 of
                     (Inl e, tm2) \<Rightarrow> (Inl e, tm2)
                   | (Inr _, tm2) \<Rightarrow> commit_pages perms (saturating_add cursor 4096) upto' tm2)))
      else (Inr (), tm))"
  by pat_completeness auto
termination
  by (relation "measure (\<lambda>(perms, cursor, upto', tm). 4294967296 - unat cursor)")
    (auto simp: word_less_nat_alt intro!: diff_less_mono2 saturating_step [unfolded word_less_nat_alt])

definition next_multiple_of :: "u32 \<Rightarrow> u32 \<Rightarrow> u32" where
  "next_multiple_of a m = (if a mod m = 0 then a else a + (m - a mod m))"

definition allocate_virtual_memory ::
  "VirtualAllocRequest \<Rightarrow> ('f ThreadManager, KernelServiceError, VirtualAllocation) st" where
  "allocate_virtual_memory request =
     (let offset = req_base request mod 4096;
          span = saturating_add (req_size request) offset;
          rounded = saturating_mul (div_ceil_pages (max span 1)) 4096 in
      bind_s (if req_base request = 0
              then bind_s (gets (\<lambda>tm. next_multiple_of (user_cursor tm) RESERVE_ALIGN)) (\<lambda>start.
                   case checked_add start rounded of
                     None \<Rightarrow> throw ResourceExhausted
                   | Some e \<Rightarrow>
                       if e \<le> USER_ALLOC_END
                       then bind_s (modify (\<lambda>tm. tm\<lparr>user_cursor := e\<rparr>)) (\<lambda>_. ret start)
                       else throw ResourceExhausted)
              else ret (req_base request - offset)) (\<lambda>base.
      bind_s (if allocation_type request AND MEM_COMMIT \<noteq> 0
              then case checked_add base rounded of
                     None \<Rightarrow> throw ResourceExhausted
                   | Some e \<Rightarrow> commit_pages (protect_to_permissions (req_protect request)) base e
              else ret ()) (\<lambda>_.
      ret \<lparr>va_base = base, va_size = rounded\<rparr>)))"

end
