(* ===== verification/Scheduler.thy ===== *)
theory Scheduler
  imports Thread_Waits Thread_Memory
begin

text \<open>
  The scheduler as a transition system: the service calls of \<^verbatim>\<open>exbawks-kernel/src/runtime.rs\<close> followed by the scheduling
  action they recorded (\<^verbatim>\<open>apply_pending_scheduling\<close> of \<^verbatim>\<open>exbawks-core/src/emulator.rs\<close>), time slices, time and idling.
  Over every interleaving of them at most one thread runs, no parked thread's wait is over, and no parked thread is
  past its deadline.
\<close>

datatype StopReason =
    GuestExit u32
  | Reboot u32
  | UnsupportedInstruction GuestVa
  | MissingKernelExport u16
  | UnimplementedKernelExport u16
  | GuestFault GuestVa
  | GuestDeadlock
  | BudgetExhausted
  | HostRequested
  | RuntimeIncomplete

definition emulator_exit_thread ::
  "u32 \<Rightarrow> 'f ThreadManager \<Rightarrow> CpuState \<Rightarrow> StopReason option \<times> 'f ThreadManager \<times> CpuState" where
  "emulator_exit_thread status tm c =
     (case exit_active status tm c of (switched, tm1, c1) \<Rightarrow>
        (if switched then None
         else if snd (snd (wake_hint tm1)) then None else Some (GuestExit status), tm1, c1))"

text \<open>\<open>interrupted\<close> says that an interrupt routine or deferred procedure runs on the active thread.\<close>

definition apply_pending_scheduling ::
  "bool \<Rightarrow> 'f ThreadManager \<Rightarrow> CpuState \<Rightarrow> StopReason option \<times> 'f ThreadManager \<times> CpuState" where
  "apply_pending_scheduling interrupted tm c =
     (case take_pending tm of
        (None, tm1) \<Rightarrow> (None, tm1, c)
      | (Some (PendingExit status), tm1) \<Rightarrow> emulator_exit_thread status tm1 c
      | (Some (PendingWait block), tm1) \<Rightarrow>
          (if interrupted then (None, tm1, c) else (None, snd (park_active block tm1 c))))"

section \<open>The transition system\<close>

text \<open>Nothing the scheduler reads differs: the rule for all services that only touch other parts of the table, and for
  whatever guest code writes to memory.\<close>

definition same_sched :: "'f ThreadManager \<Rightarrow> 'f ThreadManager \<Rightarrow> bool" where
  "same_sched tm tm' \<longleftrightarrow>
     threads tm' = threads tm \<and> current tm' = current tm \<and> pending tm' = pending tm \<and> handles tm' = handles tm \<and>
     events tm' = events tm \<and> mutants tm' = mutants tm \<and> next_event_handle tm' = next_event_handle tm \<and>
     next_mutant_handle tm' = next_mutant_handle tm \<and> elapsed_ms tm' = elapsed_ms tm"

inductive service_call :: "'f ThreadManager \<Rightarrow> 'f ThreadManager \<Rightarrow> bool" where
  other: "same_sched tm tm' \<Longrightarrow> service_call tm tm'"
| create_event: "next_event_handle tm + 4 \<le> MUTANT_HANDLE_BASE \<Longrightarrow> service_call tm (snd (create_event m s tm))"
| set_event: "service_call tm (snd (set_event handle tm))"
| create_mutant: "next_mutant_handle tm + 4 \<le> THREAD_HANDLE_BASE \<Longrightarrow> service_call tm (snd (create_mutant owned tm))"
| release_mutant: "service_call tm (snd (release_mutant handle tm))"
| close_handle: "service_call tm (snd (close_handle files_close handle tm))"
| create_thread: "length (threads tm) < 2048 \<Longrightarrow> service_call tm (snd (create_thread request tm))"
| resume_thread: "service_call tm (snd (resume_thread handle tm))"
| suspend_thread: "service_call tm (snd (suspend_thread handle tm))"
| exit_thread: "service_call tm (exit_current_thread status tm)"
| wait_object: "service_call tm (snd (wait_for_object handle timeout tm))"
| wait_objects: "service_call tm (snd (wait_for_objects ks every timeout tm))"
| wait_dispatcher: "0x10000 \<le> address \<Longrightarrow> service_call tm (snd (wait_for_dispatcher_object address timeout tm))"
| sleep: "service_call tm (snd (sleep_thread ms tm))"
| signal_dispatcher: "service_call tm (signal_dispatcher_object address tm)"
| transfer_section: "service_call tm (snd (transfer_section_wake address tm))"

inductive sched_step :: "'f ThreadManager \<Rightarrow> 'f ThreadManager \<Rightarrow> bool" where
  call: "service_call tm tm1 \<Longrightarrow> apply_pending_scheduling interrupted tm1 c = (stop, tm', c') \<Longrightarrow> sched_step tm tm'"
| slice: "rotate_active tm c = (b, tm', c') \<Longrightarrow> sched_step tm tm'"
| tick: "unat (elapsed_ms tm) + unat ms < 2 ^ 64 - 1 \<Longrightarrow> sched_step tm (advance_timers ms tm)"
| resume: "resume_any_ready tm c = (b, tm', c') \<Longrightarrow> sched_step tm tm'"

text \<open>From a table with the boot thread alone.\<close>

inductive sched_reachable :: "'f ThreadManager \<Rightarrow> bool" where
  boot: "same_sched (tm_new m fs) tm0 \<Longrightarrow> create_boot_environment stack_base stack_bytes tm0 = (Inr k, tm) \<Longrightarrow>
      sched_reachable tm"
| step: "sched_reachable tm \<Longrightarrow> sched_step tm tm' \<Longrightarrow> sched_reachable tm'"

section \<open>The invariant\<close>

definition thread_handle :: "nat \<Rightarrow> u32" where
  "thread_handle i = THREAD_HANDLE_BASE + word_of_nat i * 4"

definition handle_ranges :: "'f ThreadManager \<Rightarrow> bool" where
  "handle_ranges tm \<longleftrightarrow>
     EVENT_HANDLE_BASE \<le> next_event_handle tm \<and> next_event_handle tm \<le> MUTANT_HANDLE_BASE \<and>
     MUTANT_HANDLE_BASE \<le> next_mutant_handle tm \<and> next_mutant_handle tm \<le> THREAD_HANDLE_BASE \<and>
     dom (events tm) \<subseteq> {EVENT_HANDLE_BASE ..< next_event_handle tm} \<and>
     dom (mutants tm) \<subseteq> {MUTANT_HANDLE_BASE ..< next_mutant_handle tm} \<and>
     handles tm \<subseteq> {MUTANT_HANDLE_BASE ..< next_mutant_handle tm} \<union> thread_handle ` {..< length (threads tm)} \<and>
     length (threads tm) \<le> 2048"

definition key_ok :: "'f ThreadManager \<Rightarrow> u32 \<Rightarrow> bool" where
  "key_ok tm k \<longleftrightarrow> 0x10000 \<le> k \<or> k \<in> {EVENT_HANDLE_BASE ..< next_event_handle tm} \<or>
     k \<in> {MUTANT_HANDLE_BASE ..< next_mutant_handle tm} \<or> k \<in> thread_handle ` {..< length (threads tm)}"

definition block_ok :: "'f ThreadManager \<Rightarrow> WaitBlock \<Rightarrow> bool" where
  "block_ok tm b \<longleftrightarrow> (\<forall>k \<in> set (keys b). key_ok tm k) \<and> (\<forall>d. deadline b = Some d \<longrightarrow> elapsed_ms tm < d)"

definition one_running :: "'f ThreadManager \<Rightarrow> bool" where
  "one_running tm \<longleftrightarrow> current tm < length (threads tm) \<and>
     (\<forall>i < length (threads tm). thread_state (threads tm ! i) = Running \<longrightarrow> i = current tm)"

definition sched_ok :: "'f ThreadManager \<Rightarrow> bool" where
  "sched_ok tm \<longleftrightarrow> handle_ranges tm \<and> one_running tm \<and> elapsed_ms tm < - 1 \<and> (\<forall>i b. waiting tm i b \<longrightarrow> block_ok tm b)"

text \<open>A change that keeps the table and puts threads only into states that neither run nor wait.\<close>

definition keeps :: "'f ThreadManager \<Rightarrow> 'f ThreadManager \<Rightarrow> bool" where
  "keeps tm tm' \<longleftrightarrow>
     length (threads tm') = length (threads tm) \<and> current tm' = current tm \<and> elapsed_ms tm' = elapsed_ms tm \<and>
     next_event_handle tm' = next_event_handle tm \<and> next_mutant_handle tm' = next_mutant_handle tm \<and>
     dom (events tm') \<subseteq> dom (events tm) \<and> dom (mutants tm') \<subseteq> dom (mutants tm) \<and> handles tm' \<subseteq> handles tm \<and>
     (\<forall>i < length (threads tm). thread_state (threads tm' ! i) = thread_state (threads tm ! i) \<or>
        thread_state (threads tm' ! i) \<in> {Ready, Suspended, Terminated})"

lemma keeps_refl [simp]: "keeps tm tm"
  by (simp add: keeps_def)

lemma keeps_subs:
  assumes "keeps tm tm'"
  shows "dom (events tm') \<subseteq> dom (events tm)" "dom (mutants tm') \<subseteq> dom (mutants tm)" "handles tm' \<subseteq> handles tm"
  using assms by (simp_all add: keeps_def)

lemma keeps_trans: "keeps a b \<Longrightarrow> keeps b c \<Longrightarrow> keeps a c"
proof -
  assume ab: "keeps a b" and bc: "keeps b c"
  have "thread_state (threads c ! i) = thread_state (threads a ! i) \<or>
      thread_state (threads c ! i) \<in> {Ready, Suspended, Terminated}" if "i < length (threads a)" for i
  proof -
    have "thread_state (threads b ! i) = thread_state (threads a ! i) \<or>
        thread_state (threads b ! i) \<in> {Ready, Suspended, Terminated}"
      and "thread_state (threads c ! i) = thread_state (threads b ! i) \<or>
        thread_state (threads c ! i) \<in> {Ready, Suspended, Terminated}"
      using ab bc that by (simp_all add: keeps_def)
    then show ?thesis by auto
  qed
  with ab bc subset_trans [OF keeps_subs(1) [OF bc] keeps_subs(1) [OF ab]]
    subset_trans [OF keeps_subs(2) [OF bc] keeps_subs(2) [OF ab]]
    subset_trans [OF keeps_subs(3) [OF bc] keeps_subs(3) [OF ab]]
  show ?thesis by (simp add: keeps_def)
qed

lemma keeps_handle_ranges:
  assumes "keeps tm tm'" "handle_ranges tm"
  shows "handle_ranges tm'"
proof -
  have eq: "next_event_handle tm' = next_event_handle tm" "next_mutant_handle tm' = next_mutant_handle tm"
    "length (threads tm') = length (threads tm)"
    using assms(1) by (simp_all add: keeps_def)
  show ?thesis
    using assms(2) unfolding handle_ranges_def eq
    by (elim conjE, intro conjI) (erule keeps_subs [OF assms(1), THEN subset_trans] | assumption)+
qed

lemma keeps_one_running:
  assumes "keeps tm tm'" "one_running tm"
  shows "one_running tm'"
proof -
  have "thread_state (threads tm ! i) = Running"
    if "i < length (threads tm)" "thread_state (threads tm' ! i) = Running" for i
    using assms(1) that by (auto simp: keeps_def)
  moreover have "length (threads tm') = length (threads tm)" "current tm' = current tm"
    using assms(1) by (simp_all add: keeps_def)
  ultimately show ?thesis using assms(2) by (simp add: one_running_def)
qed

lemma keeps_waiting: "keeps tm tm' \<Longrightarrow> waiting tm' i b \<Longrightarrow> waiting tm i b"
  by (auto simp: keeps_def waiting_def)

lemma keeps_ok:
  assumes "keeps tm tm'" "sched_ok tm"
  shows "sched_ok tm'"
proof -
  have "key_ok tm' = key_ok tm" using assms(1) by (simp add: keeps_def key_ok_def fun_eq_iff)
  then have "block_ok tm' = block_ok tm" using assms(1) by (simp add: keeps_def block_ok_def fun_eq_iff)
  moreover have "elapsed_ms tm' = elapsed_ms tm" using assms(1) by (simp add: keeps_def)
  moreover have "block_ok tm b" if "waiting tm' i b" for i b
    using keeps_waiting [OF assms(1) that] assms(2) by (simp add: sched_ok_def)
  ultimately show ?thesis
    using assms keeps_handle_ranges [OF assms(1)] keeps_one_running [OF assms(1)] by (simp add: sched_ok_def)
qed

lemma wakes_keeps: "wakes tm tm' \<Longrightarrow> keeps tm tm'"
  by (fastforce simp: wakes_def keeps_def woken_as_def)

lemma keeps_consume: "keeps tm (consume_key k i tm)"
  by (rule wakes_keeps [OF wakes_consume])

text \<open>What a service call owes: the invariant, no lost wake-up, and if it records a wait, that this wait is not over.\<close>

definition wait_due :: "'f ThreadManager \<Rightarrow> bool" where
  "wait_due tm \<longleftrightarrow> (\<forall>b. pending tm = Some (PendingWait b) \<longrightarrow> block_ok tm b \<and> \<not> over (\<lambda>k. sig tm k (current tm)) b)"

definition sched_inv :: "'f ThreadManager \<Rightarrow> bool" where
  "sched_inv tm \<longleftrightarrow> sched_ok tm \<and> no_lost tm"

lemma inv_keeps_calm: "keeps tm tm' \<Longrightarrow> calm tm tm' \<Longrightarrow> sched_inv tm \<Longrightarrow> sched_inv tm'"
  using keeps_ok calm_no_lost by (auto simp: sched_inv_def)

lemma inv_keeps_no_lost: "keeps tm tm' \<Longrightarrow> no_lost tm' \<Longrightarrow> sched_inv tm \<Longrightarrow> sched_inv tm'"
  using keeps_ok by (auto simp: sched_inv_def)

lemma thread_index_update [simp]:
  "thread_index (tm\<lparr>events := e\<rparr>) = thread_index tm" "thread_index (tm\<lparr>mutants := m\<rparr>) = thread_index tm"
  "thread_index (tm\<lparr>memory := y\<rparr>) = thread_index tm" "thread_index (tm\<lparr>pending := p\<rparr>) = thread_index tm"
  "thread_index (tm\<lparr>next_event_handle := n\<rparr>) = thread_index tm"
  "thread_index (tm\<lparr>next_mutant_handle := n\<rparr>) = thread_index tm"
  "thread_index (tm\<lparr>current := c\<rparr>) = thread_index tm" "thread_index (tm\<lparr>files := fs\<rparr>) = thread_index tm"
  "thread_index (upd_thread j f tm) = thread_index tm"
  by (simp_all add: thread_index_def fun_eq_iff)

lemma sig_char:
  "sig tm k i \<longleftrightarrow>
     (case events tm k of
        Some (_, s) \<Rightarrow> s
      | None \<Rightarrow> (case mutants tm k of
          Some None \<Rightarrow> True
        | Some (Some (h, _)) \<Rightarrow> h = i
        | None \<Rightarrow> (case thread_index tm k of Some j \<Rightarrow> thread_state (threads tm ! j) = Terminated | None \<Rightarrow> False)))"
  by (auto simp: sig_def known_key_def key_signaled_def split: option.splits)
    (simp add: thread_index_def Let_def split: if_splits)

lemma sig_cong:
  assumes "threads tm' = threads tm" "handles tm' = handles tm" "events tm' = events tm" "mutants tm' = mutants tm"
  shows "sig tm' = sig tm"
  using assms
  by (auto simp: sig_def known_key_def key_signaled_def thread_index_def fun_eq_iff split: option.splits)

lemma waiting_cong: "threads tm' = threads tm \<Longrightarrow> waiting tm' = waiting tm"
  by (simp add: waiting_def fun_eq_iff)

lemma same_sched_keeps: "same_sched tm tm' \<Longrightarrow> keeps tm tm' \<and> calm tm tm'"
  using sig_cong [of tm' tm] waiting_cong [of tm' tm] by (simp add: same_sched_def keeps_def calm_def)

section \<open>Handles\<close>

lemmas handle_bases = EVENT_HANDLE_BASE_def MUTANT_HANDLE_BASE_def THREAD_HANDLE_BASE_def

lemma thread_handle_unat: "i \<le> 2048 \<Longrightarrow> unat (thread_handle i) = 0xE000 + 4 * i"
  by (simp add: thread_handle_def handle_bases unat_word_ariths unat_of_nat)

lemma thread_index_handle:
  assumes "handle_ranges tm" "thread_index tm k = Some i"
  shows "k = thread_handle i \<and> i < length (threads tm)"
proof -
  have k: "\<not> k < 0xE000" "k \<in> handles tm" "i = unat ((k - 0xE000) div 4)" "i < length (threads tm)"
    using assms(2) by (auto simp: thread_index_def Let_def split: if_splits)
  then have "k \<notin> {MUTANT_HANDLE_BASE ..< next_mutant_handle tm}"
    using assms(1) by (auto simp: handle_ranges_def handle_bases)
  then obtain j where j: "k = thread_handle j" "j < length (threads tm)"
    using k(2) assms(1) by (auto simp: handle_ranges_def)
  then have "unat (k - 0xE000) = 4 * j"
    using assms(1) thread_handle_unat [of j] k(1) by (simp add: handle_ranges_def unat_sub not_less)
  then have "unat ((k - 0xE000) div 4) = j" by (simp add: unat_div)
  with j k(3) show ?thesis by simp
qed

lemma events_range: "handle_ranges tm \<Longrightarrow> events tm k = Some e \<Longrightarrow> 0xA000 \<le> k \<and> k < 0xB000"
  unfolding handle_ranges_def handle_bases by (auto simp: subset_iff dest: less_le_trans)

lemma mutants_range: "handle_ranges tm \<Longrightarrow> mutants tm k = Some e \<Longrightarrow> 0xB000 \<le> k \<and> k < 0xE000"
  unfolding handle_ranges_def handle_bases by (auto simp: subset_iff dest: less_le_trans)

lemma thread_handle_range: "i \<le> 2048 \<Longrightarrow> 0xE000 \<le> thread_handle i \<and> thread_handle i < 0x10001"
  by (simp add: word_le_nat_alt word_less_nat_alt thread_handle_unat)

lemma known_key_ok:
  assumes h: "handle_ranges tm" and "known_key tm k"
  shows "key_ok tm k"
proof -
  consider "k \<in> dom (events tm)" | "k \<in> dom (mutants tm)" | i where "thread_index tm k = Some i"
    using assms(2) by (auto simp: known_key_def)
  then show ?thesis
  proof cases
    case 3
    from thread_index_handle [OF h this] show ?thesis by (auto simp: key_ok_def)
  qed (use h in \<open>auto simp: key_ok_def handle_ranges_def\<close>)
qed

section \<open>Events and mutants\<close>

lemma settled_butI:
  assumes "no_lost tm" and w: "\<And>i b. waiting tm' i b \<Longrightarrow> waiting tm i b"
    and s: "\<And>k i. k \<noteq> key \<Longrightarrow> sig tm' k i \<Longrightarrow> sig tm k i"
  shows "settled_but key tm'"
proof -
  have "\<not> over (\<lambda>k. k \<noteq> key \<and> sig tm' k i) b" if "waiting tm' i b" for i b
  proof
    assume "over (\<lambda>k. k \<noteq> key \<and> sig tm' k i) b"
    then have "over (\<lambda>k. sig tm k i) b" by (rule over_mono) (use s in auto)
    with w [OF that] assms(1) show False by (auto simp: no_lost_def)
  qed
  then show ?thesis by (simp add: settled_but_def)
qed

lemma set_event_inv:
  assumes "sched_inv tm"
  shows "sched_inv (snd (set_event handle tm)) \<and> pending (snd (set_event handle tm)) = pending tm"
proof (cases "events tm handle")
  case None
  with assms show ?thesis by (simp add: set_event_def)
next
  case (Some e)
  obtain manual prev where e: "e = (manual, prev)" by (cases e)
  define tm1 where "tm1 = tm\<lparr>events := (events tm)(handle \<mapsto> (manual, True))\<rparr>"
  obtain n tm2 where w: "wake_by_key handle manual tm1 = (n, tm2)" by (cases "wake_by_key handle manual tm1")
  have "keeps tm tm1" using Some by (auto simp: keeps_def tm1_def)
  moreover have wk: "wakes tm1 tm2" using wake_by_key_wakes [of tm1 handle manual] w by simp
  ultimately have k: "keeps tm tm2" by (blast intro: keeps_trans wakes_keeps)
  have "settled_but handle tm1"
    by (rule settled_butI [of tm])
      (use assms in \<open>auto simp: tm1_def sig_char sched_inv_def waiting_def split: option.splits\<close>)
  then have "no_lost tm2"
    using w wake_by_key_all [of handle tm1 n tm2] wake_by_key_one [of handle tm1 n tm2]
    by (cases manual) (auto simp: takeable_def tm1_def)
  with k assms have i2: "sched_inv tm2" using inv_keeps_no_lost by blast
  have "handle \<in> dom (events tm2)" using wk by (simp add: wakes_def tm1_def)
  then have ev2: "events tm2 handle \<noteq> None" by blast
  have res: "snd (set_event handle tm) = tm2 \<or>
      (\<exists>m s. events tm2 handle = Some (m, s) \<and>
         snd (set_event handle tm) = tm2\<lparr>events := (events tm2)(handle \<mapsto> (m, False))\<rparr>)"
    using Some w e ev2 by (auto simp: set_event_def tm1_def split: option.splits)
  have "sched_inv (tm2\<lparr>events := (events tm2)(handle \<mapsto> (m, False))\<rparr>)" if "events tm2 handle = Some (m, s)" for m s
  proof (rule inv_keeps_calm [OF _ _ i2])
    show "keeps tm2 (tm2\<lparr>events := (events tm2)(handle \<mapsto> (m, False))\<rparr>)"
      using that by (auto simp: keeps_def)
    show "calm tm2 (tm2\<lparr>events := (events tm2)(handle \<mapsto> (m, False))\<rparr>)"
      using that by (auto simp: calm_def waiting_def sig_char split: option.splits if_splits)
  qed
  with res i2 wk show ?thesis by (auto simp: wakes_def tm1_def)
qed

lemma release_mutant_inv:
  assumes "sched_inv tm"
  shows "sched_inv (snd (release_mutant handle tm)) \<and> pending (snd (release_mutant handle tm)) = pending tm"
proof (cases "\<exists>r. mutants tm handle = Some (Some (current tm, r))")
  case False
  with assms show ?thesis by (auto simp: release_mutant_def split: option.splits)
next
  case True
  then obtain r where m: "mutants tm handle = Some (Some (current tm, r))" by blast
  have ev: "events tm handle = None"
    using m assms mutants_range [of tm handle] events_range [of tm handle]
    by (cases "events tm handle") (auto simp: sched_inv_def sched_ok_def)
  define owner where "owner = (if r > 1 then Some (current tm, r - 1) else None)"
  define tm1 where "tm1 = tm\<lparr>mutants := (mutants tm)(handle \<mapsto> owner)\<rparr>"
  have res: "snd (release_mutant handle tm) = (if owner = None then snd (wake_by_key handle False tm1) else tm1)"
    using m by (simp add: release_mutant_def owner_def tm1_def Let_def)
  have k1: "keeps tm tm1" using m by (auto simp: keeps_def tm1_def)
  show ?thesis
  proof (cases "owner = None")
    case True
    obtain n tm2 where w: "wake_by_key handle False tm1 = (n, tm2)" by (cases "wake_by_key handle False tm1")
    have wk: "wakes tm1 tm2" using wake_by_key_wakes [of tm1 handle False] w by simp
    have "settled_but handle tm1"
      by (rule settled_butI [of tm])
        (use assms in \<open>auto simp: tm1_def sig_char sched_inv_def waiting_def split: option.splits\<close>)
    moreover have "takeable handle tm1" using True ev by (simp add: takeable_def tm1_def)
    ultimately have "no_lost tm2" using w by (rule wake_by_key_one)
    with keeps_trans [OF k1 wakes_keeps [OF wk]] assms have "sched_inv tm2" by (blast intro: inv_keeps_no_lost)
    with wk True w res show ?thesis by (simp add: wakes_def tm1_def)
  next
    case False
    have "calm tm tm1"
      using m False by (auto simp: calm_def waiting_def sig_char tm1_def owner_def split: option.splits if_splits)
    with k1 assms False res show ?thesis by (auto simp: tm1_def intro: inv_keeps_calm)
  qed
qed

text \<open>A fresh handle is no key of a waiting thread.\<close>

lemma inv_new_handle:
  assumes "sched_inv tm" "handle_ranges tm'" "\<not> key_ok tm h"
    and w: "waiting tm' = waiting tm" and "one_running tm'" "elapsed_ms tm' = elapsed_ms tm"
    and key: "\<And>k. key_ok tm k \<Longrightarrow> key_ok tm' k" and s: "\<And>k i. k \<noteq> h \<Longrightarrow> sig tm' k i \<Longrightarrow> sig tm k i"
  shows "sched_inv tm'"
proof -
  have "block_ok tm' b" if "block_ok tm b" for b
    using that key assms(6) by (auto simp: block_ok_def)
  then have "sched_ok tm'" using assms(1,2,5,6) w by (auto simp: sched_inv_def sched_ok_def)
  moreover have "\<not> over (\<lambda>k. sig tm' k i) b" if wb: "waiting tm i b" for i b
  proof
    assume "over (\<lambda>k. sig tm' k i) b"
    moreover have "h \<notin> set (keys b)"
      using wb assms(1,3) by (auto simp: sched_inv_def sched_ok_def block_ok_def)
    ultimately have "over (\<lambda>k. sig tm k i) b" by (elim over_mono) (rule s; auto)
    with wb assms(1) show False by (auto simp: sched_inv_def no_lost_def)
  qed
  ultimately show ?thesis using w by (simp add: sched_inv_def no_lost_def)
qed

text \<open>The two handle cursors, as numbers.\<close>

lemma cursor_less: "(c :: u32) \<le> 0xE000 \<Longrightarrow> c < c + 4" "(c :: u32) \<le> 0xE000 \<Longrightarrow> k < c \<Longrightarrow> k < c + 4"
  by (simp_all add: word_less_nat_alt word_le_nat_alt unat_word_ariths)

lemma key_ok_below:
  assumes "handle_ranges tm" "key_ok tm k" "k < 0xE000"
  shows "0xA000 \<le> k \<and> k < next_event_handle tm \<or> 0xB000 \<le> k \<and> k < next_mutant_handle tm"
proof -
  have "\<not> 0x10000 \<le> k" using assms(3) by (simp add: word_less_nat_alt word_le_nat_alt)
  moreover have "k \<noteq> thread_handle i" if "i < length (threads tm)" for i
    using that assms thread_handle_unat [of i] by (auto simp: handle_ranges_def word_less_nat_alt)
  ultimately show ?thesis using assms(2) by (auto simp: key_ok_def handle_bases)
qed

lemma create_event_inv:
  assumes "sched_inv tm" and room: "next_event_handle tm + 4 \<le> MUTANT_HANDLE_BASE"
  shows "sched_inv (snd (create_event m s tm))"
proof -
  let ?h = "next_event_handle tm" and ?t = "snd (create_event m s tm)"
  have hr: "handle_ranges tm" using assms(1) by (simp add: sched_inv_def sched_ok_def)
  then have h: "0xA000 \<le> ?h" "?h \<le> 0xB000" by (simp_all add: handle_ranges_def handle_bases)
  have up: "?h < ?h + 4" "k < ?h \<Longrightarrow> k < ?h + 4" for k
    using h(2) cursor_less [of ?h] by (auto simp: word_le_nat_alt)
  have "?h < 0xB000" using up room by (simp add: handle_bases)
  have t: "?t = tm\<lparr>next_event_handle := ?h + 4, events := (events tm)(?h \<mapsto> (m, s))\<rparr>"
    by (simp add: create_event_def Let_def)
  show ?thesis
  proof (rule inv_new_handle [of tm _ ?h])
    show "handle_ranges ?t"
      using hr h room up unfolding t by (auto simp: handle_ranges_def handle_bases subset_iff intro: order_less_imp_le)
    show "\<not> key_ok tm ?h"
      using \<open>?h < 0xB000\<close> key_ok_below [OF hr, of ?h] by (auto simp: word_less_nat_alt word_le_nat_alt)
    show "key_ok tm k \<Longrightarrow> key_ok ?t k" for k
      using up unfolding t by (auto simp: key_ok_def)
    show "k \<noteq> ?h \<Longrightarrow> sig ?t k i \<Longrightarrow> sig tm k i" for k i
      unfolding t by (auto simp: sig_char split: option.splits)
    show "waiting ?t = waiting tm" by (rule waiting_cong) (simp add: t)
    show "one_running ?t" using assms(1) by (simp add: t one_running_def sched_inv_def sched_ok_def)
  qed (simp_all add: t assms(1))
qed

lemma create_mutant_inv:
  assumes "sched_inv tm" and room: "next_mutant_handle tm + 4 \<le> THREAD_HANDLE_BASE"
  shows "sched_inv (snd (create_mutant owned tm))"
proof -
  let ?h = "next_mutant_handle tm" and ?t = "snd (create_mutant owned tm)"
  have hr: "handle_ranges tm" using assms(1) by (simp add: sched_inv_def sched_ok_def)
  then have h: "0xB000 \<le> ?h" "?h \<le> 0xE000" by (simp_all add: handle_ranges_def handle_bases)
  have up: "?h < ?h + 4" "k < ?h \<Longrightarrow> k < ?h + 4" for k
    using h(2) cursor_less [of ?h] by auto
  have "?h < 0xE000" using up room by (simp add: handle_bases)
  have t: "?t = tm\<lparr>next_mutant_handle := ?h + 4, handles := insert ?h (handles tm),
      mutants := (mutants tm)(?h \<mapsto> (if owned then Some (current tm, 1) else None))\<rparr>"
    by (simp add: create_mutant_def Let_def)
  show ?thesis
  proof (rule inv_new_handle [of tm _ ?h])
    show "handle_ranges ?t"
      using hr h room up unfolding t by (auto simp: handle_ranges_def handle_bases subset_iff intro: order_less_imp_le)
    show "\<not> key_ok tm ?h"
      using \<open>?h < 0xE000\<close> key_ok_below [OF hr, of ?h] hr h
      by (auto simp: handle_ranges_def handle_bases word_less_nat_alt word_le_nat_alt)
    show "key_ok tm k \<Longrightarrow> key_ok ?t k" for k
      using up unfolding t by (auto simp: key_ok_def)
    show "k \<noteq> ?h \<Longrightarrow> sig ?t k i \<Longrightarrow> sig tm k i" for k i
      unfolding t by (auto simp: sig_char thread_index_def split: option.splits if_splits)
    show "waiting ?t = waiting tm" by (rule waiting_cong) (simp add: t)
    show "one_running ?t" using assms(1) by (simp add: t one_running_def sched_inv_def sched_ok_def)
  qed (simp_all add: t assms(1))
qed

lemma close_handle_inv:
  assumes "sched_inv tm"
  shows "sched_inv (snd (close_handle files_close handle tm))"
proof -
  have hr: "handle_ranges tm" using assms by (simp add: sched_inv_def sched_ok_def)
  have ex: "mutants tm k = None \<and> thread_index tm k = None" if "events tm k = Some e" for k e
    using events_range [OF hr that] mutants_range [OF hr, of k]
    by (cases "mutants tm k") (auto simp: thread_index_def word_less_nat_alt word_le_nat_alt)
  have "keeps tm (snd (close_handle files_close handle tm))"
    by (auto simp: close_handle_def keeps_def split: prod.splits bool.splits if_splits)
  moreover have "calm tm (snd (close_handle files_close handle tm))"
    using ex by (auto simp: close_handle_def calm_def waiting_def sig_char thread_index_def
        split: prod.splits bool.splits if_splits option.splits)
  ultimately show ?thesis using assms by (rule inv_keeps_calm)
qed

section \<open>Threads\<close>

text \<open>Operations that only change guest memory.\<close>

definition memory_op :: "('f ThreadManager, 'e, 'a) st \<Rightarrow> bool" where
  "memory_op f \<longleftrightarrow> (\<forall>tm. \<exists>m. snd (f tm) = tm\<lparr>memory := m\<rparr>)"

lemma memory_same: "\<exists>m. tm = tm\<lparr>memory := m\<rparr>" for tm :: "'f ThreadManager"
  by (rule exI [of _ "memory tm"]) simp

lemma memory_op_prims:
  "memory_op (ret x)" "memory_op (throw e)" "memory_op (gets h)" "memory_op (gets_r g)"
  "memory_op (on_memory f)" "memory_op (tm_write a bs)" "memory_op (tm_write_u32 a v)"
  by (auto simp: memory_op_def memory_same on_memory_def tm_write_def tm_write_u32_def split: prod.splits)

lemma memory_op_exhausted: "memory_op f \<Longrightarrow> memory_op (exhausted f)"
  by (simp add: memory_op_def exhausted_def split: prod.splits) (metis snd_conv)

lemma memory_op_cases:
  assumes "memory_op f"
  obtains m r where "f tm = (r, tm\<lparr>memory := m\<rparr>)"
  using assms unfolding memory_op_def by (metis prod.collapse)

lemma memory_op_bind:
  assumes "memory_op f" "\<And>x. memory_op (g x)"
  shows "memory_op (bind_s f g)"
  unfolding memory_op_def
proof
  fix tm
  obtain m r where f: "f tm = (r, tm\<lparr>memory := m\<rparr>)" using assms(1) by (rule memory_op_cases)
  show "\<exists>m. snd (bind_s f g tm) = tm\<lparr>memory := m\<rparr>"
  proof (cases r)
    case (Inr x)
    obtain m' r' where "g x (tm\<lparr>memory := m\<rparr>) = (r', tm\<lparr>memory := m\<rparr>\<lparr>memory := m'\<rparr>)"
      using assms(2) by (rule memory_op_cases)
    with f Inr show ?thesis by auto
  qed (use f in auto)
qed

lemmas memory_op_intros = memory_op_prims memory_op_exhausted memory_op_bind

lemma memory_op_kernel_block: "memory_op (allocate_kernel_block bytes)"
  unfolding allocate_kernel_block_def Let_def by (intro memory_op_intros)

lemma memory_op_write_words: "memory_op (write_words ws)"
proof (induction ws)
  case (Cons w ws)
  obtain a v where "w = (a, v)" by (cases w)
  with Cons show ?case by (simp only: write_words.simps) (intro memory_op_intros)
qed (simp only: write_words.simps memory_op_prims)

lemma memory_op_cases_intros:
  "(\<And>e. r = Inl e \<Longrightarrow> memory_op (f e)) \<Longrightarrow> (\<And>x. r = Inr x \<Longrightarrow> memory_op (g x)) \<Longrightarrow> memory_op (case r of Inl e \<Rightarrow> f e | Inr x \<Rightarrow> g x)"
  "(b \<Longrightarrow> memory_op p) \<Longrightarrow> (\<not> b \<Longrightarrow> memory_op q) \<Longrightarrow> memory_op (if b then p else q)"
  "(v = None \<Longrightarrow> memory_op p') \<Longrightarrow> (\<And>y. v = Some y \<Longrightarrow> memory_op (q' y)) \<Longrightarrow>
     memory_op (case v of None \<Rightarrow> p' | Some y \<Rightarrow> q' y)"
  by (auto split: sum.split option.split)

lemma memory_op_stack_tls: "memory_op (initialize_stack_tls stack_top)"
  unfolding initialize_stack_tls_def Let_def by (intro memory_op_intros memory_op_cases_intros)

lemma memory_op_thread_pages: "memory_op (build_thread_pages base bytes)"
  unfolding build_thread_pages_def Let_def
  by (intro memory_op_intros memory_op_kernel_block memory_op_write_words memory_op_stack_tls)

text \<open>Creating a thread changes memory and, if it succeeds, appends one thread with its handle.\<close>

definition adds_thread :: "'f ThreadManager \<Rightarrow> 'f ThreadManager \<Rightarrow> bool" where
  "adds_thread tm tm' \<longleftrightarrow> (\<exists>m. tm' = tm\<lparr>memory := m\<rparr>) \<or> (\<exists>m t. thread_state t \<in> {Ready, Suspended} \<and>
     tm' = tm\<lparr>memory := m, handles := insert (thread_handle (length (threads tm))) (handles tm), threads := threads tm @ [t]\<rparr>)"

definition may_add :: "'f ThreadManager \<Rightarrow> ('f ThreadManager, 'e, 'a) st \<Rightarrow> bool" where
  "may_add tm f \<longleftrightarrow> (\<forall>m. adds_thread tm (snd (f (tm\<lparr>memory := m\<rparr>))))"

lemma may_add_bind:
  assumes "memory_op f" "\<And>x. may_add tm (g x)"
  shows "may_add tm (bind_s f g)"
  unfolding may_add_def
proof
  fix m
  obtain m' r where f: "f (tm\<lparr>memory := m\<rparr>) = (r, tm\<lparr>memory := m'\<rparr>)"
    by (rule memory_op_cases [OF assms(1), of "tm\<lparr>memory := m\<rparr>"]) simp
  have "adds_thread tm (tm\<lparr>memory := m'\<rparr>)" by (auto simp: adds_thread_def)
  with f assms(2) show "adds_thread tm (snd (bind_s f g (tm\<lparr>memory := m\<rparr>)))"
    by (cases r) (auto simp: may_add_def)
qed

lemma may_add_count: "may_add tm (g (length (threads tm))) \<Longrightarrow> may_add tm (bind_s (gets (\<lambda>t. length (threads t))) g)"
  by (simp add: may_add_def)

lemma may_add_last:
  assumes "thread_state t \<in> {Ready, Suspended}"
  shows "may_add tm (bind_s (modify (\<lambda>s. s\<lparr>handles := insert (THREAD_HANDLE_BASE + word_of_nat (length (threads tm)) * 4)
      (handles s), threads := threads s @ [t]\<rparr>)) (\<lambda>_. ret x))"
  using assms by (auto simp: may_add_def adds_thread_def thread_handle_def)

lemma memory_op_guard: "memory_op (modify reserve_guard_page)"
  by (auto simp: memory_op_def reserve_guard_page_def on_memory_def split: prod.splits)

lemma create_thread_effect: "adds_thread tm (snd (create_thread request tm))"
proof -
  have "may_add tm (create_thread request)"
    unfolding create_thread_def Let_def
    by (intro may_add_bind [OF memory_op_guard] may_add_bind [OF memory_op_exhausted [OF memory_op_kernel_block]]
        may_add_bind [OF memory_op_exhausted [OF memory_op_thread_pages]] may_add_count
        may_add_bind [OF memory_op_exhausted [OF memory_op_write_words]] may_add_last
        may_add_bind [OF memory_op_prims(3) [of tls_reserve_bytes]]) simp
  then have "adds_thread tm (snd (create_thread request (tm\<lparr>memory := memory tm\<rparr>)))"
    unfolding may_add_def by blast
  then show ?thesis by simp
qed

lemma same_sched_inv: "same_sched tm tm' \<Longrightarrow> sched_inv tm \<Longrightarrow> sched_inv tm'"
  using same_sched_keeps inv_keeps_calm by blast

lemma create_thread_inv:
  assumes inv: "sched_inv tm" and room: "length (threads tm) < 2048" and "adds_thread tm tm'"
  shows "sched_inv tm'"
proof (cases "\<exists>m. tm' = tm\<lparr>memory := m\<rparr>")
  case True
  then have "same_sched tm tm'" by (auto simp: same_sched_def)
  then show ?thesis using inv by (rule same_sched_inv)
next
  case False
  let ?h = "thread_handle (length (threads tm))"
  obtain m t where st: "thread_state t \<in> {Ready, Suspended}"
    and t: "tm' = tm\<lparr>memory := m, handles := insert ?h (handles tm), threads := threads tm @ [t]\<rparr>"
    using False assms(3) by (auto simp: adds_thread_def)
  have hr: "handle_ranges tm" using inv by (simp add: sched_inv_def sched_ok_def)
  have hr': "handle_ranges tm'"
    using hr room unfolding t handle_ranges_def by (auto simp: lessThan_Suc)
  have old: "thread_index tm k = Some j \<and> j < length (threads tm)" if "k \<noteq> ?h" "thread_index tm' k = Some j" for k j
    using that thread_index_handle [OF hr' that(2)] unfolding t
    by (auto simp: thread_index_def Let_def less_Suc_eq split: if_splits)
  show ?thesis
  proof (rule inv_new_handle [OF inv hr', of ?h])
    have u: "unat ?h = 0xE000 + 4 * length (threads tm)" using room by (simp add: thread_handle_unat)
    have "?h \<noteq> thread_handle i" if "i < length (threads tm)" for i
      using that room u thread_handle_unat [of i] by (metis add_left_cancel less_imp_le less_irrefl less_trans
          mult_cancel1 zero_neq_numeral)
    then show "\<not> key_ok tm ?h"
      using u room hr by (auto simp: key_ok_def handle_ranges_def handle_bases word_le_nat_alt word_less_nat_alt)
    show "waiting tm' = waiting tm"
      using st unfolding t by (auto simp: waiting_def fun_eq_iff nth_append less_Suc_eq)
    show "one_running tm'"
      using inv st unfolding t by (auto simp: one_running_def sched_inv_def sched_ok_def nth_append less_Suc_eq)
    show "key_ok tm k \<Longrightarrow> key_ok tm' k" for k unfolding t by (auto simp: key_ok_def)
    show "k \<noteq> ?h \<Longrightarrow> sig tm' k i \<Longrightarrow> sig tm k i" for k i
      using old [of k] by (auto simp: sig_char t nth_append split: option.splits if_splits)
  qed (simp add: t)
qed

lemma set_state_simps [simp]:
  "length (threads (set_state i st tm)) = length (threads tm)" "current (set_state i st tm) = current tm"
  "pending (set_state i st tm) = pending tm" "elapsed_ms (set_state i st tm) = elapsed_ms tm"
  "memory (set_state i st tm) = memory tm" "events (set_state i st tm) = events tm" "mutants (set_state i st tm) = mutants tm"
  "thread_index (set_state i st tm) = thread_index tm"
  by (simp_all add: set_state_def)

lemma nth_set_state:
  "j < length (threads tm) \<Longrightarrow> thread_state (threads (set_state i st tm) ! j) = (if i = j then st else thread_state (threads tm ! j))"
  by (simp add: set_state_def nth_upd_thread)

lemma set_state_keeps: "st \<in> {Ready, Suspended, Terminated} \<Longrightarrow> keeps tm (set_state i st tm)"
  by (auto simp: keeps_def nth_set_state) (simp_all add: set_state_def)

lemma thread_index_less: "thread_index tm k = Some j \<Longrightarrow> j < length (threads tm)"
  by (auto simp: thread_index_def Let_def split: if_splits)

lemma set_state_calm:
  "st \<in> {Ready, Running, Suspended} \<Longrightarrow> calm tm (set_state i st tm)"
  by (auto simp: calm_def waiting_def sig_char nth_set_state split: option.splits if_splits dest: thread_index_less)

lemma set_state_inv: "st \<in> {Ready, Suspended} \<Longrightarrow> sched_inv tm \<Longrightarrow> sched_inv (set_state i st tm)"
  using set_state_keeps [of st tm i] set_state_calm [of st tm i] inv_keeps_calm by fastforce

section \<open>Waits\<close>

lemma deadline_later: "(e :: u64) < - 1 \<Longrightarrow> e < saturating_add e (max ms 1)"
proof -
  assume e: "e < - 1"
  then have "unat e < 18446744073709551615" by (simp add: word_less_nat_alt unsigned_minus_1_eq_mask mask_eq_exp_minus_1)
  moreover have "0 < unat (max ms 1)"
    by (metis max.cobounded2 word_gt_0 word_neq_0_conv word_le_0_iff zero_neq_one unat_gt_0)
  ultimately show ?thesis
    using e by (auto simp: saturating_add_def word_less_nat_alt unat_word_ariths)
qed

lemma park_pending_inv:
  assumes "sched_inv tm" "\<forall>k \<in> set ks. key_ok tm k"
    and "\<not> over (\<lambda>k. sig tm k (current tm)) \<lparr>keys = ks, wait_all = every, deadline = None, timeout_status = 0\<rparr>"
  shows "sched_inv (park_pending ks every timeout status tm) \<and> wait_due (park_pending ks every timeout status tm)"
proof -
  define t where "t = park_pending ks every timeout status tm"
  have eq: "sig t = sig tm" "key_ok t = key_ok tm" "waiting t = waiting tm"
    by (rule sig_cong, auto simp: t_def park_pending_def key_ok_def fun_eq_iff waiting_def)
  have f: "current t = current tm" "elapsed_ms t = elapsed_ms tm"
    "pending t = Some (PendingWait \<lparr>keys = ks, wait_all = every,
       deadline = map_option (\<lambda>ms. saturating_add (elapsed_ms tm) (max ms 1)) timeout, timeout_status = status\<rparr>)"
    by (simp_all add: t_def park_pending_def)
  have "keeps tm t" by (simp add: t_def park_pending_def keeps_def)
  moreover have "calm tm t" by (simp add: calm_def eq)
  ultimately have "sched_inv t" using assms(1) by (rule inv_keeps_calm)
  moreover have "elapsed_ms tm < - 1" using assms(1) by (simp add: sched_inv_def sched_ok_def)
  then have "wait_due t"
    using assms(2,3) deadline_later [of "elapsed_ms tm"] by (auto simp: wait_due_def block_ok_def eq f over_def)
  ultimately show ?thesis by (simp add: t_def)
qed

lemma consume_inv: "sched_inv tm \<Longrightarrow> sched_inv (consume_key k i tm)"
  by (rule inv_keeps_calm [OF keeps_consume calm_consume])

lemma no_wait_due: "pending tm = None \<Longrightarrow> wait_due tm"
  by (simp add: wait_due_def)

lemma wait_for_object_inv:
  assumes "sched_inv tm" "pending tm = None"
  shows "sched_inv (snd (wait_for_object handle timeout tm)) \<and> wait_due (snd (wait_for_object handle timeout tm))"
proof -
  have hr: "handle_ranges tm" using assms(1) by (simp add: sched_inv_def sched_ok_def)
  have un: "sched_inv (snd (wait_unowned handle timeout tm)) \<and> wait_due (snd (wait_unowned handle timeout tm))"
    using assms consume_inv no_wait_due known_key_ok [OF hr, of handle]
    by (auto simp: wait_unowned_def over_def sig_def intro!: park_pending_inv [THEN conjunct1] park_pending_inv [THEN conjunct2])
  have "sched_inv (tm\<lparr>mutants := (mutants tm)(handle \<mapsto> Some (current tm, r + 1))\<rparr>)"
    if "mutants tm handle = Some (Some (current tm, r))" for r
    by (rule inv_keeps_calm [OF _ _ assms(1)])
      (use that in \<open>auto simp: keeps_def calm_def waiting_def sig_char split: option.splits if_splits\<close>)
  with un assms show ?thesis by (auto simp: wait_for_object_def no_wait_due split: option.splits)
qed

lemma fold_consume_inv: "sched_inv tm \<Longrightarrow> sched_inv (fold (\<lambda>k. consume_key k i) ks tm)"
  by (induction ks arbitrary: tm) (simp_all add: consume_inv)

lemma fold_consume_pending [simp]: "pending (fold (\<lambda>k. consume_key k i) ks tm) = pending tm"
  by (induction ks arbitrary: tm) simp_all

lemma wait_for_objects_inv:
  assumes "sched_inv tm" "pending tm = None"
  shows "sched_inv (snd (wait_for_objects ks every timeout tm)) \<and> wait_due (snd (wait_for_objects ks every timeout tm))"
proof (cases "list_all (known_key tm) ks")
  case False
  with assms show ?thesis by (simp add: wait_for_objects_def no_wait_due)
next
  case True
  have hr: "handle_ranges tm" using assms(1) by (simp add: sched_inv_def sched_ok_def)
  have ok: "\<forall>k \<in> set ks. key_ok tm k" using True known_key_ok [OF hr] by (simp add: list_all_iff)
  let ?s = "\<lambda>k. key_signaled tm k (current tm)"
  consider "every" "list_all ?s ks" | "every" "\<not> list_all ?s ks" | p where "\<not> every" "position ?s ks = Some p"
    | "\<not> every" "position ?s ks = None"
    by (cases every; cases "position ?s ks") auto
  then show ?thesis
  proof cases
    case 1
    with True assms show ?thesis by (simp add: wait_for_objects_def fold_consume_inv no_wait_due)
  next
    case 2
    have "\<not> over (\<lambda>k. sig tm k (current tm)) \<lparr>keys = ks, wait_all = every, deadline = None, timeout_status = 0\<rparr>"
      using 2 by (auto simp: over_def sig_def list_all_iff)
    from park_pending_inv [OF assms(1) ok this] 2 True assms show ?thesis
      by (simp add: wait_for_objects_def no_wait_due)
  next
    case 3
    with True assms show ?thesis by (simp add: wait_for_objects_def consume_inv no_wait_due)
  next
    case 4
    have "\<not> over (\<lambda>k. sig tm k (current tm)) \<lparr>keys = ks, wait_all = every, deadline = None, timeout_status = 0\<rparr>"
      using 4 by (auto simp: over_def sig_def position_None)
    from park_pending_inv [OF assms(1) ok this] 4 True assms show ?thesis
      by (simp add: wait_for_objects_def no_wait_due)
  qed
qed

lemma wake_by_key_inv: "sched_inv tm \<Longrightarrow> sched_inv (snd (wake_by_key key all tm))"
  by (rule inv_keeps_calm [OF wakes_keeps [OF wake_by_key_wakes] wake_by_key_calm])

lemma wake_by_key_pending: "pending (snd (wake_by_key key all tm)) = pending tm"
  using wake_by_key_wakes [of tm key all] by (simp add: wakes_def)

lemma memory_change_inv: "memory_op f \<Longrightarrow> sched_inv tm \<Longrightarrow> sched_inv (snd (f tm)) \<and> pending (snd (f tm)) = pending tm"
  by (rule memory_op_cases [of f tm]) (auto intro!: same_sched_inv [of tm] simp: same_sched_def)

lemma signal_dispatcher_inv:
  assumes "sched_inv tm"
  shows "sched_inv (signal_dispatcher_object a tm) \<and> pending (signal_dispatcher_object a tm) = pending tm"
proof -
  define ar where "ar = ((case tm_read_u32 tm a of Inr word \<Rightarrow> word AND 0xFF | Inl _ \<Rightarrow> 0) = SYNCHRONIZATION_EVENT_TYPE)"
  obtain n t where w: "wake_by_key a (\<not> ar) tm = (n, t)" by (cases "wake_by_key a (\<not> ar) tm")
  have t: "sched_inv t \<and> pending t = pending tm"
    using assms wake_by_key_inv [of tm a "\<not> ar"] wake_by_key_pending [of a "\<not> ar" tm] w by simp
  have "signal_dispatcher_object a tm =
      (if ar \<and> n > 0 then snd (tm_write_u32 (a + DISPATCHER_SIGNAL_STATE) 0 t) else t)"
    using w by (simp add: signal_dispatcher_object_def ar_def Let_def)
  with t memory_change_inv [OF memory_op_prims(7), of t] show ?thesis by simp
qed

lemma transfer_section_inv:
  assumes "sched_inv tm"
  shows "sched_inv (snd (transfer_section_wake a tm)) \<and> pending (snd (transfer_section_wake a tm)) = pending tm"
proof (cases "position (waits_on a) (threads tm)")
  case (Some i)
  from position_Some [OF this] have "is_waiting (threads tm ! i)"
    by (auto simp: waits_on_def is_waiting_def split: ThreadState.splits)
  then have "sched_inv (ready_thread_with i 0 tm)"
    using assms by (intro inv_keeps_calm [OF wakes_keeps [OF wakes_ready] calm_ready])
  with Some show ?thesis by (simp add: transfer_section_wake_def Let_def ready_thread_with_def)
qed (use assms in \<open>simp add: transfer_section_wake_def\<close>)

lemma address_unknown:
  assumes hr: "handle_ranges tm" and "0x10000 \<le> a"
  shows "\<not> known_key tm a"
proof -
  have a: "0x10000 \<le> unat a" using assms(2) by (simp add: word_le_nat_alt)
  have "events tm a = None" using events_range [OF hr, of a] a by (cases "events tm a") (auto simp: word_less_nat_alt)
  moreover have "mutants tm a = None" using mutants_range [OF hr, of a] a by (cases "mutants tm a") (auto simp: word_less_nat_alt)
  moreover have "thread_index tm a = None"
  proof (cases "thread_index tm a")
    case (Some i)
    from thread_index_handle [OF hr this] hr have "a = thread_handle i" "i < 2048"
      by (auto simp: handle_ranges_def)
    then show ?thesis using a thread_handle_unat [of i] by simp
  qed
  ultimately show ?thesis by (simp add: known_key_def)
qed

lemma service_call_inv:
  assumes "service_call tm tm'" "sched_inv tm" "pending tm = None"
  shows "sched_inv tm' \<and> wait_due tm'"
  using assms
proof (induction rule: service_call.induct)
  case (other tm tm')
  moreover from this have "pending tm' = None" by (simp add: same_sched_def)
  ultimately show ?case using same_sched_inv no_wait_due by blast
next
  case (create_event tm m s)
  then show ?case using create_event_inv [of tm m s] by (simp add: no_wait_due create_event_def Let_def)
next
  case (set_event tm handle)
  then show ?case using set_event_inv [of tm handle] by (simp add: no_wait_due)
next
  case (create_mutant tm owned)
  then show ?case using create_mutant_inv [of tm owned] by (simp add: no_wait_due create_mutant_def Let_def)
next
  case (release_mutant tm handle)
  then show ?case using release_mutant_inv [of tm handle] by (simp add: no_wait_due)
next
  case (close_handle tm files_close handle)
  then show ?case using close_handle_inv [of tm files_close handle]
    by (auto simp: no_wait_due close_handle_def split: prod.splits bool.splits)
next
  case (create_thread tm request)
  then have "pending (snd (Thread_Memory.create_thread request tm)) = None"
    using create_thread_effect [of tm request] by (auto simp: adds_thread_def)
  with create_thread show ?case using create_thread_inv create_thread_effect by (blast intro: no_wait_due)
next
  case (resume_thread tm handle)
  then show ?case by (auto simp: resume_thread_def no_wait_due set_state_inv split: option.splits)
next
  case (suspend_thread tm handle)
  then show ?case by (auto simp: suspend_thread_def no_wait_due set_state_inv split: option.splits)
next
  case (exit_thread tm status)
  then show ?case
    using inv_keeps_calm [of tm "exit_current_thread status tm"] sig_cong [of "exit_current_thread status tm" tm]
    by (simp add: exit_current_thread_def keeps_def calm_def waiting_def wait_due_def)
next
  case (wait_dispatcher address tm timeout)
  then have "handle_ranges tm" by (simp add: sched_inv_def sched_ok_def)
  then have "\<not> known_key tm address" using wait_dispatcher(1) by (rule address_unknown)
  with wait_dispatcher show ?case
    using park_pending_inv [of tm "[address]" False]
    by (auto simp: wait_for_dispatcher_object_def no_wait_due over_def sig_def key_ok_def)
next
  case (sleep tm ms)
  then show ?case
    using park_pending_inv [of tm "[]" False] by (auto simp: sleep_thread_def no_wait_due over_def)
next
  case (wait_object tm handle timeout)
  then show ?case by (rule wait_for_object_inv)
next
  case (wait_objects tm ks every timeout)
  then show ?case by (rule wait_for_objects_inv)
next
  case (signal_dispatcher tm address)
  then show ?case using signal_dispatcher_inv [of tm address] by (simp add: no_wait_due)
next
  case (transfer_section tm address)
  then show ?case using transfer_section_inv [of tm address] by (simp add: no_wait_due)
qed

section \<open>Switching\<close>

lemma inv_pending: "sched_inv (tm\<lparr>pending := p\<rparr>) \<longleftrightarrow> sched_inv tm"
proof -
  have "sig (tm\<lparr>pending := p\<rparr>) = sig tm" by (rule sig_cong) simp_all
  moreover have "waiting (tm\<lparr>pending := p\<rparr>) = waiting tm" by (rule waiting_cong) simp
  ultimately show ?thesis
    by (simp add: sched_inv_def sched_ok_def handle_ranges_def one_running_def block_ok_def key_ok_def no_lost_def)
qed

text \<open>Making thread \<open>n\<close> the running one, when none runs.\<close>

lemma switch_inv:
  assumes inv: "sched_inv tm" and idle: "\<forall>i < length (threads tm). thread_state (threads tm ! i) \<noteq> Running"
    and n: "n < length (threads tm)"
  shows "sched_inv ((set_state n Running tm)\<lparr>current := n\<rparr>)"
proof -
  let ?t = "(set_state n Running tm)\<lparr>current := n\<rparr>"
  have c: "calm tm ?t"
    using set_state_calm [of Running tm n] sig_cong [of ?t "set_state n Running tm"] waiting_cong [of ?t "set_state n Running tm"]
    by (simp add: calm_def)
  have "block_ok ?t = block_ok tm"
    by (simp add: block_ok_def key_ok_def fun_eq_iff set_state_def upd_thread_def)
  moreover have "handle_ranges ?t = handle_ranges tm"
    by (simp add: handle_ranges_def set_state_def upd_thread_def)
  moreover have "one_running ?t"
    using idle n by (auto simp: one_running_def nth_set_state split: if_splits)
  moreover have "block_ok tm b" if "waiting ?t i b" for i b
    using that c inv by (simp add: sched_inv_def sched_ok_def calm_def) blast
  ultimately have "sched_ok ?t" using inv by (simp add: sched_inv_def sched_ok_def)
  with c inv show ?thesis by (auto simp: sched_inv_def intro: calm_no_lost)
qed

lemma sched_ok_idle:
  assumes "sched_inv tm" "thread_state (threads tm ! current tm) \<noteq> Running"
  shows "\<forall>i < length (threads tm). thread_state (threads tm ! i) \<noteq> Running"
  using assms by (auto simp: sched_inv_def sched_ok_def one_running_def)

lemma park_step_inv:
  assumes inv: "sched_inv tm" and b: "block_ok tm b" and due: "\<not> over (\<lambda>k. sig tm k (current tm)) b"
  shows "sched_inv (upd_thread (current tm) (\<lambda>t. t\<lparr>thread_cpu := c, thread_state := Waiting b\<rparr>) tm)"
proof -
  define t where "t = upd_thread (current tm) (\<lambda>t. t\<lparr>thread_cpu := c, thread_state := Waiting b\<rparr>) tm"
  have st: "thread_state (threads t ! i) = (if i = current tm then Waiting b else thread_state (threads tm ! i))"
    if "i < length (threads tm)" for i
    using that by (simp add: t_def nth_upd_thread)
  have len: "length (threads t) = length (threads tm)" by (simp add: t_def)
  have s: "sig t k i \<Longrightarrow> sig tm k i" for k i
    by (auto simp: sig_char t_def st [unfolded t_def] split: option.splits if_splits dest: thread_index_less)
  have w: "waiting t i b' \<longleftrightarrow> (if i = current tm then i < length (threads tm) \<and> b' = b else waiting tm i b')" for i b'
    using st [of i] len by (auto simp: waiting_def)
  have "block_ok t = block_ok tm"
    by (simp add: block_ok_def key_ok_def fun_eq_iff t_def upd_thread_def)
  moreover have "handle_ranges t = handle_ranges tm"
    by (simp add: handle_ranges_def t_def upd_thread_def)
  moreover have "one_running t"
    using inv st by (auto simp: one_running_def sched_inv_def sched_ok_def len t_def)
  ultimately have "sched_ok t" using inv b w by (auto simp: sched_inv_def sched_ok_def t_def)
  moreover have "\<not> over (\<lambda>k. sig t k i) b'" if "waiting t i b'" for i b'
  proof
    assume "over (\<lambda>k. sig t k i) b'"
    then have "over (\<lambda>k. sig tm k i) b'" by (rule over_mono) (rule s)
    with that w due inv show False by (auto simp: sched_inv_def no_lost_def split: if_splits)
  qed
  ultimately show ?thesis by (simp add: sched_inv_def no_lost_def t_def)
qed

lemma park_active_inv:
  assumes "sched_inv tm" "block_ok tm b" "\<not> over (\<lambda>k. sig tm k (current tm)) b"
    and "park_active b tm c = (r, tm', c')"
  shows "sched_inv tm' \<and> pending tm' = pending tm"
proof -
  let ?t = "upd_thread (current tm) (\<lambda>t. t\<lparr>thread_cpu := c, thread_state := Waiting b\<rparr>) tm"
  have t: "sched_inv ?t" using assms(1-3) by (rule park_step_inv)
  have "current tm < length (threads tm)" using assms(1) by (simp add: sched_inv_def sched_ok_def one_running_def)
  then have idle: "\<forall>i < length (threads ?t). thread_state (threads ?t ! i) \<noteq> Running"
    by (intro sched_ok_idle [OF t]) (simp add: nth_upd_thread)
  show ?thesis
    using assms(4) t switch_inv [OF t idle]
    by (auto simp: park_active_def Let_def switch_to_def find_upt_Some split: option.splits)
qed

lemma keeps_idle:
  assumes "keeps tm tm'" "\<forall>i < length (threads tm). thread_state (threads tm ! i) \<noteq> Running"
  shows "\<forall>i < length (threads tm'). thread_state (threads tm' ! i) \<noteq> Running"
proof (intro allI impI)
  fix i assume i: "i < length (threads tm')"
  then have "thread_state (threads tm' ! i) = thread_state (threads tm ! i) \<or>
      thread_state (threads tm' ! i) \<in> {Ready, Suspended, Terminated}" and "i < length (threads tm)"
    using assms(1) by (simp_all add: keeps_def)
  with assms(2) show "thread_state (threads tm' ! i) \<noteq> Running" by auto
qed

lemma memory_keeps_calm: "keeps tm (tm\<lparr>memory := m\<rparr>)" "calm tm (tm\<lparr>memory := m\<rparr>)"
  using same_sched_keeps [of tm "tm\<lparr>memory := m\<rparr>"] by (simp_all add: same_sched_def)

lemma publish_memory: "\<exists>m. publish_thread_exit i status tm = tm\<lparr>memory := m\<rparr>"
proof (cases "i < length (threads tm)")
  case True
  obtain r m where f: "tm_write_u32 (kpcr (threads tm ! i) + KTHREAD_OFFSET + KTHREAD_EXIT_STATUS) status tm = (r, tm\<lparr>memory := m\<rparr>)"
    using memory_op_prims(7) by (rule memory_op_cases)
  obtain r' m' where "tm_write_u32 (kpcr (threads tm ! i) + KTHREAD_OFFSET + DISPATCHER_SIGNAL_STATE) 1 (tm\<lparr>memory := m\<rparr>)
      = (r', tm\<lparr>memory := m\<rparr>\<lparr>memory := m'\<rparr>)"
    using memory_op_prims(7) by (rule memory_op_cases)
  with f True show ?thesis
    by (cases r) (auto simp: publish_thread_exit_def Let_def)
qed (simp add: publish_thread_exit_def memory_same)

text \<open>Ending the current thread signals nothing but its own handle.\<close>

lemma terminate_settled:
  assumes "sched_inv tm"
  shows "settled_but (thread_handle (current tm)) (set_state (current tm) Terminated tm)"
proof -
  let ?t = "set_state (current tm) Terminated tm"
  have hr: "handle_ranges tm" using assms by (simp add: sched_inv_def sched_ok_def)
  have s: "sig tm k i" if "k \<noteq> thread_handle (current tm)" "sig ?t k i" for k i
  proof -
    have "j \<noteq> current tm \<and> j < length (threads tm)" if "thread_index tm k = Some j" for j
      using thread_index_handle [OF hr that] thread_index_less [OF that] \<open>k \<noteq> _\<close> by auto
    with that(2) show ?thesis by (auto simp: sig_char nth_set_state split: option.splits)
  qed
  have "\<not> over (\<lambda>k. k \<noteq> thread_handle (current tm) \<and> sig ?t k i) b" if "waiting ?t i b" for i b
  proof
    assume "over (\<lambda>k. k \<noteq> thread_handle (current tm) \<and> sig ?t k i) b"
    then have "over (\<lambda>k. sig tm k i) b" by (rule over_mono) (use s in blast)
    moreover have "waiting tm i b"
      using that by (auto simp: waiting_def nth_set_state split: if_splits)
    ultimately show False using assms by (auto simp: sched_inv_def no_lost_def)
  qed
  then show ?thesis by (simp add: settled_but_def)
qed

lemma settled_calm: "calm tm tm' \<Longrightarrow> settled_but key tm \<Longrightarrow> settled_but key tm'"
  unfolding calm_def settled_but_def
proof (intro allI impI notI)
  fix i b
  assume "(\<forall>i b. waiting tm' i b \<longrightarrow> waiting tm i b) \<and> (\<forall>k i. sig tm' k i \<longrightarrow> sig tm k i)"
    and s: "\<forall>i b. waiting tm i b \<longrightarrow> \<not> over (\<lambda>k. k \<noteq> key \<and> sig tm k i) b" and "waiting tm' i b"
    and o': "over (\<lambda>k. k \<noteq> key \<and> sig tm' k i) b"
  then have "waiting tm i b" and m: "sig tm' k i \<Longrightarrow> sig tm k i" for k by blast+
  from o' have "over (\<lambda>k. k \<noteq> key \<and> sig tm k i) b" by (rule over_mono) (use m in blast)
  with s \<open>waiting tm i b\<close> show False by blast
qed

lemma switch_position_inv:
  assumes "sched_inv tm" "\<forall>i < length (threads tm). thread_state (threads tm ! i) \<noteq> Running"
    and "(case position P (threads tm) of None \<Rightarrow> (False, tm, c) | Some n \<Rightarrow> (True, switch_to n tm c)) = (r, tm', c')"
  shows "sched_inv tm' \<and> pending tm' = pending tm"
  using assms(3) switch_inv [OF assms(1,2)] assms(1)
  by (auto simp: switch_to_def dest: position_Some split: option.splits)

lemma exit_active_inv:
  assumes inv: "sched_inv tm" and ex: "exit_active status tm c = (r, tm', c')"
  shows "sched_inv tm' \<and> pending tm' = pending tm"
proof -
  define t0 where "t0 = set_state (current tm) Terminated tm"
  obtain m where m: "publish_thread_exit (current tm) status t0 = t0\<lparr>memory := m\<rparr>" using publish_memory by blast
  define t1 where "t1 = t0\<lparr>memory := m\<rparr>"
  define t2 where "t2 = snd (wake_by_key (thread_handle (current tm)) True t1)"
  define t3 where "t3 = (if current tm < length (threads t2)
    then snd (wake_by_key (kpcr (threads t2 ! current tm) + KTHREAD_OFFSET) True t2) else t2)"
  have k1: "keeps tm t1"
    unfolding t1_def t0_def by (rule keeps_trans [OF set_state_keeps memory_keeps_calm(1)]) simp
  have s1: "settled_but (thread_handle (current tm)) t1"
    unfolding t1_def using memory_keeps_calm(2) terminate_settled [OF inv, folded t0_def] by (rule settled_calm)
  have k2: "keeps t1 t2" unfolding t2_def by (rule wakes_keeps [OF wake_by_key_wakes])
  have "no_lost t2" using s1 unfolding t2_def by (rule wake_by_key_all) (rule prod.collapse [symmetric])
  then have i2: "sched_inv t2" using keeps_trans [OF k1 k2] inv inv_keeps_no_lost by blast
  have k3: "keeps t2 t3" by (simp add: t3_def wakes_keeps [OF wake_by_key_wakes])
  have i3: "sched_inv t3"
    by (rule inv_keeps_calm [OF k3 _ i2]) (simp add: t3_def wake_by_key_calm)
  have "\<forall>i < length (threads t0). thread_state (threads t0 ! i) \<noteq> Running"
    using inv by (auto simp: t0_def nth_set_state sched_inv_def sched_ok_def one_running_def)
  then have idle: "\<forall>i < length (threads t3). thread_state (threads t3 ! i) \<noteq> Running"
    using keeps_trans [OF memory_keeps_calm(1) keeps_trans [OF k2 [unfolded t1_def] k3]] by (blast dest: keeps_idle)
  have p: "pending t3 = pending tm"
    by (simp add: t3_def t2_def t1_def t0_def wake_by_key_pending)
  have "(case position (\<lambda>t. thread_state t = Ready) (threads t3) of None \<Rightarrow> (False, t3, c) | Some n \<Rightarrow> (True, switch_to n t3 c))
      = (r, tm', c')"
    using ex unfolding exit_active_def Let_def m [unfolded t0_def] t3_def t2_def t1_def t0_def thread_handle_def .
  from switch_position_inv [OF i3 idle this] p show ?thesis by simp
qed

lemma resume_any_ready_inv:
  assumes inv: "sched_inv tm" and "resume_any_ready tm c = (r, tm', c')"
  shows "sched_inv tm' \<and> pending tm' = pending tm"
proof (cases "active_runnable tm")
  case False
  have "thread_state (threads tm ! current tm) \<noteq> Running"
    using False inv by (auto simp: active_runnable_def sched_inv_def sched_ok_def one_running_def)
  from sched_ok_idle [OF inv this] show ?thesis
    using switch_position_inv [OF inv] assms(2) False by (simp add: resume_any_ready_def)
qed (use assms in \<open>simp add: resume_any_ready_def\<close>)

text \<open>A time slice: the interrupted thread keeps its turn in the table, the next ready one runs.\<close>

lemma yield_keeps_calm:
  assumes "sched_inv tm" and "st = thread_state (threads tm ! current tm) \<or> st = Ready"
  shows "keeps tm (upd_thread (current tm) (\<lambda>t. t\<lparr>thread_cpu := c, thread_state := st\<rparr>) tm)"
    "calm tm (upd_thread (current tm) (\<lambda>t. t\<lparr>thread_cpu := c, thread_state := st\<rparr>) tm)"
proof -
  let ?t = "upd_thread (current tm) (\<lambda>t. t\<lparr>thread_cpu := c, thread_state := st\<rparr>) tm"
  show "keeps tm ?t" using assms(2) by (auto simp: keeps_def nth_upd_thread)
  have "sig tm k i" if "sig ?t k i" for k i
    using that assms(2) by (auto simp: sig_char nth_upd_thread split: option.splits if_splits dest: thread_index_less)
  moreover have "waiting tm i b" if "waiting ?t i b" for i b
    using that assms(2) by (auto simp: waiting_def nth_upd_thread split: if_splits)
  ultimately show "calm tm ?t" by (simp add: calm_def)
qed

definition yielded :: "'f ThreadManager \<Rightarrow> CpuState \<Rightarrow> 'f ThreadManager" where
  "yielded tm c = upd_thread (current tm) (\<lambda>t. t\<lparr>thread_cpu := c, thread_state :=
     (if thread_state (threads tm ! current tm) = Running then Ready else thread_state (threads tm ! current tm))\<rparr>) tm"

definition next_ready :: "'f ThreadManager \<Rightarrow> nat option" where
  "next_ready tm = find (\<lambda>i. thread_state (threads tm ! i) = Ready)
     (map (\<lambda>offset. (current tm + offset) mod length (threads tm)) [1 ..< length (threads tm)])"

lemma next_ready_None: "length (threads tm) < 2 \<Longrightarrow> next_ready tm = None"
  by (simp add: next_ready_def)

lemma next_ready_ready: "next_ready tm = Some n \<Longrightarrow> n < length (threads tm) \<and> thread_state (threads tm ! n) = Ready"
  by (auto simp: next_ready_def find_Some_iff intro!: mod_less_divisor)

lemma rotate_active_eq:
  assumes "current tm < length (threads tm)"
  shows "rotate_active tm c =
    (case next_ready tm of
       None \<Rightarrow> (False, tm, c)
     | Some n \<Rightarrow> (True, (set_state n Running (yielded tm c))\<lparr>current := n\<rparr>, thread_cpu (threads (set_state n Running (yielded tm c)) ! n)))"
proof -
  have y: "(if thread_state (threads (upd_thread (current tm) (\<lambda>t. t\<lparr>thread_cpu := c\<rparr>) tm) ! current tm) = Running
      then set_state (current tm) Ready (upd_thread (current tm) (\<lambda>t. t\<lparr>thread_cpu := c\<rparr>) tm)
      else upd_thread (current tm) (\<lambda>t. t\<lparr>thread_cpu := c\<rparr>) tm) = yielded tm c"
    using assms by (simp add: yielded_def set_state_def upd_thread_def)
  show ?thesis
    by (cases "length (threads tm) < 2")
      (simp_all add: next_ready_None, simp_all only: rotate_active_def Let_def y if_False next_ready_def if_True)
qed

lemma rotate_active_inv:
  assumes inv: "sched_inv tm" and ro: "rotate_active tm c = (r, tm', c')"
  shows "sched_inv tm' \<and> pending tm' = pending tm"
proof -
  have cur: "current tm < length (threads tm)" using inv by (simp add: sched_inv_def sched_ok_def one_running_def)
  let ?y = "yielded tm c"
  have y: "sched_inv ?y"
    unfolding yielded_def by (rule inv_keeps_calm [OF yield_keeps_calm inv]) (use inv in auto)
  have "thread_state (threads ?y ! current ?y) \<noteq> Running"
    using cur by (simp add: yielded_def nth_upd_thread)
  from switch_inv [OF y sched_ok_idle [OF y this]]
  have "sched_inv ((set_state n Running ?y)\<lparr>current := n\<rparr>)" if "n < length (threads tm)" for n
    using that by (simp add: yielded_def)
  moreover have "pending ?y = pending tm" by (simp add: yielded_def)
  ultimately show ?thesis using ro inv by (auto simp: rotate_active_eq [OF cur] dest: next_ready_ready split: option.splits)
qed

section \<open>Time\<close>

lemma ready_keeps_calm:
  "keeps tm (ready_thread_with i eax tm)" "calm tm (ready_thread_with i eax tm)"
proof -
  show "keeps tm (ready_thread_with i eax tm)"
    by (auto simp: keeps_def ready_thread_with_def nth_upd_thread)
  show "calm tm (ready_thread_with i eax tm)"
    by (auto simp: calm_def waiting_def sig_char ready_thread_with_def nth_upd_thread
        split: option.splits if_splits dest: thread_index_less)
qed

lemma fold_ready:
  "keeps tm (fold (\<lambda>(i, st). ready_thread_with i st) xs tm) \<and> calm tm (fold (\<lambda>(i, st). ready_thread_with i st) xs tm) \<and>
   pending (fold (\<lambda>(i, st). ready_thread_with i st) xs tm) = pending tm \<and>
   (\<forall>i b. waiting (fold (\<lambda>(i, st). ready_thread_with i st) xs tm) i b \<longrightarrow> waiting tm i b \<and> i \<notin> fst ` set xs)"
proof (induction xs arbitrary: tm)
  case (Cons x xs)
  obtain j st where x: "x = (j, st)" by (cases x)
  let ?t = "ready_thread_with j st tm"
  have "waiting tm i b \<and> i \<noteq> j" if "waiting ?t i b" for i b
    using that by (auto simp: waiting_def ready_thread_with_def nth_upd_thread split: if_splits)
  moreover have "pending ?t = pending tm" by (simp add: ready_thread_with_def)
  moreover have "keeps ?t u \<Longrightarrow> keeps tm u" "calm ?t u \<Longrightarrow> calm tm u" for u
    by (erule keeps_trans [OF ready_keeps_calm(1)], erule calm_trans [OF ready_keeps_calm(2)])
  ultimately show ?case using Cons.IH [of ?t] by (simp add: x) blast
qed simp

lemma set_map_filter: "set (List.map_filter f xs) = {y. \<exists>x \<in> set xs. f x = Some y}"
  by (induction xs) (auto simp: List.map_filter_simps split: option.splits)

lemma expired_waits_set:
  "(i, st) \<in> set (expired_waits tm) \<longleftrightarrow>
     (\<exists>b d. waiting tm i b \<and> deadline b = Some d \<and> d \<le> elapsed_ms tm \<and> st = timeout_status b)"
  by (auto simp: expired_waits_def set_map_filter waiting_def intro!: bexI [of _ i]
      split: ThreadState.split_asm option.split_asm if_split_asm)

lemma queue_all_same: "same_sched tm (fold (\<lambda>dpc t. snd (queue_dpc dpc t)) due tm)"
proof (induction due arbitrary: tm)
  case (Cons d due)
  have "same_sched tm (snd (queue_dpc d tm))" by (simp add: queue_dpc_def same_sched_def)
  with Cons [of "snd (queue_dpc d tm)"] show ?case by (simp add: same_sched_def)
qed (simp add: same_sched_def)

text \<open>Moving the clock may pass deadlines; readying the threads past them restores the invariant.\<close>

lemma wake_expired_inv:
  assumes inv: "sched_inv tm" and e: "elapsed_ms tm \<le> e" "e < - 1"
  defines "t0 \<equiv> tm\<lparr>elapsed_ms := e\<rparr>"
  shows "sched_inv (fold (\<lambda>(i, st). ready_thread_with i st) (expired_waits t0) t0)"
proof -
  define t where "t = fold (\<lambda>(i, st). ready_thread_with i st) (expired_waits t0) t0"
  note f = fold_ready [of t0 "expired_waits t0", folded t_def]
  have c0: "calm tm t0" using sig_cong [of t0 tm] waiting_cong [of t0 tm] by (simp add: calm_def t0_def)
  have keep: "keeps t0 t" and calm: "calm tm t" using f calm_trans [OF c0] by blast+
  have ok: "handle_ranges t0" "one_running t0"
    using inv by (simp_all add: t0_def sched_inv_def sched_ok_def handle_ranges_def one_running_def)
  have "block_ok t b" if w: "waiting t i b" for i b
  proof -
    have w0: "waiting t0 i b" "i \<notin> fst ` set (expired_waits t0)" using f w by blast+
    then have "waiting tm i b" by (simp add: t0_def waiting_def)
    then have "\<forall>k \<in> set (keys b). key_ok tm k"
      using inv by (simp add: sched_inv_def sched_ok_def block_ok_def)
    moreover have "key_ok t = key_ok tm" using keep by (simp add: keeps_def key_ok_def t0_def fun_eq_iff)
    moreover have "elapsed_ms t < d" if "deadline b = Some d" for d
    proof -
      have "(i, timeout_status b) \<notin> set (expired_waits t0)" using w0(2) by force
      then have "\<not> d \<le> elapsed_ms t0" using w0(1) that unfolding expired_waits_set by blast
      then show ?thesis using keep by (simp add: keeps_def)
    qed
    ultimately show ?thesis by (simp add: block_ok_def)
  qed
  moreover have "elapsed_ms t < - 1" using keep e(2) by (simp add: keeps_def t0_def)
  ultimately have "sched_ok t"
    using keeps_handle_ranges [OF keep ok(1)] keeps_one_running [OF keep ok(2)] by (simp add: sched_ok_def)
  moreover have "no_lost t" using calm inv by (auto simp: sched_inv_def intro: calm_no_lost)
  ultimately show ?thesis by (simp add: sched_inv_def t_def)
qed

lemma advance_timers_inv:
  assumes inv: "sched_inv tm" and ms: "unat (elapsed_ms tm) + unat ms < 2 ^ 64 - 1"
  shows "sched_inv (advance_timers ms tm) \<and> pending (advance_timers ms tm) = pending tm"
proof -
  define e where "e = saturating_add (elapsed_ms tm) ms"
  define t0 where "t0 = tm\<lparr>elapsed_ms := e\<rparr>"
  define t1 where "t1 = fold (\<lambda>(i, st). ready_thread_with i st) (expired_waits t0) t0"
  have u: "unat e = unat (elapsed_ms tm) + unat ms"
    using ms by (simp add: e_def saturating_add_def unat_add_lem [THEN iffD1])
  then have "elapsed_ms tm \<le> e" "e < - 1"
    using ms by (simp_all add: word_le_nat_alt word_less_nat_alt unsigned_minus_1_eq_mask mask_eq_exp_minus_1)
  then have i1: "sched_inv t1" using inv unfolding t1_def t0_def by (intro wake_expired_inv)
  have p: "pending t1 = pending tm" using fold_ready [of t0 "expired_waits t0"] by (simp add: t1_def t0_def)
  have adv: "advance_timers ms tm =
      (if ms = 0 then t0 else if timers t1 = [] then t1
       else fold (\<lambda>dpc t. snd (queue_dpc dpc t)) (snd (fire_timers (elapsed_ms t1) (timers t1)))
              (t1\<lparr>timers := fst (fire_timers (elapsed_ms t1) (timers t1))\<rparr>))"
    unfolding advance_timers_def Let_def e_def [symmetric] t0_def [symmetric] t1_def [symmetric]
    by (simp add: case_prod_beta)
  have s: "same_sched t1 (fold (\<lambda>dpc t. snd (queue_dpc dpc t)) due (t1\<lparr>timers := kept\<rparr>))" for due kept
    using queue_all_same [of "t1\<lparr>timers := kept\<rparr>" due] by (simp add: same_sched_def)
  have "ms = 0 \<Longrightarrow> t0 = tm" using u by (simp add: t0_def word_unat_eq_iff)
  then show ?thesis
    using i1 p inv same_sched_inv [OF s] s [unfolded same_sched_def] by (simp add: adv)
qed

section \<open>Reachable tables\<close>

lemma apply_pending_inv:
  assumes "sched_inv tm" "wait_due tm" "apply_pending_scheduling interrupted tm c = (stop, tm', c')"
  shows "sched_inv tm' \<and> pending tm' = None"
proof -
  let ?t = "tm\<lparr>pending := None\<rparr>"
  have t: "sched_inv ?t" using assms(1) by (simp add: inv_pending)
  show ?thesis
  proof (cases "pending tm")
    case None
    then show ?thesis using assms(3) t by (auto simp: apply_pending_scheduling_def take_pending_def)
  next
    case (Some a)
    show ?thesis
    proof (cases a)
      case (PendingExit status)
      obtain sw t1 c1 where ex: "exit_active status ?t c = (sw, t1, c1)" by (cases "exit_active status ?t c")
      with assms(3) Some PendingExit have "tm' = t1"
        by (simp add: apply_pending_scheduling_def take_pending_def emulator_exit_thread_def)
      then show ?thesis using exit_active_inv [OF t ex] by simp
    next
      case (PendingWait b)
      have "block_ok ?t b" "\<not> over (\<lambda>k. sig ?t k (current ?t)) b"
        using assms(2) Some PendingWait sig_cong [of ?t tm] by (simp_all add: wait_due_def block_ok_def key_ok_def)
      moreover obtain r t1 c1 where pk: "park_active b ?t c = (r, t1, c1)" by (cases "park_active b ?t c")
      ultimately have "sched_inv t1 \<and> pending t1 = None" using park_active_inv [OF t] by fastforce
      moreover have "tm' = (if interrupted then ?t else t1)"
        using assms(3) Some PendingWait pk
        by (auto simp: apply_pending_scheduling_def take_pending_def split: if_splits)
      ultimately show ?thesis using t by simp
    qed
  qed
qed

lemma boot_inv:
  assumes "same_sched (tm_new m fs) tm0" "create_boot_environment base bytes tm0 = (Inr k, tm)"
  shows "sched_inv tm \<and> pending tm = None"
proof -
  obtain r m' where "build_thread_pages base bytes tm0 = (r, tm0\<lparr>memory := m'\<rparr>)"
    using memory_op_thread_pages by (rule memory_op_cases)
  with assms(2) obtain t where t: "tm = tm0\<lparr>memory := m', threads := threads tm0 @ [t], current := 0\<rparr>" "thread_state t = Running"
    by (cases r) (auto simp: create_boot_environment_def)
  have n: "threads tm0 = []" "pending tm0 = None" "handles tm0 = {}" "events tm0 = Map.empty" "mutants tm0 = Map.empty"
    "next_event_handle tm0 = EVENT_HANDLE_BASE" "next_mutant_handle tm0 = MUTANT_HANDLE_BASE" "elapsed_ms tm0 = 0"
    using assms(1) by (simp_all add: same_sched_def tm_new_def)
  have "\<not> waiting tm i b" for i b by (auto simp: waiting_def t n)
  moreover have "handle_ranges tm" by (simp add: handle_ranges_def t n handle_bases)
  ultimately show ?thesis
    by (simp add: sched_inv_def sched_ok_def no_lost_def one_running_def) (simp add: t n word_gt_0)
qed

lemma reachable_inv: "sched_reachable tm \<Longrightarrow> sched_inv tm \<and> pending tm = None"
proof (induction rule: sched_reachable.induct)
  case (step tm tm')
  then have inv: "sched_inv tm" "pending tm = None" by blast+
  show ?case
    using step.hyps(2)
  proof cases
    case call
    then show ?thesis using service_call_inv inv apply_pending_inv by blast
  next
    case slice
    then show ?thesis using rotate_active_inv [OF inv(1)] inv(2) by metis
  next
    case tick
    then show ?thesis using advance_timers_inv [OF inv(1)] inv(2) by simp
  next
    case resume
    then show ?thesis using resume_any_ready_inv [OF inv(1)] inv(2) by metis
  qed
qed (rule boot_inv)

end
