(* ===== verification/Thread_Progress.thy ===== *)
theory Thread_Progress
  imports Scheduler
begin

text \<open>
  The properties of the scheduler: what holds of every reachable thread table, when the run ends, and that time slices
  go round. A space with the kernel window's first page mapped shows that a boot table exists.
\<close>

section \<open>A boot table\<close>

definition window_page :: SoftwareAddressSpace where
  "window_page =
     \<lparr>physical_len = 0x10000, ram = (\<lambda>_. 0),
      table = \<lparr>entries = (\<lambda>i. if i = 0x80000 then desc_ram 0 (READ OR WRITE) 0 else 0), physical_generations = (\<lambda>_. 0)\<rparr>,
      allocator = pa_new 16, mapping_epoch = 0\<rparr>"

definition page_writable :: "GuestVa \<Rightarrow> SoftwareAddressSpace \<Rightarrow> bool" where
  "page_writable base s \<longleftrightarrow> unat base + 4096 \<le> 2 ^ 32 \<and> accessible (table s) (physical_len s) Write base 4096"

lemma page_writable_write:
  assumes s: "page_writable base s" and a: "unat base \<le> unat a" "unat a + length bs \<le> unat base + 4096"
  shows "\<exists>s'. gm_write sas_memory a bs s = (Inr (), s') \<and> page_writable base s'"
proof -
  have "in_space a (length bs)" using assms by (simp add: page_writable_def in_space_def)
  moreover have "accessible (table s) (physical_len s) Write a (length bs)"
    unfolding accessible_def
  proof (intro allI impI)
    fix i assume "i < length bs"
    let ?j = "unat a - unat base + i"
    have eq: "a + word_of_nat i = base + word_of_nat ?j"
      using a(1) by (simp add: word_unat_eq_iff unat_word_ariths unat_of_nat mod_simps)
    have "?j < 4096" using \<open>i < length bs\<close> a by simp
    with s show "granted (table s) Write (a + word_of_nat i) \<and> paddr (table s) (a + word_of_nat i) < physical_len s"
      unfolding page_writable_def accessible_def eq by blast
  qed
  ultimately show ?thesis
    using sas_access_write_ok [of a bs s] s by (simp add: sas_memory_def page_writable_def)
qed

lemma write_words_ok:
  assumes "page_writable base (memory tm)" "\<forall>(a, v) \<in> set ws. unat base \<le> unat a \<and> unat a + 4 \<le> unat base + 4096"
  shows "\<exists>m. write_words ws tm = (Inr (), tm\<lparr>memory := m\<rparr>) \<and> page_writable base m"
  using assms
proof (induction ws arbitrary: tm)
  case Nil
  then show ?case using memory_same [of tm] by (intro exI [of _ "memory tm"]) simp
next
  case (Cons w ws)
  obtain a v where w: "w = (a, v)" by (cases w)
  obtain m where m: "gm_write sas_memory a (to_le_bytes v) (memory tm) = (Inr (), m)" "page_writable base m"
    using page_writable_write [OF Cons.prems(1), of a "to_le_bytes v"] Cons.prems(2) w by auto
  with Cons.IH [of "tm\<lparr>memory := m\<rparr>"] Cons.prems(2) w show ?case
    by (auto simp: tm_write_u32_def gm_write_u32_def)
qed

lemma bind_write_words:
  assumes "page_writable base (memory tm)" "\<forall>(a, v) \<in> set ws. unat base \<le> unat a \<and> unat a + 4 \<le> unat base + 4096"
    and "\<And>m. page_writable base m \<Longrightarrow> \<exists>t. g () (tm\<lparr>memory := m\<rparr>) = (Inr k, t)"
  shows "\<exists>t. bind_s (write_words ws) g tm = (Inr k, t)"
  using write_words_ok [OF assms(1,2)] assms(3) by (auto simp: bind_s_Inr)

lemma window_page_writable: "page_writable 0x80000000 (window_page\<lparr>allocator := A\<rparr>)"
proof -
  have "granted (table window_page) Write (0x80000000 + word_of_nat i) \<and> paddr (table window_page) (0x80000000 + word_of_nat i) < 0x10000"
    if "i < 4096" for i
  proof -
    have o: "page_offset 0x80000000 = 0" "va_page 0x80000000 = 0x80000" by (simp_all add: page_offset_def va_page_def)
    have g: "granted (table window_page) Write 0x80000000"
      by (simp add: granted_def o window_page_def pt_get_def page_index_def desc_ram_fields perm_contains_def)
    have "va_page (0x80000000 + word_of_nat i) = 0x80000" using same_page [of i "0x80000000"] that o by simp
    then have "paddr (table window_page) (0x80000000 + word_of_nat i) = unat (page_offset (0x80000000 + word_of_nat i))"
      by (simp add: paddr_def window_page_def pt_get_def page_index_def desc_ram_fields)
    moreover have "unat (page_offset (0x80000000 + word_of_nat i)) < 0x10000"
      using page_offset_less [of "0x80000000 + word_of_nat i"] by linarith
    ultimately show ?thesis using granted_in_page [of i "0x80000000"] that o g by simp
  qed
  then show ?thesis by (simp add: page_writable_def accessible_def) (simp add: window_page_def)
qed

definition boot_table :: "unit ThreadManager" where
  "boot_table = snd (create_boot_environment 0xD0000000 0x10000 (tm_new window_page ()))"

lemma boot_page_allocated:
  "on_memory (allocate_physical 4096) (tm_new window_page ()) =
     (Inr 0, tm_new (window_page\<lparr>allocator := (pa_new 16)\<lparr>next_page := 1\<rparr>\<rparr>) ())"
  by (simp add: on_memory_def allocate_physical_def allocate_def window_page_def pa_new_def tm_new_def div_ceil_pages_def
      checked_add_def page_start_def)

lemma boot_block:
  "\<exists>m. allocate_kernel_block 4096 (tm_new window_page ()) = (Inr \<lparr>gr_start = 0x80000000, gr_len = 4096\<rparr>, tm_new m ()) \<and>
     page_writable 0x80000000 m"
proof -
  let ?m = "window_page\<lparr>allocator := (pa_new 16)\<lparr>next_page := 1\<rparr>\<rparr>"
  obtain m where m: "gm_write sas_memory 0x80000000 (replicate 4096 0) ?m = (Inr (), m)" "page_writable 0x80000000 m"
    using page_writable_write [OF window_page_writable, of "0x80000000" "replicate 4096 0"] by auto
  have "saturating_mul (div_ceil_pages (max 4096 1)) 4096 = (4096 :: u32)"
    by (simp add: saturating_mul_def div_ceil_pages_def)
  moreover have "range_new 0x80000000 4096 = Inr \<lparr>gr_start = 0x80000000, gr_len = 4096\<rparr>"
    by (simp add: range_new_def ok_or_def usize_checked_add_def)
  moreover have "tm_write 0x80000000 (replicate 4096 0) (tm_new ?m ()) = (Inr (), tm_new m ())"
    using m(1) by (simp add: tm_write_def on_memory_def tm_new_def)
  ultimately show ?thesis
    using boot_page_allocated m(2)
    by (intro exI [of _ m]) (simp add: allocate_kernel_block_def Let_def KERNEL_WINDOW_BASE_def map_err_def)
qed

lemma boot_succeeds: "create_boot_environment 0xD0000000 0x10000 (tm_new window_page ()) = (Inr 0x80000000, boot_table)"
proof -
  obtain m where m: "allocate_kernel_block 4096 (tm_new window_page ()) = (Inr \<lparr>gr_start = 0x80000000, gr_len = 4096\<rparr>, tm_new m ())"
    "page_writable 0x80000000 m"
    using boot_block by blast
  have m': "page_writable 0x80000000 (memory (tm_new m ()))" using m(2) by (simp add: tm_new_def)
  note c = KTHREAD_OFFSET_def PRCB_OFFSET_def DISPATCHER_SIGNAL_STATE_def KTHREAD_EXIT_STATUS_def DISPATCHER_WAIT_LIST_def
  have "\<exists>t. build_thread_pages 0xD0000000 0x10000 (tm_new window_page ()) = (Inr 0x80000000, t)"
    unfolding build_thread_pages_def Let_def bind_s_Inr [of "allocate_kernel_block 4096", OF m(1)] GuestRange.simps
  proof (rule bind_write_words [OF m'])
    fix m2 assume m2: "page_writable 0x80000000 m2"
    have "initialize_stack_tls (0xD0000000 + 0x10000) ((tm_new m ())\<lparr>memory := m2\<rparr>) = (Inr 0, (tm_new m ())\<lparr>memory := m2\<rparr>)"
      by (simp add: initialize_stack_tls_def tm_new_def)
    moreover have "\<exists>t. tm_write_u32 (0x80000000 + KTHREAD_OFFSET + 0x28) 0 ((tm_new m ())\<lparr>memory := m2\<rparr>) = (Inr (), t)"
      using write_words_ok [of "0x80000000" "(tm_new m ())\<lparr>memory := m2\<rparr>" "[(0x80000000 + KTHREAD_OFFSET + 0x28, 0)]"] m2
      by (auto simp: c bind_s_def split: prod.splits sum.splits)
    ultimately show "\<exists>t. bind_s (initialize_stack_tls (0xD0000000 + 0x10000)) (\<lambda>tls_data.
        bind_s (tm_write_u32 (0x80000000 + KTHREAD_OFFSET + 0x28) tls_data) (\<lambda>_. ret 0x80000000))
          ((tm_new m ())\<lparr>memory := m2\<rparr>) = (Inr 0x80000000, t)"
      by (auto simp: bind_s_Inr)
  qed (simp add: c)
  then show ?thesis
    by (auto simp: boot_table_def create_boot_environment_def)
qed

lemma boot_reachable: "sched_reachable boot_table"
  by (rule sched_reachable.boot [OF _ boot_succeeds]) (simp add: same_sched_def)

lemma boot_table_fields [simp]:
  "current boot_table = 0" "pending boot_table = None" "elapsed_ms boot_table = 0" "timers boot_table = []"
  "map thread_state (threads boot_table) = [Running]"
proof -
  obtain r m where f: "build_thread_pages 0xD0000000 0x10000 (tm_new window_page ()) = (r, (tm_new window_page ())\<lparr>memory := m\<rparr>)"
    using memory_op_thread_pages by (rule memory_op_cases)
  have "threads (tm_new window_page ()) = []" by (simp add: tm_new_def)
  then have t: "boot_table = (tm_new window_page ())\<lparr>memory := m, threads :=
      [\<lparr>thread_cpu = cpu_default, thread_state = Running, thread_id = 1, kpcr = 0x80000000, exits_on_null_return = True\<rparr>],
      current := 0\<rparr>"
    using boot_succeeds f by (cases r) (auto simp: create_boot_environment_def)
  show "current boot_table = 0" "pending boot_table = None" "elapsed_ms boot_table = 0" "timers boot_table = []"
    "map thread_state (threads boot_table) = [Running]"
    unfolding t by (simp_all add: tm_new_def)
qed

section \<open>Safety of the scheduler\<close>

text \<open>C38. Over every interleaving of service calls, scheduling actions, time slices, clock ticks and idle resumptions after
  boot: the current index is in the table and no other thread is marked running; no parked thread's wait on events,
  mutants and threads is over, that is, no wait-any has a signaled event, a mutant it may take or an ended thread among
  its keys and no wait-all has nothing but those, so no such wake-up is ever lost; and no parked thread is past its
  deadline. (A dispatcher object in guest memory, whose signal state guest code writes itself, does not count as signaled
  here.) The runs considered create at most 1024 events, 3072 mutants and 2048 threads (past that the handle ranges meet),
  wait on dispatcher objects at addresses above every handle, and keep the clock below \<open>2^64 - 1\<close> milliseconds.\<close>

theorem scheduler_safe:
  assumes "sched_reachable tm"
  shows "current tm < length (threads tm) \<and>
    (\<forall>i < length (threads tm). thread_state (threads tm ! i) = Running \<longrightarrow> i = current tm) \<and>
    (\<forall>i b. waiting tm i b \<longrightarrow> \<not> over (\<lambda>k. sig tm k i) b \<and> (\<forall>d. deadline b = Some d \<longrightarrow> elapsed_ms tm < d))"
  using reachable_inv [OF assms]
  by (auto simp: sched_inv_def sched_ok_def one_running_def no_lost_def block_ok_def)

text \<open>The boot thread asleep for ten milliseconds.\<close>

definition asleep_table :: "unit ThreadManager" where
  "asleep_table = fst (snd (apply_pending_scheduling False (snd (sleep_thread 10 boot_table)) cpu_default))"

lemma asleep_reachable: "sched_reachable asleep_table"
proof (rule sched_reachable.step [OF boot_reachable sched_step.call [OF service_call.sleep]])
  show "apply_pending_scheduling False (snd (sleep_thread 10 boot_table)) cpu_default =
    (fst (apply_pending_scheduling False (snd (sleep_thread 10 boot_table)) cpu_default), asleep_table,
     snd (snd (apply_pending_scheduling False (snd (sleep_thread 10 boot_table)) cpu_default)))"
    by (simp add: asleep_table_def)
qed

lemma asleep_waiting: "\<exists>b. waiting asleep_table 0 b \<and> deadline b = Some 10"
proof -
  obtain t where t: "threads boot_table = [t]" using boot_table_fields(5) by (cases "threads boot_table") auto
  show ?thesis
    by (simp add: asleep_table_def apply_pending_scheduling_def take_pending_def sleep_thread_def park_pending_def
        park_active_def Let_def t upd_thread_def waiting_def saturating_add_def)
qed

theorem scheduler_safe_witness:
  "sched_reachable asleep_table \<and> (\<exists>b. waiting asleep_table 0 b \<and> \<not> over (\<lambda>k. sig asleep_table k 0) b \<and>
     elapsed_ms asleep_table < 10)"
  using scheduler_safe [OF asleep_reachable] asleep_reachable asleep_waiting by blast

section \<open>The end of a run\<close>

lemma wakes_other: "wakes tm tm' \<Longrightarrow> i < length (threads tm) \<Longrightarrow> \<not> is_waiting (threads tm ! i) \<Longrightarrow> threads tm' ! i = threads tm ! i"
  by (auto simp: wakes_def woken_as_def)

lemma is_waiting_iff: "is_waiting t \<longleftrightarrow> (\<exists>b. thread_state t = Waiting b)"
  by (cases "thread_state t") (simp_all add: is_waiting_def)

lemma exit_active_effect:
  assumes cur: "current tm < length (threads tm)" and ex: "exit_active status tm c = (r, tm', c')"
  shows "length (threads tm') = length (threads tm) \<and> thread_state (threads tm' ! current tm) = Terminated \<and>
    (if r then current tm' < length (threads tm') \<and> thread_state (threads tm' ! current tm') = Running
     else current tm' = current tm \<and> (\<forall>t \<in> set (threads tm'). thread_state t \<noteq> Ready))"
proof -
  let ?t0 = "set_state (current tm) Terminated tm"
  obtain m where m: "publish_thread_exit (current tm) status ?t0 = ?t0\<lparr>memory := m\<rparr>" using publish_memory by blast
  define t1 where "t1 = ?t0\<lparr>memory := m\<rparr>"
  define t2 where "t2 = snd (wake_by_key (THREAD_HANDLE_BASE + word_of_nat (current tm) * 4) True t1)"
  define t3 where "t3 = (if current tm < length (threads t2)
    then snd (wake_by_key (kpcr (threads t2 ! current tm) + KTHREAD_OFFSET) True t2) else t2)"
  have w: "wakes t1 t3"
    unfolding t3_def t2_def using wakes_trans [OF wake_by_key_wakes wake_by_key_wakes] wake_by_key_wakes by auto
  have one: "thread_state (threads t1 ! current tm) = Terminated" "length (threads t1) = length (threads tm)" "current t1 = current tm"
    using cur by (simp_all add: t1_def nth_set_state)
  then have len: "length (threads t3) = length (threads tm)" "current t3 = current tm" using w by (simp_all add: wakes_def)
  have dead: "thread_state (threads t3 ! current tm) = Terminated"
    using wakes_other [OF w, of "current tm"] cur one by (simp add: is_waiting_def)
  have "(case position (\<lambda>t. thread_state t = Ready) (threads t3) of None \<Rightarrow> (False, t3, c) | Some n \<Rightarrow> (True, switch_to n t3 c))
      = (r, tm', c')"
    using ex unfolding exit_active_def Let_def m t1_def [symmetric] t2_def [symmetric] t3_def [symmetric] .
  then show ?thesis
    using len dead cur
    by (auto simp: switch_to_def nth_set_state position_None dest!: position_Some split: option.splits)
qed

text \<open>C39. A service call stops the run only by ending the last thread that could still run: whatever it recorded, the run
  goes on, unless it was a thread exit after which every thread of the table is suspended or terminated; then the stop
  reason carries the exit status. As long as a thread is ready it is switched to, and as long as one is parked the run
  stays alive for it. The thread that exits is terminated.\<close>

theorem run_ends_with_last_thread:
  assumes "sched_reachable tm" "service_call tm tm1" "apply_pending_scheduling interrupted tm1 c = (stop, tm', c')"
  shows "case pending tm1 of
      Some (PendingExit status) \<Rightarrow>
        thread_state (threads tm' ! current tm1) = Terminated \<and>
        stop = (if \<forall>t \<in> set (threads tm'). thread_state t \<in> {Suspended, Terminated} then Some (GuestExit status) else None) \<and>
        (stop = None \<longrightarrow> thread_state (threads tm' ! current tm') = Running \<or> (\<exists>i b. waiting tm' i b))
    | _ \<Rightarrow> stop = None"
proof -
  have inv: "sched_inv tm1" "wait_due tm1" using service_call_inv [OF assms(2)] reachable_inv [OF assms(1)] by simp_all
  let ?t = "tm1\<lparr>pending := None\<rparr>"
  have inv': "sched_inv tm'" using apply_pending_inv [OF inv assms(3)] by blast
  have cur: "current ?t < length (threads ?t)" using inv by (simp add: sched_inv_def sched_ok_def one_running_def)
  show ?thesis
  proof (cases "\<exists>status. pending tm1 = Some (PendingExit status)")
    case True
    then obtain status where p: "pending tm1 = Some (PendingExit status)" by blast
    obtain r t1 c1 where ex: "exit_active status ?t c = (r, t1, c1)" by (cases "exit_active status ?t c")
    then have t': "t1 = tm'" and stop: "stop = (if r \<or> list_ex is_waiting (threads tm') then None else Some (GuestExit status))"
      using assms(3) p by (auto simp: apply_pending_scheduling_def take_pending_def emulator_exit_thread_def wake_hint_def Let_def)
    note e = exit_active_effect [OF cur ex, unfolded t']
    show ?thesis
    proof (cases r)
      case True
      with e have "threads tm' ! current tm' \<in> set (threads tm')" "thread_state (threads tm' ! current tm') = Running" by simp_all
      with e stop p True show ?thesis by (auto intro!: bexI [of _ "threads tm' ! current tm'"])
    next
      case False
      have "thread_state t \<noteq> Running" if "t \<in> set (threads tm')" for t
        using that e inv' False by (auto simp: sched_inv_def sched_ok_def one_running_def in_set_conv_nth)
      then have "list_ex is_waiting (threads tm') \<longleftrightarrow> \<not> (\<forall>t \<in> set (threads tm'). thread_state t \<in> {Suspended, Terminated})"
        using e False by (auto simp: list_ex_iff is_waiting_def split: ThreadState.splits)
      moreover have "\<exists>i b. waiting tm' i b" if "list_ex is_waiting (threads tm')"
        using that by (auto simp: list_ex_iff is_waiting_iff waiting_def in_set_conv_nth) blast
      ultimately show ?thesis using e stop p False by auto
    qed
  qed (use assms(3) in \<open>auto simp: apply_pending_scheduling_def take_pending_def split: option.splits PendingAction.splits if_splits\<close>)
qed

text \<open>The boot thread ends while nothing else exists.\<close>

theorem run_ends_with_last_thread_witness:
  "fst (apply_pending_scheduling False (exit_current_thread 7 boot_table) cpu_default) = Some (GuestExit 7)"
proof -
  obtain stop tm' c' where ap: "apply_pending_scheduling False (exit_current_thread 7 boot_table) cpu_default = (stop, tm', c')"
    by (cases "apply_pending_scheduling False (exit_current_thread 7 boot_table) cpu_default")
  note e = run_ends_with_last_thread [OF boot_reachable service_call.exit_thread ap]
  have "length (map thread_state (threads boot_table)) = 1" unfolding boot_table_fields(5) by simp
  then have "length (threads boot_table) = 1" by (simp only: length_map)
  moreover obtain r t1 c1 where ex: "exit_active 7 (boot_table\<lparr>pending := None\<rparr>) cpu_default = (r, t1, c1)"
    by (cases "exit_active 7 (boot_table\<lparr>pending := None\<rparr>) cpu_default")
  ultimately have "length (threads tm') = 1"
    using exit_active_effect [OF _ ex] ap
    by (simp add: apply_pending_scheduling_def take_pending_def exit_current_thread_def emulator_exit_thread_def)
  then obtain t where "threads tm' = [t]" by (cases "threads tm'") auto
  with e ap show ?thesis by (simp add: exit_current_thread_def)
qed

section \<open>Time slices go round\<close>








text \<open>Three threads, the last of them ready and two slices away.\<close>

definition three_threads :: "unit ThreadManager" where
  "three_threads = (tm_new window_page ())\<lparr>threads := map (\<lambda>(st, id). \<lparr>thread_cpu = cpu_default\<lparr>eip := id\<rparr>, thread_state = st,
     thread_id = id, kpcr = 0, exits_on_null_return = False\<rparr>) [(Running, 1), (Ready, 2), (Ready, 3)]\<rparr>"


section \<open>What the scheduler does not keep\<close>

text \<open>The time-stamp counter belongs to the processor and is carried across every other switch, but a time slice loads the
  counter the next thread was saved with: it moves backward.\<close>

lemma rotation_moves_counter_back:
  "tsc (snd (snd (rotate_active three_threads (cpu_default\<lparr>tsc := 5000\<rparr>)))) = tsc cpu_default"
  by (simp add: rotate_active_eq three_threads_def tm_new_def next_ready_def upt_rec yielded_def upd_thread_def set_state_def)

text \<open>The event cursor is not stopped at the first mutant handle: a mutant that another thread owns and the 1025th event then
  share a handle, and the mutant counts as signaled when the event is.\<close>

lemma event_shadows_mutant:
  assumes "next_event_handle tm = MUTANT_HANDLE_BASE" "mutants tm MUTANT_HANDLE_BASE = Some (Some (owner, 1))" "owner \<noteq> i"
    and "events tm MUTANT_HANDLE_BASE = None"
  shows "\<not> key_signaled tm MUTANT_HANDLE_BASE i \<and> fst (create_event m True tm) = MUTANT_HANDLE_BASE \<and>
    key_signaled (snd (create_event m True tm)) MUTANT_HANDLE_BASE i"
  using assms by (simp add: key_signaled_def create_event_def Let_def)

end
