(* ===== verification/Spec2Isabelle.thy ===== *)
theory Spec2Isabelle
  imports Space_Mapping Exec_Faults Exec_Shifts Jit_Correct Insn_Cache Code_Cache Xbe_Image Thread_Progress
begin

text \<open>
  A verification development for \<^verbatim>\<open>exbawks\<close>, an emulator of the original Xbox written in Rust. Paths below are relative to
  \<^verbatim>\<open>src/crates/\<close>.

  \<^bold>\<open>The program.\<close> A title is an executable image (\<^verbatim>\<open>exbawks-xbe\<close>) loaded into a 32-bit guest address space
  (\<^verbatim>\<open>exbawks-types\<close>, \<^verbatim>\<open>exbawks-memory\<close>): a flat table of packed page descriptors over one block of physical memory, whose
  pages an allocator hands out. The tier-0 interpreter (\<^verbatim>\<open>exbawks-cpu\<close>) fetches through that space, decodes with a
  disassembler library, caches what it decoded and executes one instruction per step; runs of register-only instructions
  are translated to host code instead (\<^verbatim>\<open>exbawks-jit\<close>), written to pages that are never writable and executable at once
  (\<^verbatim>\<open>exbawks-platform/src/code_memory.rs\<close>), described by source metadata (\<^verbatim>\<open>exbawks-debug/src/source_map.rs\<close>) and kept in a
  cache that every guest write invalidates through page generations. Calls into the kernel (\<^verbatim>\<open>exbawks-kernel\<close>) act on a
  table of guest threads; a call may record that the thread exits or waits, and the emulator (\<^verbatim>\<open>exbawks-core\<close>) then parks
  it and switches.

  \<^bold>\<open>How code becomes definitions.\<close> A Rust \<^verbatim>\<open>Result\<close> is a sum type with the error on the left, a method that changes its
  receiver a function of the state that returns result and new state (\<open>('s, 'e, 'a) st\<close> of \<open>Prelude\<close>), a struct a record,
  an enum a datatype, a machine integer a word of its width; saturating, checked and wrapping arithmetic are written out. A
  \<^verbatim>\<open>BTreeMap\<close> is a sorted association list (\<open>Ordered_Map\<close>). Every error return is a branch of the definition. Locks and
  atomics are modelled as operations that run alone.

  \<^bold>\<open>Memory.\<close> \<open>Guest_Types\<close>: addresses, pages, ranges and their iterator (\<^verbatim>\<open>address.rs\<close>). \<open>Page_Table\<close>: descriptors, the
  table and its operations (\<^verbatim>\<open>page_table.rs\<close>); packing is exact, mapping is all or nothing (locale \<open>mapping_op\<close>, interpreted
  for all six operations). \<open>Phys_Allocator\<close>: bump cursor and pool of freed runs (\<^verbatim>\<open>allocator.rs\<close>); no page is handed out twice
  or lost (locale \<open>page_allocator\<close>). \<open>Guest_Memory\<close>: the trait \<^verbatim>\<open>GuestMemory\<close> as a record of operations and the laws of
  plain memory as a locale. \<open>Software_Space\<close> and \<open>Space_Mapping\<close>: the software address space (\<^verbatim>\<open>software.rs\<close>,
  \<^verbatim>\<open>access.rs\<close>); reads and writes equal their byte-wise specification across pages, aliases are coherent, every write is
  seen in the generations, mapping, loading, reserving and freeing take and return exactly the pages they should.

  \<^bold>\<open>Processor.\<close> \<open>Cpu_State\<close> (\<^verbatim>\<open>state.rs\<close>, \<^verbatim>\<open>flags.rs\<close>), \<open>Exec_Operands\<close>, \<open>Exec_Families\<close>, \<open>Exec_Arith\<close>, \<open>Exec_Stack\<close>, \<open>Exec_Step\<close>:
  the interpreter (\<^verbatim>\<open>exec.rs\<close>), one definition per instruction family, its dispatch by mnemonic and the single step. The
  disassembler, the ports, and the floating-point and vector units (\<^verbatim>\<open>x87.rs\<close>, \<^verbatim>\<open>sse.rs\<close>) are parameters. \<open>Exec_Flags\<close>,
  \<open>Exec_Results\<close>, \<open>Exec_Shifts\<close>: flags, register windows, products, quotients, shifts and rotates against integer
  arithmetic. \<open>Exec_Repeat\<close>: repeated string instructions make progress, and the bound on passes per step is invisible.
  \<open>Exec_Faults\<close>: a faulting instruction leaves the processor, and over the software space the machine, as they were (locale
  \<open>fault_observer\<close>, interpreted for every memory and for the software space). \<open>Insn_Cache\<close>: the decoded-instruction cache
  (\<^verbatim>\<open>cache.rs\<close>); a cached step is the uncached one as long as no generation wraps around.

  \<^bold>\<open>Translator.\<close> \<open>Register_Subset\<close> (\<^verbatim>\<open>subset.rs\<close>, \<^verbatim>\<open>interpret.rs\<close>): the register-only interpreter agrees with the full one.
  \<open>Block_Decoder\<close> (\<^verbatim>\<open>decode.rs\<close>), \<open>Source_Map\<close>, \<open>Code_Memory\<close>, \<open>Jit_Emitter\<close> (\<^verbatim>\<open>plan.rs\<close>, \<^verbatim>\<open>emit.rs\<close>, \<^verbatim>\<open>exit.rs\<close>, \<^verbatim>\<open>dispatch.rs\<close>,
  \<^verbatim>\<open>backend.rs\<close>), \<open>Code_Cache\<close> (\<^verbatim>\<open>exbawks-jit/src/cache.rs\<close>). \<open>Jit_Correct\<close> specifies the host instructions the emitter uses,
  decoded from bytes, with the host's arithmetic flags as a parameter (locale \<open>host_alu\<close>, interpreted on the interpreter's
  own flags), and shows that the emitted bytes do what the register-only interpreter does and return with the host intact.

  \<^bold>\<open>Images.\<close> \<open>Xbe_Image\<close>: bounded readers, headers, sections and their validation; what the parser accepts is well formed.

  \<^bold>\<open>Threads.\<close> \<open>Thread_Table\<close> and \<open>Thread_Memory\<close>: the table and its services (\<^verbatim>\<open>runtime.rs\<close>, \<^verbatim>\<open>services.rs\<close>). \<open>Thread_Waits\<close>:
  what waking does and that it leaves no wait that is over. \<open>Scheduler\<close>: the emulator's \<^verbatim>\<open>apply_pending_scheduling\<close>, the
  transition system of service calls, time slices, ticks and idle resumptions, and its invariant, one lemma per operation.
  \<open>Thread_Progress\<close>: at most the current thread runs, no wake-up by an event, a mutant or a thread is lost, no deadline is missed; the run ends only with the
  last thread; time slices are fair.

  \<^bold>\<open>Bounds.\<close> All loops of the model terminate: page walks, the commit loop, reservation and string repetition by a measure,
  the run of host code by the bytes that are left, everything else structurally; there is no fuel. The cache theorem assumes fewer than 65536 generation bumps
  and an instruction pointer at least 15 bytes below the end of the space; the scheduler theorem at most 1024 events, 3072
  mutants and 2048 threads, dispatcher objects above \<open>0x10000\<close>, and a clock below \<open>2^64 - 1\<close> milliseconds. The lemmas
  \<open>spanning_free_hands_out_twice\<close>, \<open>reserve_through_leaves_freed_pages\<close>, \<open>stale_hits\<close>, \<open>event_shadows_mutant\<close> and
  \<open>rotation_moves_counter_back\<close> show what the code does outside such bounds, or against its comments.

  \<^bold>\<open>Not modelled.\<close> The floating-point and vector units and the video chip compute with host floating-point numbers. The
  Windows address space, the hypervisor, windows, input and files are operating-system calls; of the services, those that
  only forward to the host file system are left out. The kernel's export handlers, the USB controller, the run loop with
  its device models, the debugging reports and the command line are outside the development.
\<close>

end
